(* ===== verification/Prelude.thy ===== *)
theory Prelude
  imports Main "HOL-Library.Word" "HOL-Library.AList" "HOL-Library.List_Lexorder"
begin

text \<open>
  Shared layer of the development: the machine integer types of the Rust code, the
  operations of the Rust standard library that the crates use on them (\<^verbatim>\<open>checked_add\<close>,
  \<^verbatim>\<open>saturating_add\<close>, \<^verbatim>\<open>leading_zeros\<close>, \<^verbatim>\<open>count_ones\<close>), the two map types
  (\<^verbatim>\<open>BTreeMap\<close> as an association list in strictly increasing key order, \<^verbatim>\<open>HashMap\<close> as an
  association list with distinct keys) and the generic lemmas on words, lists and maps.

  Plain \<open>+\<close>, \<open>-\<close> and \<open>*\<close> on a \<open>'a word\<close> wrap around, which is what the release profile of
  the workspace compiles them to (no overflow checks); a debug build panics instead.
\<close>

unbundle bit_operations_syntax

named_theorems rust_word \<open>lemmas that move machine arithmetic to the naturals\<close>
named_theorems inv_intro \<open>every operation of a component keeps its invariant\<close>

section \<open>Machine integers\<close>

type_synonym u8 = "8 word"
type_synonym u16 = "16 word"
type_synonym u32 = "32 word"
type_synonym u64 = "64 word"
type_synonym usize = "64 word"
type_synonym bytes = "8 word list"

definition checked_add :: "'a::len word \<Rightarrow> 'a word \<Rightarrow> 'a word option" where
  "checked_add a b = (if unat a + unat b < 2 ^ LENGTH('a) then Some (a + b) else None)"

definition saturating_add :: "'a::len word \<Rightarrow> 'a word \<Rightarrow> 'a word" where
  "saturating_add a b = (if unat a + unat b < 2 ^ LENGTH('a) then a + b else - 1)"

lemma unat_bound: "unat (w :: 'a::len word) < 2 ^ LENGTH('a)"
  by (rule unsigned_less)

lemma bit_word_bound: "bit (w :: 'a::len word) n \<Longrightarrow> n < LENGTH('a)"
  by (rule bit_imp_le_length)

lemma unat_add_exact:
  fixes a b :: "'a::len word"
  assumes "unat a + unat b < 2 ^ LENGTH('a)"
  shows "unat (a + b) = unat a + unat b"
  using assms by (rule unat_add_lem [THEN iffD1])

lemma unat_neg_one: "unat (- 1 :: 'a::len word) = 2 ^ LENGTH('a) - 1"
  by (simp add: unsigned_minus_1_eq_mask mask_eq_exp_minus_1)

lemma unat_saturating_add [rust_word]:
  fixes a b :: "'a::len word"
  shows "unat (saturating_add a b) = min (unat a + unat b) (2 ^ LENGTH('a) - 1)"
proof (cases "unat a + unat b < 2 ^ LENGTH('a)")
  case True
  then show ?thesis
    by (simp add: saturating_add_def unat_add_exact)
next
  case False
  then show ?thesis
    by (simp add: saturating_add_def unat_neg_one)
qed

lemma saturating_add_ge: "a \<le> saturating_add a b"
  by (simp add: word_le_nat_alt unat_saturating_add)
    (metis One_nat_def Suc_leI Suc_pred' less_Suc_eq_le unsigned_less zero_less_numeral zero_less_power)

lemma unat_max [rust_word]: "unat (max a b) = max (unat a) (unat (b :: 'a::len word))"
  by (simp add: max_def word_le_nat_alt)

lemma unat_min [rust_word]: "unat (min a b) = min (unat a) (unat (b :: 'a::len word))"
  by (simp add: min_def word_le_nat_alt)

lemma succ_greater:
  fixes x :: "'a::len word"
  assumes "x \<noteq> - 1"
  shows "x < x + 1"
proof -
  have "unat x \<noteq> 2 ^ LENGTH('a) - 1"
    using assms by (metis unat_neg_one word_unat_eq_iff)
  with unat_bound [of x] have "unat x + unat (1 :: 'a word) < 2 ^ LENGTH('a)"
    by (simp del: unsigned_less)
  from unat_add_exact [OF this] show ?thesis
    by (simp add: word_less_nat_alt)
qed

definition leading_zeros :: "'a::len word \<Rightarrow> nat" where
  "leading_zeros w = length (takeWhile (\<lambda>i. \<not> bit w i) (rev [0..<LENGTH('a)]))"

definition count_ones :: "'a::len word \<Rightarrow> nat" where
  "count_ones w = length (filter (bit w) [0..<LENGTH('a)])"

fun from_le_bytes :: "bytes \<Rightarrow> 'a::len word" where
  "from_le_bytes [] = 0"
| "from_le_bytes (b # bs) = ucast b OR push_bit 8 (from_le_bytes bs)"

definition to_le_bytes :: "nat \<Rightarrow> 'a::len word \<Rightarrow> bytes" where
  "to_le_bytes n w = map (\<lambda>i. ucast (drop_bit (8 * i) w)) [0..<n]"

lemma count_ones_0 [simp]: "count_ones 0 = 0"
  by (simp add: count_ones_def)

lemma count_ones_eq_0_iff: "count_ones w = 0 \<longleftrightarrow> w = 0"
proof
  assume "count_ones w = 0"
  then have "\<not> bit w n" for n
    using bit_word_bound [of w n] by (auto simp: count_ones_def filter_empty_conv)
  then show "w = 0" by (simp add: bit_eq_iff)
qed simp

text \<open>The leading zero count of a nonzero word locates its most significant set bit.\<close>

lemma leading_zeros_spec:
  fixes w :: "'a::len word"
  assumes "w \<noteq> 0"
  shows "leading_zeros w < LENGTH('a)" and "bit w (LENGTH('a) - 1 - leading_zeros w)"
    and "LENGTH('a) - 1 - leading_zeros w < n \<Longrightarrow> \<not> bit w n"
proof -
  let ?xs = "rev [0..<LENGTH('a)]" and ?k = "leading_zeros w"
  obtain m where m: "bit w m" using assms by (auto simp: bit_eq_iff)
  then have "m \<in> set ?xs" by (auto dest: bit_word_bound)
  with m have ne: "takeWhile (\<lambda>i. \<not> bit w i) ?xs \<noteq> ?xs" by (metis set_takeWhileD)
  then have "length (takeWhile (\<lambda>i. \<not> bit w i) ?xs) \<noteq> length ?xs"
    by (metis order_refl take_all takeWhile_eq_take)
  then show lt: "?k < LENGTH('a)"
    using length_takeWhile_le [of "\<lambda>i. \<not> bit w i" ?xs] by (simp add: leading_zeros_def)
  have "\<not> \<not> bit w (?xs ! ?k)"
    using lt nth_length_takeWhile [of "\<lambda>i. \<not> bit w i" ?xs] by (simp add: leading_zeros_def)
  then show "bit w (LENGTH('a) - 1 - ?k)" using lt by (simp add: rev_nth)
  show "\<not> bit w n" if "LENGTH('a) - 1 - ?k < n"
  proof
    assume b: "bit w n"
    then have nl: "n < LENGTH('a)" by (rule bit_word_bound)
    have i: "LENGTH('a) - 1 - n < ?k" using that nl lt by linarith
    have "\<not> bit w (takeWhile (\<lambda>i. \<not> bit w i) ?xs ! (LENGTH('a) - 1 - n))"
      using i nth_mem set_takeWhileD unfolding leading_zeros_def by fast
    moreover have "takeWhile (\<lambda>i. \<not> bit w i) ?xs ! (LENGTH('a) - 1 - n) = n"
      using i nl by (simp add: takeWhile_nth leading_zeros_def rev_nth)
    ultimately show False using b by simp
  qed
qed

lemma xor_cancel_right: "a XOR c = b XOR c \<longleftrightarrow> a = (b :: 'a::len word)"
  by (auto simp: bit_eq_iff bit_xor_iff)

lemma xor_eq_0_iff: "a XOR b = 0 \<longleftrightarrow> a = (b :: 'a::len word)"
  by (auto simp: bit_eq_iff bit_xor_iff)

section \<open>Ordered maps: \<^verbatim>\<open>BTreeMap\<close>\<close>

text \<open>
  A \<^verbatim>\<open>BTreeMap\<close> is the list of its entries in strictly increasing key order: iteration order
  is the list order, \<^verbatim>\<open>len\<close> is the length, and two maps are equal exactly when their lists
  are (\<open>bt_ext\<close>).
\<close>

type_synonym ('k, 'v) btree_map = "('k \<times> 'v) list"

abbreviation bt_get :: "('k, 'v) btree_map \<Rightarrow> 'k \<Rightarrow> 'v option" where
  "bt_get \<equiv> map_of"

abbreviation bt_ok :: "('k::linorder, 'v) btree_map \<Rightarrow> bool" where
  "bt_ok m \<equiv> sorted_wrt (<) (map fst m)"

fun bt_insert :: "'k::linorder \<Rightarrow> 'v \<Rightarrow> ('k, 'v) btree_map \<Rightarrow> ('k, 'v) btree_map" where
  "bt_insert k v [] = [(k, v)]"
| "bt_insert k v ((a, b) # m) =
     (if k = a then (k, v) # m
      else if k < a then (k, v) # (a, b) # m
      else (a, b) # bt_insert k v m)"

definition bt_remove :: "'k \<Rightarrow> ('k, 'v) btree_map \<Rightarrow> ('k, 'v) btree_map" where
  "bt_remove k m = filter (\<lambda>e. fst e \<noteq> k) m"

lemma bt_get_insert [simp]: "bt_get (bt_insert k v m) = (bt_get m)(k \<mapsto> v)"
  by (induction m) (auto simp: fun_eq_iff)

lemma bt_keys_insert [simp]: "fst ` set (bt_insert k v m) = insert k (fst ` set m)"
  by (metis bt_get_insert dom_fun_upd dom_map_of_conv_image_fst option.distinct(1))

lemma bt_set_insert: "bt_ok m \<Longrightarrow> set (bt_insert k v m) = {e \<in> set m. fst e \<noteq> k} \<union> {(k, v)}"
proof (induction m)
  case (Cons e m)
  obtain a b where e: "e = (a, b)" by (cases e)
  from Cons.prems have "\<forall>x \<in> set m. a < fst x" by (simp add: e)
  with Cons show ?case by (cases k a rule: linorder_cases) (auto simp: e)
qed simp

lemma bt_ok_insert [simp, inv_intro]: "bt_ok m \<Longrightarrow> bt_ok (bt_insert k v m)"
proof (induction m)
  case (Cons e m)
  have "\<And>x. x \<in> set (map fst (bt_insert k v m)) \<longleftrightarrow> x = k \<or> x \<in> set (map fst m)"
    using bt_keys_insert [of k v m] by auto
  with Cons show ?case by (cases e) (auto simp del: set_map)
qed simp

lemma bt_get_remove [simp]: "bt_get (bt_remove k m) = (bt_get m)(k := None)"
  by (induction m) (auto simp: bt_remove_def fun_eq_iff)

lemma bt_ok_filter [simp]: "bt_ok m \<Longrightarrow> bt_ok (filter P m)"
  by (induction m) auto

lemma bt_ok_remove [simp, inv_intro]: "bt_ok m \<Longrightarrow> bt_ok (bt_remove k m)"
  by (simp add: bt_remove_def)

lemma bt_ok_distinct: "bt_ok m \<Longrightarrow> distinct (map fst m)"
  by (simp add: strict_sorted_iff)

lemma bt_ext:
  assumes "bt_ok m" and "bt_ok m'" and "bt_get m = bt_get m'"
  shows "m = m'"
proof -
  from assms have d: "distinct (map fst m)" "distinct (map fst m')"
    by (simp_all add: bt_ok_distinct)
  with assms(3) have s: "set m = set m'"
    by (simp add: map_of_inject_set)
  have "inj_on fst (set m \<union> set m')"
    using d s by (simp add: distinct_map)
  with d s assms(1,2) show ?thesis
    by (intro map_sorted_distinct_set_unique [of fst]) (auto simp: strict_sorted_iff)
qed

lemma bt_get_filter:
  "distinct (map fst m) \<Longrightarrow>
     bt_get (filter P m) k = (case bt_get m k of Some v \<Rightarrow> if P (k, v) then Some v else None | None \<Rightarrow> None)"
  by (induction m) (auto split: option.split simp: map_of_eq_None_iff image_iff rev_image_eqI
      dest: map_of_SomeD)

section \<open>Hash maps: \<^verbatim>\<open>HashMap\<close>\<close>

text \<open>
  A \<^verbatim>\<open>HashMap\<close> is an association list with distinct keys; its order carries no meaning.
  The update and delete operations are those of \<open>HOL-Library.AList\<close>.
\<close>

type_synonym ('k, 'v) hash_map = "('k \<times> 'v) list"

abbreviation hm_get :: "('k, 'v) hash_map \<Rightarrow> 'k \<Rightarrow> 'v option" where
  "hm_get \<equiv> map_of"

abbreviation hm_ok :: "('k, 'v) hash_map \<Rightarrow> bool" where
  "hm_ok m \<equiv> distinct (map fst m)"

abbreviation hm_insert :: "'k \<Rightarrow> 'v \<Rightarrow> ('k, 'v) hash_map \<Rightarrow> ('k, 'v) hash_map" where
  "hm_insert \<equiv> AList.update"

abbreviation hm_remove :: "'k \<Rightarrow> ('k, 'v) hash_map \<Rightarrow> ('k, 'v) hash_map" where
  "hm_remove \<equiv> AList.delete"

abbreviation hm_contains :: "('k, 'v) hash_map \<Rightarrow> 'k \<Rightarrow> bool" where
  "hm_contains m k \<equiv> hm_get m k \<noteq> None"

lemma hm_get_insert [simp]: "hm_get (hm_insert k v m) = (hm_get m)(k \<mapsto> v)"
  by (simp add: update_conv')

lemma hm_get_remove [simp]: "hm_get (hm_remove k m) = (hm_get m)(k := None)"
  by (simp add: delete_conv')

lemma hm_ok_insert [simp, inv_intro]: "hm_ok m \<Longrightarrow> hm_ok (hm_insert k v m)"
  by (rule distinct_update)

lemma hm_ok_remove [simp, inv_intro]: "hm_ok m \<Longrightarrow> hm_ok (hm_remove k m)"
  by (rule distinct_delete)

lemma hm_ok_filter [simp, inv_intro]: "hm_ok m \<Longrightarrow> hm_ok (filter P m)"
  by (rule distinct_map_filter)

lemma hm_length_insert:
  "length (hm_insert k v m) = (if k \<in> fst ` set m then length m else Suc (length m))"
  by (induction m) auto

lemma hm_set_insert: "set (hm_insert k v m) \<subseteq> insert (k, v) (set m)"
  by (induction m) auto

lemma hm_set_remove: "set (hm_remove k m) \<subseteq> set m"
  by (induction m) auto

lemmas hm_get_filter = bt_get_filter

lemma hm_contains_iff: "hm_contains m k \<longleftrightarrow> k \<in> fst ` set m"
  by (simp add: map_of_eq_None_iff)

end
