(* ===== verification/Crdt_Join.thy ===== *)
theory Crdt_Join
  imports Prelude
begin

text \<open>
  The contract that the crate documentation of \<^verbatim>\<open>ephemera-crdt\<close> states for its types: merging
  is commutative, associative and idempotent. The locale \<open>crdt_join\<close> states it over the states
  that satisfy an invariant and derives, once for all the types, that replicas converge: the
  state reached by merging a batch of remote states depends neither on the order in which they
  arrive nor on how often each is delivered.
\<close>

locale crdt_join =
  fixes merge :: "'s \<Rightarrow> 's \<Rightarrow> 's"
    and ok :: "'s \<Rightarrow> bool"
  assumes ok_merge: "ok a \<Longrightarrow> ok b \<Longrightarrow> ok (merge a b)"
    and merge_comm: "ok a \<Longrightarrow> ok b \<Longrightarrow> merge a b = merge b a"
    and merge_assoc: "ok a \<Longrightarrow> ok b \<Longrightarrow> ok c \<Longrightarrow> merge (merge a b) c = merge a (merge b c)"
    and merge_idem: "ok a \<Longrightarrow> merge a a = a"
begin

definition below :: "'s \<Rightarrow> 's \<Rightarrow> bool" where
  "below a b \<longleftrightarrow> merge a b = b"

lemma below_refl: "ok a \<Longrightarrow> below a a"
  by (simp add: below_def merge_idem)

lemma below_trans: "below a b \<Longrightarrow> below b c \<Longrightarrow> ok a \<Longrightarrow> ok b \<Longrightarrow> ok c \<Longrightarrow> below a c"
  unfolding below_def by (metis merge_assoc)

lemma below_antisym: "below a b \<Longrightarrow> below b a \<Longrightarrow> ok a \<Longrightarrow> ok b \<Longrightarrow> a = b"
  unfolding below_def by (metis merge_comm)

lemma below_merge1: "ok a \<Longrightarrow> ok b \<Longrightarrow> below a (merge a b)"
  unfolding below_def by (metis merge_assoc merge_idem)

lemma below_merge2: "ok a \<Longrightarrow> ok b \<Longrightarrow> below b (merge a b)"
  using below_merge1 merge_comm by metis

lemma merge_least: "below a c \<Longrightarrow> below b c \<Longrightarrow> ok a \<Longrightarrow> ok b \<Longrightarrow> ok c \<Longrightarrow> below (merge a b) c"
  unfolding below_def by (metis merge_assoc)

lemma ok_merge_all: "ok s \<Longrightarrow> list_all ok xs \<Longrightarrow> ok (foldl merge s xs)"
  by (induction xs arbitrary: s) (simp_all add: ok_merge)

lemma merge_all_upper:
  "ok s \<Longrightarrow> list_all ok xs \<Longrightarrow> x = s \<or> x \<in> set xs \<Longrightarrow> below x (foldl merge s xs)"
proof (induction xs arbitrary: s x)
  case Nil
  then show ?case by (simp add: below_refl)
next
  case (Cons y xs)
  then have ok: "ok s" "ok y" "ok (merge s y)" "list_all ok xs" "ok (foldl merge (merge s y) xs)"
    by (simp_all add: ok_merge ok_merge_all)
  have base: "below (merge s y) (foldl merge (merge s y) xs)"
    using Cons.IH [of "merge s y"] ok by simp
  consider "x = s" | "x = y" | "x \<in> set xs" using Cons.prems(3) by auto
  then show ?case
  proof cases
    case 1
    with base ok below_merge1 [of s y] below_trans [of s "merge s y"] show ?thesis by simp
  next
    case 2
    with base ok below_merge2 [of s y] below_trans [of y "merge s y"] show ?thesis by simp
  next
    case 3
    with Cons.IH [of "merge s y"] ok show ?thesis by simp
  qed
qed

lemma merge_all_least:
  "ok s \<Longrightarrow> list_all ok xs \<Longrightarrow> ok u \<Longrightarrow> below s u \<Longrightarrow> \<forall>x \<in> set xs. below x u \<Longrightarrow>
     below (foldl merge s xs) u"
  by (induction xs arbitrary: s) (simp_all add: ok_merge merge_least)

lemma convergence:
  assumes "ok s" and "list_all ok xs" and "list_all ok ys" and "set xs = set ys"
  shows "foldl merge s xs = foldl merge s ys"
proof -
  have le: "below (foldl merge s as) (foldl merge s bs)"
    if "list_all ok as" "list_all ok bs" "set as = set bs" for as bs
    using that assms(1)
    by (intro merge_all_least) (auto simp: ok_merge_all intro: merge_all_upper)
  show ?thesis
    using assms by (intro below_antisym le) (simp_all add: ok_merge_all)
qed

end

end
