(* ===== verification/Time_Types.thy ===== *)
theory Time_Types
  imports Prelude
begin

text \<open>
  Crate \<^verbatim>\<open>ephemera-types\<close>, files \<^verbatim>\<open>ttl.rs\<close>, \<^verbatim>\<open>timestamp.rs\<close> and \<^verbatim>\<open>error.rs\<close>: the validated
  time-to-live, wall-clock timestamps in seconds, hybrid logical clock timestamps packed into one
  64-bit word, content expiry, and the unified error type. The wall clock
  (\<^verbatim>\<open>Timestamp::now()\<close>) is an argument \<open>now\<close> of every operation that reads it.
\<close>

section \<open>Errors\<close>

datatype EphemeraError =
    SignatureInvalid string
  | InvalidKey string
  | EncryptionError string
  | KeyDerivationError string
  | KeystoreError string
  | InvalidTtl u64 u64 u64
  | TimestampSkew u64 u64
  | ContentExpired
  | InvalidContent string
  | ContentNotFound string
  | InvalidPow string
  | NetworkTimeout u64
  | PeerConnectionFailed string
  | GossipError string
  | DhtError string
  | StorageError string
  | StorageQuotaExceeded u64 u64
  | ConfigError string
  | Io string
  | ContentRejectedBySafetyFilter
  | InvalidModerationVote string
  | RateLimited u64
  | SerializationError string

fun is_transient :: "EphemeraError \<Rightarrow> bool" where
  "is_transient (NetworkTimeout _) = True"
| "is_transient (PeerConnectionFailed _) = True"
| "is_transient (RateLimited _) = True"
| "is_transient _ = False"

fun is_security_violation :: "EphemeraError \<Rightarrow> bool" where
  "is_security_violation (SignatureInvalid _) = True"
| "is_security_violation (InvalidPow _) = True"
| "is_security_violation ContentRejectedBySafetyFilter = True"
| "is_security_violation _ = False"

section \<open>Timestamps\<close>

datatype Timestamp = Timestamp (ts_secs: u64)

instantiation Timestamp :: linorder
begin

definition less_eq_Timestamp :: "Timestamp \<Rightarrow> Timestamp \<Rightarrow> bool" where
  "less_eq_Timestamp a b \<longleftrightarrow> ts_secs a \<le> ts_secs b"

definition less_Timestamp :: "Timestamp \<Rightarrow> Timestamp \<Rightarrow> bool" where
  "less_Timestamp a b \<longleftrightarrow> ts_secs a < ts_secs b"

instance
  by standard (auto simp: less_eq_Timestamp_def less_Timestamp_def Timestamp.expand)

end

definition Timestamp_from_secs :: "u64 \<Rightarrow> Timestamp" where
  "Timestamp_from_secs secs = Timestamp secs"

definition Timestamp_as_secs :: "Timestamp \<Rightarrow> u64" where
  "Timestamp_as_secs t = ts_secs t"

section \<open>Time to live\<close>

definition MIN_TTL_SECS :: u64 where "MIN_TTL_SECS = 3600"
definition MAX_TTL_SECS :: u64 where "MAX_TTL_SECS = 30 * 24 * 3600"
definition EPOCH_DURATION_SECS :: u64 where "EPOCH_DURATION_SECS = 24 * 3600"
definition CLOCK_SKEW_TOLERANCE_SECS :: u64 where "CLOCK_SKEW_TOLERANCE_SECS = 5 * 60"
definition TOMBSTONE_RETENTION_MULTIPLIER :: u64 where "TOMBSTONE_RETENTION_MULTIPLIER = 3"

datatype Ttl = Ttl (ttl_secs: u64)

instantiation Ttl :: linorder
begin

definition less_eq_Ttl :: "Ttl \<Rightarrow> Ttl \<Rightarrow> bool" where
  "less_eq_Ttl a b \<longleftrightarrow> ttl_secs a \<le> ttl_secs b"

definition less_Ttl :: "Ttl \<Rightarrow> Ttl \<Rightarrow> bool" where
  "less_Ttl a b \<longleftrightarrow> ttl_secs a < ttl_secs b"

instance
  by standard (auto simp: less_eq_Ttl_def less_Ttl_def Ttl.expand)

end

definition Ttl_from_secs :: "u64 \<Rightarrow> EphemeraError + Ttl" where
  "Ttl_from_secs secs =
     (if \<not> (MIN_TTL_SECS \<le> secs \<and> secs \<le> MAX_TTL_SECS)
      then Inl (InvalidTtl secs MIN_TTL_SECS MAX_TTL_SECS)
      else Inr (Ttl secs))"

definition Ttl_one_hour :: Ttl where "Ttl_one_hour = Ttl MIN_TTL_SECS"
definition Ttl_one_day :: Ttl where "Ttl_one_day = Ttl (24 * 3600)"
definition Ttl_one_week :: Ttl where "Ttl_one_week = Ttl (7 * 24 * 3600)"
definition Ttl_max :: Ttl where "Ttl_max = Ttl MAX_TTL_SECS"

definition Ttl_as_secs :: "Ttl \<Rightarrow> u64" where
  "Ttl_as_secs t = ttl_secs t"

text \<open>The values a \<open>Ttl\<close> can hold: its field is private and every constructor stays in range.\<close>

definition ttl_ok :: "Ttl \<Rightarrow> bool" where
  "ttl_ok t \<longleftrightarrow> MIN_TTL_SECS \<le> ttl_secs t \<and> ttl_secs t \<le> MAX_TTL_SECS"

section \<open>Expiry\<close>

record Expiry =
  ex_created_at :: Timestamp
  ex_ttl :: Ttl

definition Expiry_new :: "Timestamp \<Rightarrow> Ttl \<Rightarrow> Expiry" where
  "Expiry_new created_at ttl = \<lparr>ex_created_at = created_at, ex_ttl = ttl\<rparr>"

definition expires_at_secs :: "Expiry \<Rightarrow> u64" where
  "expires_at_secs e = Timestamp_as_secs (ex_created_at e) + Ttl_as_secs (ex_ttl e)"

definition is_expired_at :: "Expiry \<Rightarrow> Timestamp \<Rightarrow> bool" where
  "is_expired_at e now \<longleftrightarrow> Timestamp_as_secs now > expires_at_secs e"

definition tombstone_expires_at_secs :: "Expiry \<Rightarrow> u64" where
  "tombstone_expires_at_secs e =
     expires_at_secs e + TOMBSTONE_RETENTION_MULTIPLIER * Ttl_as_secs (ex_ttl e)"

definition is_timestamp_acceptable :: "u64 \<Rightarrow> Timestamp \<Rightarrow> bool" where
  "is_timestamp_acceptable now remote_ts \<longleftrightarrow>
     Timestamp_as_secs remote_ts \<le> now + CLOCK_SKEW_TOLERANCE_SECS"

definition is_ttl_valid :: "u64 \<Rightarrow> Timestamp \<Rightarrow> Ttl \<Rightarrow> bool" where
  "is_ttl_valid now created_at ttl \<longleftrightarrow>
     (let deadline = Timestamp_as_secs created_at + Ttl_as_secs ttl + CLOCK_SKEW_TOLERANCE_SECS
      in now \<le> deadline)"

section \<open>Hybrid logical clock timestamps\<close>

datatype HlcTimestamp = HlcTimestamp (hlc_raw: u64)

instantiation HlcTimestamp :: linorder
begin

definition less_eq_HlcTimestamp :: "HlcTimestamp \<Rightarrow> HlcTimestamp \<Rightarrow> bool" where
  "less_eq_HlcTimestamp a b \<longleftrightarrow> hlc_raw a \<le> hlc_raw b"

definition less_HlcTimestamp :: "HlcTimestamp \<Rightarrow> HlcTimestamp \<Rightarrow> bool" where
  "less_HlcTimestamp a b \<longleftrightarrow> hlc_raw a < hlc_raw b"

instance
  by standard (auto simp: less_eq_HlcTimestamp_def less_HlcTimestamp_def HlcTimestamp.expand)

end

definition COUNTER_BITS :: nat where "COUNTER_BITS = 16"
definition COUNTER_MASK :: u64 where "COUNTER_MASK = push_bit COUNTER_BITS 1 - 1"

definition Hlc_new :: "u64 \<Rightarrow> u16 \<Rightarrow> HlcTimestamp" where
  "Hlc_new wall_secs counter = HlcTimestamp (push_bit COUNTER_BITS wall_secs OR ucast counter)"

definition Hlc_now :: "u64 \<Rightarrow> HlcTimestamp" where
  "Hlc_now now = Hlc_new now 0"

definition wall_secs :: "HlcTimestamp \<Rightarrow> u64" where
  "wall_secs h = drop_bit COUNTER_BITS (hlc_raw h)"

definition hlc_counter :: "HlcTimestamp \<Rightarrow> u16" where
  "hlc_counter h = ucast (hlc_raw h AND COUNTER_MASK)"

definition Hlc_as_u64 :: "HlcTimestamp \<Rightarrow> u64" where
  "Hlc_as_u64 h = hlc_raw h"

definition Hlc_from_u64 :: "u64 \<Rightarrow> HlcTimestamp" where
  "Hlc_from_u64 val = HlcTimestamp val"

definition Hlc_update :: "u64 \<Rightarrow> HlcTimestamp \<Rightarrow> HlcTimestamp \<Rightarrow> HlcTimestamp" where
  "Hlc_update now_secs self remote =
     (let local_wall = wall_secs self;
          remote_wall = wall_secs remote;
          max_wall = max (max now_secs local_wall) remote_wall;
          counter =
            (if max_wall = local_wall \<and> max_wall = remote_wall
             then checked_add (max (hlc_counter self) (hlc_counter remote)) 1
             else if max_wall = local_wall then checked_add (hlc_counter self) 1
             else if max_wall = remote_wall then checked_add (hlc_counter remote) 1
             else Some 0)
      in case counter of
           Some c \<Rightarrow> Hlc_new max_wall c
         | None \<Rightarrow> Hlc_new (saturating_add max_wall 1) 0)"

definition Hlc_to_timestamp :: "HlcTimestamp \<Rightarrow> Timestamp" where
  "Hlc_to_timestamp h = Timestamp_from_secs (wall_secs h)"

section \<open>Lemmas: the packed representation\<close>

lemma unat_wall_secs [rust_word]: "unat (wall_secs h) = unat (hlc_raw h) div 65536"
  by (simp add: wall_secs_def COUNTER_BITS_def drop_bit_eq_div unat_div)

lemma counter_mask_eq: "COUNTER_MASK = mask 16"
  by (simp add: COUNTER_MASK_def COUNTER_BITS_def mask_eq_exp_minus_1 push_bit_eq_mult)

lemma unat_hlc_counter [rust_word]: "unat (hlc_counter h) = unat (hlc_raw h) mod 65536"
  by (simp add: hlc_counter_def counter_mask_eq unsigned_ucast_eq take_bit_eq_mod unat_mod
      flip: take_bit_eq_mask)

lemma unat_Hlc_new [rust_word]:
  assumes "unat w < 2 ^ 48"
  shows "unat (hlc_raw (Hlc_new w c)) = unat w * 65536 + unat c"
proof -
  have "push_bit 16 w OR ucast c = push_bit 16 w + (ucast c :: u64)"
    by (rule disjunctive_add [symmetric]) (auto simp: bit_simps dest: bit_word_bound)
  moreover have "unat (push_bit 16 w) = unat w * 65536"
    using assms by (simp add: push_bit_eq_mult unat_word_ariths mult.commute)
  moreover have "unat (ucast c :: u64) = unat c"
    using unat_bound [of c] by (simp add: unsigned_ucast_eq take_bit_eq_mod)
  ultimately show ?thesis
    using assms unat_bound [of c] by (simp add: Hlc_new_def COUNTER_BITS_def unat_add_exact)
qed

lemma hlc_decompose: "unat (hlc_raw h) = unat (wall_secs h) * 65536 + unat (hlc_counter h)"
  by (simp add: rust_word)

lemma wall_secs_bound: "unat (wall_secs h) < 2 ^ 48"
  using unat_bound [of "hlc_raw h"] by (simp add: rust_word less_mult_imp_div_less)

lemma wall_secs_Hlc_new [simp]: "unat w < 2 ^ 48 \<Longrightarrow> wall_secs (Hlc_new w c) = w"
  using unat_bound [of c] by (intro word_unat_eq_iff [THEN iffD2]) (simp add: rust_word)

lemma hlc_counter_Hlc_new [simp]: "unat w < 2 ^ 48 \<Longrightarrow> hlc_counter (Hlc_new w c) = c"
  using unat_bound [of c] by (intro word_unat_eq_iff [THEN iffD2]) (simp add: rust_word)

lemma hlc_less_iff:
  "h < h' \<longleftrightarrow>
     wall_secs h < wall_secs h' \<or> wall_secs h = wall_secs h' \<and> hlc_counter h < hlc_counter h'"
proof -
  have "unat (hlc_counter h) < 65536" "unat (hlc_counter h') < 65536"
    using unat_bound [of "hlc_counter h"] unat_bound [of "hlc_counter h'"] by simp_all
  then show ?thesis
    by (auto simp: less_HlcTimestamp_def word_less_nat_alt hlc_decompose word_unat_eq_iff)
qed


text \<open>A timestamp is the pair of its wall clock and its counter.\<close>

lemma hlc_eqI: "wall_secs h = wall_secs h' \<Longrightarrow> hlc_counter h = hlc_counter h' \<Longrightarrow> h = h'"
  by (metis HlcTimestamp.expand hlc_decompose word_unat_eq_iff)

lemma Hlc_new_collapse: "Hlc_new (wall_secs h) (hlc_counter h) = h"
  by (rule hlc_eqI) (simp_all add: wall_secs_bound [simplified])

lemma checked_add_Some_iff:
  fixes a :: "'a::len word"
  shows "checked_add a b = Some c \<longleftrightarrow> unat a + unat b < 2 ^ LENGTH('a) \<and> c = a + b"
  by (auto simp: checked_add_def)

lemma checked_add_one_greater:
  fixes a :: u16
  shows "checked_add a 1 = Some c \<Longrightarrow> a < c"
  by (auto simp: checked_add_def word_less_nat_alt unat_add_exact split: if_splits)

lemma max_less_checked:
  fixes a b :: u16
  shows "checked_add (max a b) 1 = Some c \<Longrightarrow> a < c \<and> b < c"
  using checked_add_one_greater [of "max a b" c] by simp

text \<open>
  What an update yields: the largest wall clock seen with a counter above those of the inputs at
  that wall clock, or the next second.
\<close>

lemma hlc_update_cases:
  fixes now self remote
  defines "m \<equiv> max (max now (wall_secs self)) (wall_secs remote)"
    and "u \<equiv> Hlc_update now self remote"
  assumes "unat m < 2 ^ 48 - 1"
  shows "wall_secs u = m \<and> (wall_secs self = m \<longrightarrow> hlc_counter self < hlc_counter u)
           \<and> (wall_secs remote = m \<longrightarrow> hlc_counter remote < hlc_counter u)
         \<or> unat (wall_secs u) = unat m + 1"
proof -
  have s: "unat (saturating_add m 1) = unat m + 1"
    using assms(3) by (simp add: unat_saturating_add)
  have "unat m < 2 ^ 48" "unat (saturating_add m 1) < 2 ^ 48" using assms(3) s by simp_all
  then have n: "wall_secs (Hlc_new m c) = m" "hlc_counter (Hlc_new m c) = c"
      "unat (wall_secs (Hlc_new (saturating_add m 1) 0)) = unat m + 1" for c
    by (simp_all add: s)
  let ?c = "if m = wall_secs self \<and> m = wall_secs remote
      then checked_add (max (hlc_counter self) (hlc_counter remote)) 1
      else if m = wall_secs self then checked_add (hlc_counter self) 1
      else if m = wall_secs remote then checked_add (hlc_counter remote) 1 else Some 0"
  have u: "u = (case ?c of Some c \<Rightarrow> Hlc_new m c | None \<Rightarrow> Hlc_new (saturating_add m 1) 0)"
    by (simp only: u_def Hlc_update_def Let_def m_def)
  have "(wall_secs self = m \<longrightarrow> hlc_counter self < c) \<and> (wall_secs remote = m \<longrightarrow> hlc_counter remote < c)"
    if "?c = Some c" for c
    using that by (auto dest: checked_add_one_greater max_less_checked split: if_splits)
  then show ?thesis
    unfolding u by (cases ?c) (simp_all only: option.case n, simp_all)
qed

lemma max3_bound:
  fixes a b c :: "'a::len word"
  shows "unat a < n \<Longrightarrow> unat b < n \<Longrightarrow> unat c < n \<Longrightarrow> unat (max (max a b) c) < n"
  by (simp add: unat_max)

section \<open>Lemmas: time to live and expiry\<close>

lemma ttl_consts [simp]:
  "unat MIN_TTL_SECS = 3600" "unat MAX_TTL_SECS = 2592000" "unat CLOCK_SKEW_TOLERANCE_SECS = 300"
  by (simp_all add: MIN_TTL_SECS_def MAX_TTL_SECS_def CLOCK_SKEW_TOLERANCE_SECS_def)

lemma ttl_ok_nat: "ttl_ok t \<longleftrightarrow> 3600 \<le> unat (ttl_secs t) \<and> unat (ttl_secs t) \<le> 2592000"
  by (simp add: ttl_ok_def word_le_nat_alt)

lemma ttl_ok_constructors:
  "ttl_ok Ttl_one_hour" "ttl_ok Ttl_one_day" "ttl_ok Ttl_one_week" "ttl_ok Ttl_max"
  by (simp_all add: ttl_ok_nat Ttl_one_hour_def Ttl_one_day_def Ttl_one_week_def Ttl_max_def)

lemma unat_expires_at:
  assumes "ttl_ok (ex_ttl e)" and "unat (ts_secs (ex_created_at e)) < 2 ^ 63"
  shows "unat (expires_at_secs e) = unat (ts_secs (ex_created_at e)) + unat (ttl_secs (ex_ttl e))"
  using assms
  by (simp add: expires_at_secs_def Timestamp_as_secs_def Ttl_as_secs_def ttl_ok_nat unat_add_exact)

lemma unat_deadline:
  assumes "ttl_ok ttl" and "unat (ts_secs c) < 2 ^ 63"
  shows "unat (ts_secs c + ttl_secs ttl + CLOCK_SKEW_TOLERANCE_SECS)
           = unat (ts_secs c) + unat (ttl_secs ttl) + 300"
proof -
  have "unat (ts_secs c + ttl_secs ttl) = unat (ts_secs c) + unat (ttl_secs ttl)"
    using assms by (simp add: ttl_ok_nat unat_add_exact)
  with assms show ?thesis
    by (subst unat_add_exact) (simp_all add: ttl_ok_nat)
qed

lemma hlc_update_strict:
  assumes "unat now < 2 ^ 48 - 1"
    and "unat (wall_secs self) < 2 ^ 48 - 1" and "unat (wall_secs remote) < 2 ^ 48 - 1"
  shows "self < Hlc_update now self remote \<and> remote < Hlc_update now self remote
           \<and> now \<le> wall_secs (Hlc_update now self remote)"
proof -
  let ?m = "max (max now (wall_secs self)) (wall_secs remote)" and ?u = "Hlc_update now self remote"
  have le: "wall_secs self \<le> ?m" "wall_secs remote \<le> ?m" "now \<le> ?m"
    by (auto simp: le_max_iff_disj)
  show ?thesis
    using hlc_update_cases [OF max3_bound [OF assms]]
  proof
    assume "wall_secs ?u = ?m \<and> (wall_secs self = ?m \<longrightarrow> hlc_counter self < hlc_counter ?u)
        \<and> (wall_secs remote = ?m \<longrightarrow> hlc_counter remote < hlc_counter ?u)"
    with le show ?thesis unfolding hlc_less_iff by (metis order_le_imp_less_or_eq)
  next
    assume "unat (wall_secs ?u) = unat ?m + 1"
    then have m: "?m < wall_secs ?u" by (simp add: word_less_nat_alt)
    have "wall_secs self < wall_secs ?u" "wall_secs remote < wall_secs ?u" "now < wall_secs ?u"
      using le [THEN order_le_less_trans, OF m] by blast+
    then show ?thesis unfolding hlc_less_iff by (simp add: less_imp_le)
  qed
qed


section \<open>Theorems\<close>

text \<open>The HLC update rule (\<^verbatim>\<open>HlcTimestamp::update\<close>) returns a timestamp strictly greater than both the local and the remote timestamp, and not behind the wall clock, on every branch including counter overflow, as long as all three clocks are below the last representable second of the 48-bit wall field.\<close>

theorem hlc_update_greater:
  assumes "unat now < 2 ^ 48 - 1"
    and "unat (wall_secs self) < 2 ^ 48 - 1" and "unat (wall_secs remote) < 2 ^ 48 - 1"
  shows "self < Hlc_update now self remote \<and> remote < Hlc_update now self remote
           \<and> now \<le> wall_secs (Hlc_update now self remote)"
  using assms by (rule hlc_update_strict)

theorem ttl_from_secs_iff:
  "(\<exists>t. Ttl_from_secs secs = Inr t \<and> Ttl_as_secs t = secs \<and> ttl_ok t)
     \<longleftrightarrow> 3600 \<le> unat secs \<and> unat secs \<le> 2592000"
  by (auto simp: Ttl_from_secs_def ttl_ok_def Ttl_as_secs_def word_le_nat_alt)

text \<open>C16: ephemerality: content whose creation time passes the clock-skew check and whose TTL is valid is expired at every time later than the receiver's clock at acceptance plus the skew tolerance (5 minutes) plus the maximum TTL (30 days), whatever timestamp and TTL the sender chose.\<close>

theorem accepted_content_expires:
  assumes "is_timestamp_acceptable now created" and "ttl_ok ttl"
    and "unat now < 2 ^ 62" and "unat now + 300 + 2592000 < unat (ts_secs t)"
  shows "is_expired_at (Expiry_new created ttl) t"
proof -
  have c: "unat (ts_secs created) \<le> unat now + 300"
    using assms(1,3)
    by (simp add: is_timestamp_acceptable_def Timestamp_as_secs_def word_le_nat_alt unat_add_exact)
  then have "unat (expires_at_secs (Expiry_new created ttl)) = unat (ts_secs created) + unat (ttl_secs ttl)"
    using assms(2,3) by (subst unat_expires_at) (simp_all add: Expiry_new_def)
  with c assms(2,4) show ?thesis
    by (simp add: is_expired_at_def word_less_nat_alt Timestamp_as_secs_def ttl_ok_nat)
qed

text \<open>\<^verbatim>\<open>is_ttl_valid\<close> is exactly non-expiry with the clock moved back by the 5-minute skew tolerance: it accepts content until 300 seconds after \<^verbatim>\<open>Expiry::is_expired_at\<close> starts to hold.\<close>

theorem is_ttl_valid_grace:
  assumes "ttl_ok ttl" and "unat (ts_secs created) < 2 ^ 63"
  shows "is_ttl_valid now created ttl \<longleftrightarrow>
           \<not> is_expired_at (Expiry_new created ttl) (Timestamp (now - min now CLOCK_SKEW_TOLERANCE_SECS))"
proof -
  have "unat (now - min now CLOCK_SKEW_TOLERANCE_SECS) = unat now - min (unat now) 300"
    by (subst unat_sub) (simp_all add: unat_min)
  with assms show ?thesis
    by (auto simp: is_ttl_valid_def is_expired_at_def unat_expires_at unat_deadline Expiry_new_def
        Timestamp_as_secs_def Ttl_as_secs_def word_le_nat_alt word_less_nat_alt Let_def not_less)
qed

theorem tombstone_outlives_content:
  assumes "ttl_ok (ex_ttl e)" and "unat (ts_secs (ex_created_at e)) < 2 ^ 63"
  shows "unat (tombstone_expires_at_secs e)
             = unat (ts_secs (ex_created_at e)) + 4 * unat (ttl_secs (ex_ttl e))
          \<and> expires_at_secs e < tombstone_expires_at_secs e"
proof -
  have m: "unat (TOMBSTONE_RETENTION_MULTIPLIER * ttl_secs (ex_ttl e)) = 3 * unat (ttl_secs (ex_ttl e))"
    using assms(1) by (simp add: TOMBSTONE_RETENTION_MULTIPLIER_def unat_word_ariths ttl_ok_nat)
  have t: "unat (tombstone_expires_at_secs e)
           = unat (ts_secs (ex_created_at e)) + 4 * unat (ttl_secs (ex_ttl e))"
    using assms m by (simp add: tombstone_expires_at_secs_def Ttl_as_secs_def unat_add_exact
        unat_expires_at ttl_ok_nat)
  then show ?thesis
    using assms by (simp add: word_less_nat_alt unat_expires_at ttl_ok_nat)
qed


section \<open>Witnesses\<close>

theorem hlc_update_greater_witness:
  "Hlc_new 1000 65535 < Hlc_update 5 (Hlc_new 1000 65535) (Hlc_new 1000 7)"
  using hlc_update_greater [of 5 "Hlc_new 1000 65535" "Hlc_new 1000 7"] by simp

theorem accepted_content_expires_witness:
  "is_expired_at (Expiry_new (Timestamp 1700000100) Ttl_max) (Timestamp 1702592301)"
  using accepted_content_expires [of 1700000000 "Timestamp 1700000100" Ttl_max "Timestamp 1702592301"]
  by (simp add: is_timestamp_acceptable_def Timestamp_as_secs_def CLOCK_SKEW_TOLERANCE_SECS_def
      ttl_ok_constructors)

theorem is_ttl_valid_grace_witness:
  "is_ttl_valid 1700003900 (Timestamp 1700000000) Ttl_one_hour"
  using is_ttl_valid_grace [OF ttl_ok_constructors(1), of "Timestamp 1700000000" 1700003900]
  by (simp add: is_expired_at_def expires_at_secs_def Expiry_new_def
      Timestamp_as_secs_def Ttl_as_secs_def Ttl_one_hour_def MIN_TTL_SECS_def
      CLOCK_SKEW_TOLERANCE_SECS_def)

end
