(* ===== verification/Crdt_Clock.thy ===== *)
theory Crdt_Clock
  imports Crdt_Join Time_Types
begin

text \<open>
  Files \<^verbatim>\<open>ephemera-crdt/src/clock.rs\<close> (the hybrid logical clock of a node) and
  \<^verbatim>\<open>ephemera-crdt/src/lwwregister.rs\<close> (the last-writer-wins register). A method with
  \<^verbatim>\<open>&mut self\<close> returns the new state paired with its result. The \<^verbatim>\<open>counter() + 1\<close> of
  \<^verbatim>\<open>tick\<close> is 16-bit addition and wraps.
\<close>

section \<open>The clock\<close>

record HybridClock =
  clk_latest :: HlcTimestamp

definition HybridClock_new :: "u64 \<Rightarrow> HybridClock" where
  "HybridClock_new now = \<lparr>clk_latest = Hlc_now now\<rparr>"

definition HybridClock_from_timestamp :: "HlcTimestamp \<Rightarrow> HybridClock" where
  "HybridClock_from_timestamp ts = \<lparr>clk_latest = ts\<rparr>"

definition HybridClock_tick :: "u64 \<Rightarrow> HybridClock \<Rightarrow> HybridClock \<times> HlcTimestamp" where
  "HybridClock_tick now_wall c =
     (let local_wall = wall_secs (clk_latest c);
          latest =
            (if now_wall > local_wall then Hlc_new now_wall 0
             else Hlc_new local_wall (hlc_counter (clk_latest c) + 1))
      in (c\<lparr>clk_latest := latest\<rparr>, latest))"

definition HybridClock_update :: "u64 \<Rightarrow> HybridClock \<Rightarrow> HlcTimestamp \<Rightarrow> HybridClock \<times> HlcTimestamp" where
  "HybridClock_update now c remote =
     (let latest = Hlc_update now (clk_latest c) remote
      in (c\<lparr>clk_latest := latest\<rparr>, latest))"

text \<open>The life of a clock: local events and received timestamps, each with the wall clock it reads.\<close>

datatype clock_event = Tick u64 | Receive u64 HlcTimestamp

fun clock_step :: "HybridClock \<Rightarrow> clock_event \<Rightarrow> HybridClock \<times> HlcTimestamp" where
  "clock_step c (Tick now) = HybridClock_tick now c"
| "clock_step c (Receive now remote) = HybridClock_update now c remote"

fun clock_run :: "HybridClock \<Rightarrow> clock_event list \<Rightarrow> HlcTimestamp list" where
  "clock_run c [] = []"
| "clock_run c (e # es) = (let (c', t) = clock_step c e in t # clock_run c' es)"

text \<open>
  The conditions under which the code's arithmetic does not overflow: wall clocks below the last
  second of the 48-bit field, and no \<^verbatim>\<open>tick\<close> on a counter that is already \<^verbatim>\<open>u16::MAX\<close> within
  a second that has not passed.
\<close>

fun step_in_range :: "HybridClock \<Rightarrow> clock_event \<Rightarrow> bool" where
  "step_in_range c (Tick now) \<longleftrightarrow>
     unat now < 2 ^ 48 \<and> (now > wall_secs (clk_latest c) \<or> hlc_counter (clk_latest c) \<noteq> - 1)"
| "step_in_range c (Receive now remote) \<longleftrightarrow>
     unat now < 2 ^ 48 - 1 \<and> unat (wall_secs (clk_latest c)) < 2 ^ 48 - 1
     \<and> unat (wall_secs remote) < 2 ^ 48 - 1"

fun run_in_range :: "HybridClock \<Rightarrow> clock_event list \<Rightarrow> bool" where
  "run_in_range c [] \<longleftrightarrow> True"
| "run_in_range c (e # es) \<longleftrightarrow> step_in_range c e \<and> run_in_range (fst (clock_step c e)) es"

lemma clock_step_latest: "clk_latest (fst (clock_step c e)) = snd (clock_step c e)"
  by (cases e) (simp_all add: HybridClock_tick_def HybridClock_update_def Let_def)

lemma clock_tick_greater:
  assumes "step_in_range c (Tick now)"
  shows "clk_latest c < snd (HybridClock_tick now c)"
  using assms wall_secs_bound [of "clk_latest c"]
  by (auto simp: HybridClock_tick_def Let_def hlc_less_iff succ_greater)

lemma clock_step_greater: "step_in_range c e \<Longrightarrow> clk_latest c < snd (clock_step c e)"
proof (cases e)
  case (Tick now)
  then show "step_in_range c e \<Longrightarrow> ?thesis" using clock_tick_greater [of c now] by simp
next
  case (Receive now remote)
  then show "step_in_range c e \<Longrightarrow> ?thesis"
    using hlc_update_strict [of now "clk_latest c" remote]
    by (simp add: HybridClock_update_def Let_def)
qed

lemma clock_run_sorted:
  "run_in_range c es \<Longrightarrow> sorted_wrt (<) (clk_latest c # clock_run c es)"
proof (induction es arbitrary: c)
  case (Cons e es)
  have "sorted_wrt (<) (snd (clock_step c e) # clock_run (fst (clock_step c e)) es)"
    using Cons.IH [of "fst (clock_step c e)"] Cons.prems by (simp add: clock_step_latest)
  with Cons.prems clock_step_greater [of c e] show ?case
    by (auto simp: split_def Let_def dest: order_less_trans)
qed simp

section \<open>Last-writer-wins register\<close>

record 'v LwwRegister =
  lww_value :: 'v
  lww_timestamp :: HlcTimestamp

definition LwwRegister_new :: "'v \<Rightarrow> HlcTimestamp \<Rightarrow> 'v LwwRegister" where
  "LwwRegister_new value timestamp = \<lparr>lww_value = value, lww_timestamp = timestamp\<rparr>"

definition LwwRegister_set :: "'v LwwRegister \<Rightarrow> 'v \<Rightarrow> HlcTimestamp \<Rightarrow> 'v LwwRegister \<times> bool" where
  "LwwRegister_set r value timestamp =
     (if timestamp > lww_timestamp r
      then (r\<lparr>lww_value := value, lww_timestamp := timestamp\<rparr>, True)
      else (r, False))"

definition LwwRegister_merge :: "'v LwwRegister \<Rightarrow> 'v LwwRegister \<Rightarrow> 'v LwwRegister" where
  "LwwRegister_merge r other =
     (if lww_timestamp other > lww_timestamp r
      then r\<lparr>lww_value := lww_value other, lww_timestamp := lww_timestamp other\<rparr>
      else r)"

lemma lww_merge_assoc:
  "LwwRegister_merge (LwwRegister_merge a b) c = LwwRegister_merge a (LwwRegister_merge b c)"
  by (auto simp: LwwRegister_merge_def)

lemma lww_merge_idem: "LwwRegister_merge a a = a"
  by (simp add: LwwRegister_merge_def)

lemma lww_merge_comm_iff:
  "LwwRegister_merge a b = LwwRegister_merge b a \<longleftrightarrow> (lww_timestamp a = lww_timestamp b \<longrightarrow> a = b)"
  by (auto simp: LwwRegister_merge_def not_less intro: LwwRegister.equality)

text \<open>
  Writes with unique timestamps: every write made at a timestamp \<open>t\<close> writes the value \<open>w t\<close>.
  On such states the register meets the contract.
\<close>

definition written_by :: "(HlcTimestamp \<Rightarrow> 'v) \<Rightarrow> 'v LwwRegister \<Rightarrow> bool" where
  "written_by w r \<longleftrightarrow> lww_value r = w (lww_timestamp r)"

interpretation lww: crdt_join "LwwRegister_merge" "written_by w" for w :: "HlcTimestamp \<Rightarrow> 'v"
proof unfold_locales
  fix a b c :: "'v LwwRegister"
  show "written_by w (LwwRegister_merge a b)" if "written_by w a" "written_by w b"
    using that by (simp add: written_by_def LwwRegister_merge_def)
  show "LwwRegister_merge a b = LwwRegister_merge b a" if "written_by w a" "written_by w b"
    using that by (auto simp: lww_merge_comm_iff written_by_def intro: LwwRegister.equality)
qed (rule lww_merge_assoc lww_merge_idem)+

section \<open>Theorems\<close>

text \<open>C10: the timestamps a hybrid clock issues along any sequence of local ticks and received remote
  timestamps are strictly increasing, and all above the clock's starting timestamp, even when the
  wall clock stands still or goes back, provided no 16-bit counter or 48-bit wall field overflows.\<close>

theorem clock_run_increasing:
  assumes "run_in_range c es"
  shows "sorted_wrt (<) (clock_run c es) \<and> (\<forall>t \<in> set (clock_run c es). clk_latest c < t)"
  using clock_run_sorted [OF assms] by simp

text \<open>\<^verbatim>\<open>HybridClock::tick\<close> does not check the counter as \<^verbatim>\<open>HlcTimestamp::update\<close> does: at
  counter \<^verbatim>\<open>u16::MAX\<close> with the wall clock not advanced the counter wraps to 0 and the issued
  timestamp is strictly smaller than the previous one, against its documentation.\<close>

theorem tick_wraps_backwards:
  assumes "now \<le> wall_secs (clk_latest c)" and "hlc_counter (clk_latest c) = - 1"
  shows "snd (HybridClock_tick now c) < clk_latest c"
proof -
  have "\<not> wall_secs (clk_latest c) < now" using assms(1) by simp
  then have t: "snd (HybridClock_tick now c) = Hlc_new (wall_secs (clk_latest c)) 0"
    using assms(2) by (simp add: HybridClock_tick_def Let_def)
  show ?thesis
    unfolding t hlc_less_iff using assms(2) wall_secs_bound [of "clk_latest c"]
    by (simp add: word_less_nat_alt unat_neg_one)
qed

text \<open>C35: registers whose writes carry unique timestamps converge: merging remote registers in any
  order and any number of times gives the same register.\<close>

theorem lww_converges:
  assumes "written_by w r" and "list_all (written_by w) xs" and "list_all (written_by w) ys"
    and "set xs = set ys"
  shows "foldl LwwRegister_merge r xs = foldl LwwRegister_merge r ys"
  using assms by (rule lww.convergence)

text \<open>The register's merge is commutative exactly when two different registers do not carry the same
  timestamp; on a timestamp tie with different values each replica keeps its own value, so the
  unconditional commutativity claimed for every CRDT of the crate does not hold.\<close>

theorem lww_merge_commutes_iff:
  "LwwRegister_merge a b \<noteq> LwwRegister_merge b a \<longleftrightarrow> a \<noteq> b \<and> lww_timestamp a = lww_timestamp b"
  using lww_merge_comm_iff [of a b] by auto

section \<open>Witnesses\<close>

theorem clock_run_increasing_witness:
  "sorted_wrt (<) (clock_run (HybridClock_from_timestamp (Hlc_new 1000 0))
     [Tick 900, Tick 1001, Receive 1001 (Hlc_new 1001 65535), Tick 1000])"
  using clock_run_increasing [of "HybridClock_from_timestamp (Hlc_new 1000 0)"
      "[Tick 900, Tick 1001, Receive 1001 (Hlc_new 1001 65535), Tick 1000]"]
  by (simp add: HybridClock_from_timestamp_def HybridClock_tick_def HybridClock_update_def
      Hlc_update_def checked_add_def saturating_add_def Let_def)

theorem tick_wraps_backwards_witness:
  "snd (HybridClock_tick 1000 (HybridClock_from_timestamp (Hlc_new 1000 (- 1)))) < Hlc_new 1000 (- 1)"
  using tick_wraps_backwards [of 1000 "HybridClock_from_timestamp (Hlc_new 1000 (- 1))"]
  by (simp add: HybridClock_from_timestamp_def)

theorem lww_converges_witness:
  "foldl LwwRegister_merge (LwwRegister_new (1 :: nat) (Hlc_new 1 0))
       [LwwRegister_new 3 (Hlc_new 3 0), LwwRegister_new 2 (Hlc_new 2 0)]
   = foldl LwwRegister_merge (LwwRegister_new 1 (Hlc_new 1 0))
       [LwwRegister_new 2 (Hlc_new 2 0), LwwRegister_new 3 (Hlc_new 3 0), LwwRegister_new 2 (Hlc_new 2 0)]"
  by (rule lww_converges [of "\<lambda>t. unat (wall_secs t)"])
    (auto simp: written_by_def LwwRegister_new_def)

end
