(* ===== verification/Crdt_GCounter.thy ===== *)
theory Crdt_GCounter
  imports Crdt_Join
begin

text \<open>
  File \<^verbatim>\<open>ephemera-crdt/src/gcounter.rs\<close>: the grow-only counter. Its state is the
  \<^verbatim>\<open>BTreeMap\<close> from actors to 64-bit counts; \<^verbatim>\<open>increment\<close> saturates, \<^verbatim>\<open>merge\<close> is the loop
  over the other map's entries taking the pointwise maximum, \<^verbatim>\<open>value\<close> is the (wrapping) sum.
\<close>

record 'a GCounter =
  counts :: "('a, u64) btree_map"

definition GCounter_new :: "'a::linorder GCounter" where
  "GCounter_new = \<lparr>counts = []\<rparr>"

definition unwrap_or_0 :: "u64 option \<Rightarrow> u64" where
  "unwrap_or_0 v = (case v of None \<Rightarrow> 0 | Some c \<Rightarrow> c)"

definition GCounter_increment :: "'a::linorder GCounter \<Rightarrow> 'a \<Rightarrow> u64 \<Rightarrow> 'a GCounter" where
  "GCounter_increment g actor amount =
     (let entry = unwrap_or_0 (bt_get (counts g) actor)
      in g\<lparr>counts := bt_insert actor (saturating_add entry amount) (counts g)\<rparr>)"

definition GCounter_value :: "'a GCounter \<Rightarrow> u64" where
  "GCounter_value g = sum_list (map snd (counts g))"

definition GCounter_actor_value :: "'a GCounter \<Rightarrow> 'a \<Rightarrow> u64" where
  "GCounter_actor_value g actor = unwrap_or_0 (bt_get (counts g) actor)"

definition max_entry :: "('a::linorder, u64) btree_map \<Rightarrow> 'a \<times> u64 \<Rightarrow> ('a, u64) btree_map" where
  "max_entry m e =
     (let entry = unwrap_or_0 (bt_get m (fst e))
      in bt_insert (fst e) (max entry (snd e)) m)"

definition GCounter_merge :: "'a::linorder GCounter \<Rightarrow> 'a GCounter \<Rightarrow> 'a GCounter" where
  "GCounter_merge g other = g\<lparr>counts := foldl max_entry (counts g) (counts other)\<rparr>"

definition GCounter_actor_count :: "'a GCounter \<Rightarrow> nat" where
  "GCounter_actor_count g = length (counts g)"

text \<open>The invariant every operation keeps: the map's keys are strictly increasing.\<close>

definition gcounter_ok :: "'a::linorder GCounter \<Rightarrow> bool" where
  "gcounter_ok g \<longleftrightarrow> bt_ok (counts g)"

text \<open>The sum of the counts as a natural number, before wrap-around.\<close>

definition gcounter_total :: "'a GCounter \<Rightarrow> nat" where
  "gcounter_total g = sum_list (map (unat \<circ> snd) (counts g))"

section \<open>The pointwise maximum\<close>

definition opt_max :: "u64 option \<Rightarrow> u64 option \<Rightarrow> u64 option" where
  "opt_max x y = (case x of None \<Rightarrow> y | Some a \<Rightarrow> (case y of None \<Rightarrow> x | Some b \<Rightarrow> Some (max a b)))"

lemma opt_max_laws:
  "opt_max x y = opt_max y x" "opt_max (opt_max x y) z = opt_max x (opt_max y z)" "opt_max x x = x"
  by (auto simp: opt_max_def max.commute max.left_commute max.assoc split: option.split)

lemma unwrap_opt_max: "unwrap_or_0 (opt_max x y) = max (unwrap_or_0 x) (unwrap_or_0 y)"
  by (auto simp: opt_max_def unwrap_or_0_def split: option.split)

lemma bt_ok_max_entries [simp, inv_intro]: "bt_ok m \<Longrightarrow> bt_ok (foldl max_entry m es)"
  by (induction es arbitrary: m) (simp_all add: max_entry_def Let_def)

lemma get_max_entries:
  "distinct (map fst es) \<Longrightarrow> bt_get (foldl max_entry m es) k = opt_max (bt_get m k) (bt_get es k)"
proof (induction es arbitrary: m)
  case Nil
  then show ?case by (simp add: opt_max_def split: option.split)
next
  case (Cons e es)
  obtain a c where e: "e = (a, c)" by (cases e)
  from Cons.prems have "bt_get es a = None" by (simp add: e map_of_eq_None_iff)
  with Cons show ?case
    by (auto simp: e max_entry_def opt_max_def unwrap_or_0_def split: option.split)
qed

lemma counts_merge:
  assumes "gcounter_ok g" and "gcounter_ok h"
  shows "bt_get (counts (GCounter_merge g h)) k = opt_max (bt_get (counts g) k) (bt_get (counts h) k)"
  using assms by (simp add: GCounter_merge_def gcounter_ok_def get_max_entries bt_ok_distinct)

lemma gcounter_ok_new [inv_intro]: "gcounter_ok GCounter_new"
  by (simp add: gcounter_ok_def GCounter_new_def)

lemma gcounter_ok_increment [inv_intro]: "gcounter_ok g \<Longrightarrow> gcounter_ok (GCounter_increment g a n)"
  by (simp add: gcounter_ok_def GCounter_increment_def Let_def)

lemma gcounter_ok_merge [inv_intro]: "gcounter_ok g \<Longrightarrow> gcounter_ok (GCounter_merge g h)"
  by (simp add: gcounter_ok_def GCounter_merge_def)

lemma gcounter_ext:
  fixes g h :: "'a::linorder GCounter"
  assumes "gcounter_ok g" and "gcounter_ok h" and "\<And>k. bt_get (counts g) k = bt_get (counts h) k"
  shows "g = h"
  using assms bt_ext [of "counts g" "counts h"] by (simp add: gcounter_ok_def fun_eq_iff)

interpretation gcounter: crdt_join "GCounter_merge :: 'a::linorder GCounter \<Rightarrow> _" gcounter_ok
proof unfold_locales
  fix a b c :: "'a GCounter"
  show "GCounter_merge a b = GCounter_merge b a" if "gcounter_ok a" "gcounter_ok b"
    using that by (intro gcounter_ext) (simp_all add: counts_merge gcounter_ok_merge opt_max_laws(1))
  show "GCounter_merge (GCounter_merge a b) c = GCounter_merge a (GCounter_merge b c)"
    if "gcounter_ok a" "gcounter_ok b" "gcounter_ok c"
    using that by (intro gcounter_ext) (simp_all add: counts_merge gcounter_ok_merge opt_max_laws(2))
  show "GCounter_merge a a = a" if "gcounter_ok a"
    using that by (intro gcounter_ext) (simp_all add: counts_merge gcounter_ok_merge opt_max_laws(3))
qed (rule gcounter_ok_merge)

section \<open>The value\<close>

lemma total_as_sum:
  "distinct (map fst m) \<Longrightarrow>
     sum_list (map (unat \<circ> snd) m) = (\<Sum>k \<in> fst ` set m. unat (unwrap_or_0 (bt_get m k)))"
proof (induction m)
  case (Cons e m)
  obtain a c where e: "e = (a, c)" by (cases e)
  have "(\<Sum>k \<in> fst ` set m. unat (unwrap_or_0 (if k = a then Some c else bt_get m k)))
      = (\<Sum>k \<in> fst ` set m. unat (unwrap_or_0 (bt_get m k)))"
    using Cons.prems by (intro sum.cong) (auto simp: e)
  with Cons show ?case by (simp add: e unwrap_or_0_def)
qed simp

lemma gcounter_total_sum:
  assumes "gcounter_ok g" and "finite K" and "fst ` set (counts g) \<subseteq> K"
  shows "gcounter_total g = (\<Sum>k \<in> K. unat (GCounter_actor_value g k))"
proof -
  have "gcounter_total g = (\<Sum>k \<in> fst ` set (counts g). unat (GCounter_actor_value g k))"
    using assms(1) by (simp add: gcounter_total_def total_as_sum gcounter_ok_def bt_ok_distinct
        GCounter_actor_value_def)
  also have "\<dots> = (\<Sum>k \<in> K. unat (GCounter_actor_value g k))"
    using assms(2,3) by (intro sum.mono_neutral_left)
      (force simp: GCounter_actor_value_def unwrap_or_0_def split: option.split dest: map_of_SomeD)+
  finally show ?thesis .
qed

lemma actor_value_merge:
  "gcounter_ok g \<Longrightarrow> gcounter_ok h \<Longrightarrow>
     GCounter_actor_value (GCounter_merge g h) k = max (GCounter_actor_value g k) (GCounter_actor_value h k)"
  by (simp add: GCounter_actor_value_def counts_merge unwrap_opt_max)

lemma total_merge_ge:
  assumes "gcounter_ok g" and "gcounter_ok h"
  shows "gcounter_total g \<le> gcounter_total (GCounter_merge g h)"
proof -
  let ?K = "fst ` set (counts g) \<union> fst ` set (counts (GCounter_merge g h))"
  have "gcounter_total g = (\<Sum>k \<in> ?K. unat (GCounter_actor_value g k))"
    using assms by (intro gcounter_total_sum) auto
  also have "\<dots> \<le> (\<Sum>k \<in> ?K. unat (GCounter_actor_value (GCounter_merge g h) k))"
    using assms by (intro sum_mono) (simp add: actor_value_merge unat_max)
  also have "\<dots> = gcounter_total (GCounter_merge g h)"
    using assms by (intro gcounter_total_sum [symmetric]) (auto intro: gcounter_ok_merge)
  finally show ?thesis .
qed

lemma unat_sum_list:
  fixes xs :: "'a::len word list"
  assumes "sum_list (map unat xs) < 2 ^ LENGTH('a)"
  shows "unat (sum_list xs) = sum_list (map unat xs)"
  using assms by (induction xs) (auto simp: unat_add_exact)

lemma unat_value: "gcounter_total g < 2 ^ 64 \<Longrightarrow> unat (GCounter_value g) = gcounter_total g"
  using unat_sum_list [of "map snd (counts g)"] by (simp add: GCounter_value_def gcounter_total_def)

section \<open>Theorems\<close>

text \<open>C15: replicas of a grow-only counter converge: merging a batch of remote counters into a local
  one gives the same state in whatever order the batch arrives and however often each counter of it
  is delivered.\<close>

theorem gcounter_converges:
  assumes "gcounter_ok g" and "list_all gcounter_ok xs" and "list_all gcounter_ok ys"
    and "set xs = set ys"
  shows "foldl GCounter_merge g xs = foldl GCounter_merge g ys"
  using assms by (rule gcounter.convergence)

text \<open>A merge never loses an increment: every actor's count is the maximum of the two sides, so the
  counter's total value is at least that of either side (as long as the total fits in 64 bits).\<close>

theorem gcounter_merge_monotone:
  assumes "gcounter_ok g" and "gcounter_ok h" and "gcounter_total (GCounter_merge g h) < 2 ^ 64"
  shows "GCounter_actor_value (GCounter_merge g h) k
           = max (GCounter_actor_value g k) (GCounter_actor_value h k)
         \<and> GCounter_value g \<le> GCounter_value (GCounter_merge g h)
         \<and> GCounter_value h \<le> GCounter_value (GCounter_merge g h)"
proof -
  have le: "gcounter_total g \<le> gcounter_total (GCounter_merge g h)"
      "gcounter_total h \<le> gcounter_total (GCounter_merge g h)"
    using assms total_merge_ge [of g h] total_merge_ge [of h g] gcounter.merge_comm [of g h] by simp_all
  with assms show ?thesis
    by (simp add: actor_value_merge word_le_nat_alt unat_value)
qed

lemma actor_value_increment:
  "GCounter_actor_value (GCounter_increment g a n) k
     = (if k = a then saturating_add (GCounter_actor_value g a) n else GCounter_actor_value g k)"
  by (simp add: GCounter_actor_value_def GCounter_increment_def unwrap_or_0_def Let_def)

section \<open>Witnesses\<close>

abbreviation gc_a :: "nat GCounter" where
  "gc_a \<equiv> GCounter_increment (GCounter_increment GCounter_new 1 5) 2 3"

abbreviation gc_b :: "nat GCounter" where
  "gc_b \<equiv> GCounter_increment (GCounter_increment GCounter_new 2 7) 3 2"

theorem gcounter_converges_witness:
  "foldl GCounter_merge GCounter_new [gc_a, gc_b] = foldl GCounter_merge GCounter_new [gc_b, gc_a, gc_b]"
  by (rule gcounter_converges) (simp_all add: gcounter_ok_new gcounter_ok_increment insert_commute)

theorem gcounter_merge_monotone_witness: "GCounter_value gc_a \<le> GCounter_value (GCounter_merge gc_a gc_b)"
proof -
  have "gcounter_total (GCounter_merge gc_a gc_b) < 2 ^ 64"
    by (simp add: gcounter_total_def GCounter_merge_def GCounter_increment_def GCounter_new_def
        max_entry_def unwrap_or_0_def saturating_add_def)
  from gcounter_merge_monotone [OF _ _ this] show ?thesis
    by (simp add: gcounter_ok_new gcounter_ok_increment)
qed

end
