(* ===== verification/Crdt_OrSet.thy ===== *)
theory Crdt_OrSet
  imports Crdt_GCounter
begin

text \<open>
  File \<^verbatim>\<open>ephemera-crdt/src/orset.rs\<close>: the observed-remove set. Each add creates a tag from the
  adding actor and its sequence counter; an element is present while it has a live tag. The
  \<^verbatim>\<open>BTreeSet\<close> of live tags of an element is a finite set, the two \<^verbatim>\<open>BTreeMap\<close>s are ordered
  association lists. The per-actor counter is a 64-bit word whose \<^verbatim>\<open>+= 1\<close> wraps.
\<close>

datatype 'a UniqueTag = UniqueTag (tag_actor: 'a) (tag_seq: u64)

record ('a, 'v) OrSet =
  or_entries :: "('v, 'a UniqueTag set) btree_map"
  or_counters :: "('a, u64) btree_map"

definition OrSet_new :: "('a::linorder, 'v::linorder) OrSet" where
  "OrSet_new = \<lparr>or_entries = [], or_counters = []\<rparr>"

definition seq_of :: "('a, u64) btree_map \<Rightarrow> 'a \<Rightarrow> u64" where
  "seq_of m a = (case bt_get m a of None \<Rightarrow> 0 | Some n \<Rightarrow> n)"

definition tags_of :: "('v, 'a UniqueTag set) btree_map \<Rightarrow> 'v \<Rightarrow> 'a UniqueTag set" where
  "tags_of m v = (case bt_get m v of None \<Rightarrow> {} | Some t \<Rightarrow> t)"

definition OrSet_add ::
    "('a::linorder, 'v::linorder) OrSet \<Rightarrow> 'a \<Rightarrow> 'v \<Rightarrow> ('a, 'v) OrSet \<times> 'a UniqueTag" where
  "OrSet_add s actor value =
     (let seq = seq_of (or_counters s) actor + 1;
          tag = UniqueTag actor seq
      in (s\<lparr>or_counters := bt_insert actor seq (or_counters s),
            or_entries := bt_insert value (insert tag (tags_of (or_entries s) value)) (or_entries s)\<rparr>,
          tag))"

definition OrSet_remove :: "('a, 'v) OrSet \<Rightarrow> 'v \<Rightarrow> ('a, 'v) OrSet \<times> bool" where
  "OrSet_remove s value =
     (s\<lparr>or_entries := bt_remove value (or_entries s)\<rparr>, bt_get (or_entries s) value \<noteq> None)"

definition OrSet_contains :: "('a, 'v) OrSet \<Rightarrow> 'v \<Rightarrow> bool" where
  "OrSet_contains s value =
     (case bt_get (or_entries s) value of None \<Rightarrow> False | Some tags \<Rightarrow> tags \<noteq> {})"

definition OrSet_elements :: "('a, 'v) OrSet \<Rightarrow> 'v list" where
  "OrSet_elements s = map fst (filter (\<lambda>e. snd e \<noteq> {}) (or_entries s))"

definition OrSet_len :: "('a, 'v) OrSet \<Rightarrow> nat" where
  "OrSet_len s = length (filter (\<lambda>tags. tags \<noteq> {}) (map snd (or_entries s)))"

definition OrSet_is_empty :: "('a, 'v) OrSet \<Rightarrow> bool" where
  "OrSet_is_empty s \<longleftrightarrow> OrSet_len s = 0"

text \<open>The body of the loop over all keys of both sides, and of the loop over the remote counters.\<close>

definition merge_value ::
    "('v::linorder, 'a UniqueTag set) btree_map \<Rightarrow> ('v, 'a UniqueTag set) btree_map \<Rightarrow> 'v
       \<Rightarrow> ('v, 'a UniqueTag set) btree_map" where
  "merge_value other entries value =
     (let merged = tags_of entries value \<union> tags_of other value
      in if merged = {} then bt_remove value entries else bt_insert value merged entries)"

definition merge_counter :: "('a::linorder, u64) btree_map \<Rightarrow> 'a \<times> u64 \<Rightarrow> ('a, u64) btree_map" where
  "merge_counter m e = bt_insert (fst e) (max (seq_of m (fst e)) (snd e)) m"

definition OrSet_merge ::
    "('a::linorder, 'v::linorder) OrSet \<Rightarrow> ('a, 'v) OrSet \<Rightarrow> ('a, 'v) OrSet" where
  "OrSet_merge s other =
     (let all_values = sort (remdups (map fst (or_entries s) @ map fst (or_entries other)))
      in s\<lparr>or_entries := foldl (merge_value (or_entries other)) (or_entries s) all_values,
           or_counters := foldl merge_counter (or_counters s) (or_counters other)\<rparr>)"

text \<open>
  The invariant: ordered maps, no element with an empty tag set, and every live tag was issued, that
  is, its sequence number is positive and at most its actor's counter.
\<close>

definition orset_ok :: "('a::linorder, 'v::linorder) OrSet \<Rightarrow> bool" where
  "orset_ok s \<longleftrightarrow> bt_ok (or_entries s) \<and> bt_ok (or_counters s)
     \<and> (\<forall>e \<in> set (or_entries s). snd e \<noteq> {} \<and> finite (snd e))
     \<and> (\<forall>e \<in> set (or_entries s). \<forall>t \<in> snd e. tag_seq t \<le> seq_of (or_counters s) (tag_actor t))"

section \<open>What a merge yields\<close>

lemma tags_of_insert [simp]: "tags_of (bt_insert v t m) u = (if u = v then t else tags_of m u)"
  by (simp add: tags_of_def)

lemma tags_of_remove [simp]: "tags_of (bt_remove v m) u = (if u = v then {} else tags_of m u)"
  by (simp add: tags_of_def)

lemma seq_of_insert [simp]: "seq_of (bt_insert a n m) b = (if b = a then n else seq_of m b)"
  by (simp add: seq_of_def)

lemma tags_merge_value:
  "tags_of (merge_value other m v) u = (if u = v then tags_of m v \<union> tags_of other v else tags_of m u)"
  by (simp add: merge_value_def Let_def)

lemma tags_merge_values:
  "tags_of (foldl (merge_value other) m vs) u
     = (if u \<in> set vs then tags_of m u \<union> tags_of other u else tags_of m u)"
  by (induction vs arbitrary: m) (auto simp: tags_merge_value)

lemma tags_of_notin: "u \<notin> fst ` set m \<Longrightarrow> tags_of m u = {}"
  by (simp add: tags_of_def map_of_eq_None_iff [THEN iffD2])

lemma tags_merge:
  "tags_of (or_entries (OrSet_merge s r)) v = tags_of (or_entries s) v \<union> tags_of (or_entries r) v"
  by (auto simp: OrSet_merge_def Let_def tags_merge_values tags_of_notin)

lemma seq_of_unwrap: "seq_of m a = unwrap_or_0 (bt_get m a)"
  by (simp add: seq_of_def unwrap_or_0_def)

lemma merge_counter_eq: "merge_counter = max_entry"
  by (simp add: fun_eq_iff merge_counter_def max_entry_def seq_of_unwrap Let_def)

lemma counters_merge:
  "bt_ok (or_counters r) \<Longrightarrow>
     bt_get (or_counters (OrSet_merge s r)) a = opt_max (bt_get (or_counters s) a) (bt_get (or_counters r) a)"
  by (simp add: OrSet_merge_def Let_def merge_counter_eq get_max_entries bt_ok_distinct)

lemma seq_merge:
  "bt_ok (or_counters r) \<Longrightarrow>
     seq_of (or_counters (OrSet_merge s r)) a = max (seq_of (or_counters s) a) (seq_of (or_counters r) a)"
  by (simp add: seq_of_unwrap counters_merge unwrap_opt_max)

lemma entries_as_tags:
  assumes "bt_ok m"
  shows "(\<forall>e \<in> set m. P (snd e) (fst e)) \<longleftrightarrow> (\<forall>v. bt_get m v \<noteq> None \<longrightarrow> P (tags_of m v) v)"
proof
  assume "\<forall>e \<in> set m. P (snd e) (fst e)"
  then show "\<forall>v. bt_get m v \<noteq> None \<longrightarrow> P (tags_of m v) v"
    by (force simp: tags_of_def split: option.splits dest: map_of_SomeD)
next
  assume r: "\<forall>v. bt_get m v \<noteq> None \<longrightarrow> P (tags_of m v) v"
  show "\<forall>e \<in> set m. P (snd e) (fst e)"
  proof
    fix e assume "e \<in> set m"
    with assms have "bt_get m (fst e) = Some (snd e)"
      by (intro map_of_is_SomeI) (simp_all add: bt_ok_distinct)
    with r show "P (snd e) (fst e)" by (metis option.distinct(1) option.simps(5) tags_of_def)
  qed
qed

text \<open>The invariant read through \<open>tags_of\<close>, the form in which the proofs use it.\<close>

lemma orset_ok_alt:
  "orset_ok s \<longleftrightarrow> bt_ok (or_entries s) \<and> bt_ok (or_counters s)
     \<and> (\<forall>v. bt_get (or_entries s) v \<noteq> None \<longrightarrow> tags_of (or_entries s) v \<noteq> {})
     \<and> (\<forall>v. finite (tags_of (or_entries s) v))
     \<and> (\<forall>v. \<forall>t \<in> tags_of (or_entries s) v. tag_seq t \<le> seq_of (or_counters s) (tag_actor t))"
proof (cases "bt_ok (or_entries s)")
  case True
  note e = entries_as_tags [OF True]
  have none: "bt_get (or_entries s) v = None \<Longrightarrow> tags_of (or_entries s) v = {}" for v
    by (simp add: tags_of_def)
  have "(\<forall>e \<in> set (or_entries s). snd e \<noteq> {} \<and> finite (snd e)) \<longleftrightarrow>
      (\<forall>v. bt_get (or_entries s) v \<noteq> None \<longrightarrow> tags_of (or_entries s) v \<noteq> {})
      \<and> (\<forall>v. finite (tags_of (or_entries s) v))"
    unfolding e [of "\<lambda>t v. t \<noteq> {} \<and> finite t"] using none by (metis finite.emptyI)
  moreover have "(\<forall>e \<in> set (or_entries s). \<forall>t \<in> snd e. tag_seq t \<le> seq_of (or_counters s) (tag_actor t))
      \<longleftrightarrow> (\<forall>v. \<forall>t \<in> tags_of (or_entries s) v. tag_seq t \<le> seq_of (or_counters s) (tag_actor t))"
    unfolding e [of "\<lambda>ts v. \<forall>t \<in> ts. tag_seq t \<le> seq_of (or_counters s) (tag_actor t)"]
    using none by (metis empty_iff)
  ultimately show ?thesis
    by (simp only: orset_ok_def conj_assoc)
qed (simp add: orset_ok_def)

lemma bt_ok_merge_value [simp]: "bt_ok m \<Longrightarrow> bt_ok (merge_value r m v)"
  by (simp add: merge_value_def Let_def)

lemma bt_ok_merge_values [simp]: "bt_ok m \<Longrightarrow> bt_ok (foldl (merge_value r) m vs)"
  by (induction vs arbitrary: m) simp_all

lemma merge_values_nonempty:
  assumes "\<forall>v. bt_get m v \<noteq> None \<longrightarrow> tags_of m v \<noteq> {}"
  shows "bt_get (foldl (merge_value r) m vs) v \<noteq> None \<Longrightarrow> tags_of (foldl (merge_value r) m vs) v \<noteq> {}"
  using assms
proof (induction vs arbitrary: m)
  case (Cons u vs)
  have "\<forall>v. bt_get (merge_value r m u) v \<noteq> None \<longrightarrow> tags_of (merge_value r m u) v \<noteq> {}"
    using Cons.prems(2) by (auto simp: merge_value_def Let_def)
  with Cons show ?case by simp
qed simp

lemma orset_ok_new [inv_intro]: "orset_ok OrSet_new"
  by (simp add: orset_ok_def OrSet_new_def)

lemma orset_ok_remove [inv_intro]: "orset_ok s \<Longrightarrow> orset_ok (fst (OrSet_remove s v))"
  by (auto simp: orset_ok_def OrSet_remove_def bt_remove_def)

lemma orset_ok_merge [inv_intro]:
  assumes "orset_ok s" and "orset_ok r"
  shows "orset_ok (OrSet_merge s r)"
proof -
  have ok: "bt_ok (or_entries (OrSet_merge s r))" "bt_ok (or_counters (OrSet_merge s r))"
    using assms by (simp_all add: OrSet_merge_def Let_def orset_ok_alt merge_counter_eq)
  have "bt_get (or_entries (OrSet_merge s r)) v \<noteq> None \<Longrightarrow> tags_of (or_entries (OrSet_merge s r)) v \<noteq> {}" for v
    using assms(1) merge_values_nonempty [of "or_entries s"]
    by (simp add: OrSet_merge_def Let_def orset_ok_alt)
  with ok assms show ?thesis
    unfolding orset_ok_alt
    by (auto simp: tags_merge seq_merge le_max_iff_disj)
qed

lemma orset_ok_add [inv_intro]:
  assumes "orset_ok s" and "seq_of (or_counters s) a \<noteq> - 1"
  shows "orset_ok (fst (OrSet_add s a v))"
proof -
  have "seq_of (or_counters s) a \<le> seq_of (or_counters s) a + 1"
    using assms(2) by (intro less_imp_le succ_greater)
  then have "tag_seq t \<le> seq_of (or_counters s) a + 1"
    if "t \<in> tags_of (or_entries s) w" "tag_actor t = a" for t w
    using assms(1) that order_trans unfolding orset_ok_alt by blast
  with assms(1) show ?thesis
    unfolding orset_ok_alt by (auto simp: OrSet_add_def Let_def split: if_splits)
qed

lemma orset_ext:
  fixes s r :: "('a::linorder, 'v::linorder) OrSet"
  assumes "orset_ok s" and "orset_ok r"
    and "\<And>v. tags_of (or_entries s) v = tags_of (or_entries r) v"
    and "\<And>a. bt_get (or_counters s) a = bt_get (or_counters r) a"
  shows "s = r"
proof -
  have "bt_get (or_entries s) v = bt_get (or_entries r) v" for v
    using assms(1,2) assms(3) [of v] by (auto simp: orset_ok_alt tags_of_def split: option.splits)
  then have "or_entries s = or_entries r"
    using assms(1,2) by (intro bt_ext) (auto simp: orset_ok_def)
  moreover have "or_counters s = or_counters r"
    using assms by (intro bt_ext) (auto simp: orset_ok_def)
  ultimately show ?thesis by (simp add: OrSet.equality)
qed

interpretation orset: crdt_join "OrSet_merge :: ('a::linorder, 'v::linorder) OrSet \<Rightarrow> _" orset_ok
proof unfold_locales
  fix a b c :: "('a, 'v) OrSet"
  have c: "orset_ok x \<Longrightarrow> bt_ok (or_counters x)" for x :: "('a, 'v) OrSet"
    by (simp add: orset_ok_def)
  show "OrSet_merge a b = OrSet_merge b a" if "orset_ok a" "orset_ok b"
    using that by (intro orset_ext) (simp_all add: tags_merge counters_merge orset_ok_merge c Un_commute opt_max_laws(1))
  show "OrSet_merge (OrSet_merge a b) c = OrSet_merge a (OrSet_merge b c)"
    if "orset_ok a" "orset_ok b" "orset_ok c"
    using that by (intro orset_ext) (simp_all add: tags_merge counters_merge orset_ok_merge c Un_assoc opt_max_laws(2))
  show "OrSet_merge a a = a" if "orset_ok a"
    using that by (intro orset_ext) (simp_all add: tags_merge counters_merge orset_ok_merge c opt_max_laws(3))
qed (rule orset_ok_merge)

section \<open>Theorems\<close>

lemma contains_tags: "OrSet_contains s v \<longleftrightarrow> tags_of (or_entries s) v \<noteq> {}"
  by (simp add: OrSet_contains_def tags_of_def split: option.split)

lemma set_elements:
  assumes "bt_ok (or_entries s)"
  shows "set (OrSet_elements s) = {v. OrSet_contains s v}"
proof -
  have "v \<in> set (OrSet_elements s) \<longleftrightarrow> (\<exists>t. bt_get (or_entries s) v = Some t \<and> t \<noteq> {})" for v
    using assms by (auto simp: OrSet_elements_def map_of_eq_Some_iff bt_ok_distinct image_iff)
  then show ?thesis by (auto simp: OrSet_contains_def split: option.splits)
qed

lemma len_elements: "OrSet_len s = length (OrSet_elements s)"
  by (simp add: OrSet_len_def OrSet_elements_def filter_map comp_def)

text \<open>C9: replicas of an observed-remove set converge: merging a batch of remote sets gives the same
  state (live tags and counters) in whatever order and however often they are delivered.\<close>

theorem orset_converges:
  assumes "orset_ok s" and "list_all orset_ok xs" and "list_all orset_ok ys" and "set xs = set ys"
  shows "foldl OrSet_merge s xs = foldl OrSet_merge s ys"
  using assms by (rule orset.convergence)

text \<open>A single replica is a set: after an add exactly the added value is new and its tag is fresh (no
  live tag equals it), after a remove exactly the removed value is gone and the result tells whether
  it was there; \<^verbatim>\<open>elements\<close> lists the members once each in increasing order.\<close>

theorem orset_local_behaviour:
  assumes "orset_ok s" and "seq_of (or_counters s) a \<noteq> - 1"
  shows "(OrSet_contains (fst (OrSet_add s a v)) u \<longleftrightarrow> u = v \<or> OrSet_contains s u)
         \<and> snd (OrSet_add s a v) \<notin> tags_of (or_entries s) u
         \<and> (OrSet_contains (fst (OrSet_remove s v)) u \<longleftrightarrow> u \<noteq> v \<and> OrSet_contains s u)
         \<and> (snd (OrSet_remove s v) \<longleftrightarrow> OrSet_contains s v)
         \<and> set (OrSet_elements s) = {w. OrSet_contains s w} \<and> sorted_wrt (<) (OrSet_elements s)
         \<and> OrSet_len s = length (OrSet_elements s)"
proof -
  have lt: "seq_of (or_counters s) a < seq_of (or_counters s) a + 1"
    using assms(2) by (rule succ_greater)
  have "snd (OrSet_add s a v) \<notin> tags_of (or_entries s) u"
  proof
    assume "snd (OrSet_add s a v) \<in> tags_of (or_entries s) u"
    with assms(1) have "seq_of (or_counters s) a + 1 \<le> seq_of (or_counters s) a"
      by (force simp: orset_ok_alt OrSet_add_def Let_def)
    with lt show False by simp
  qed
  moreover have "snd (OrSet_remove s v) \<longleftrightarrow> OrSet_contains s v"
    using assms(1) by (auto simp: OrSet_remove_def contains_tags orset_ok_alt tags_of_def)
  moreover have "sorted_wrt (<) (OrSet_elements s)"
    using assms(1) by (simp add: OrSet_elements_def orset_ok_def)
  ultimately show ?thesis
    using assms(1)
    by (simp add: contains_tags OrSet_add_def OrSet_remove_def Let_def set_elements orset_ok_def len_elements)
qed

text \<open>After a merge a value is present exactly when it was present on one of the two sides. Adds
  therefore win, but a remove is never transmitted: a replica that observed and removed a value gets
  it back from any replica that still holds it, although the documentation says that tags removed on
  one side are not present after a merge.\<close>

theorem orset_merge_is_union:
  "OrSet_contains (OrSet_merge s r) v \<longleftrightarrow> OrSet_contains s v \<or> OrSet_contains r v"
  by (simp add: contains_tags tags_merge)

section \<open>Witnesses\<close>

abbreviation or_a :: "(nat, nat) OrSet" where
  "or_a \<equiv> fst (OrSet_add OrSet_new 1 10)"

abbreviation or_b :: "(nat, nat) OrSet" where
  "or_b \<equiv> fst (OrSet_remove (fst (OrSet_add OrSet_new 2 10)) 10)"

lemma or_ab_ok: "orset_ok or_a" "orset_ok or_b"
  by (intro orset_ok_add orset_ok_remove orset_ok_new; simp add: OrSet_new_def seq_of_def)+

theorem orset_converges_witness:
  "foldl OrSet_merge or_a [or_b, or_a] = foldl OrSet_merge or_a [or_a, or_b, or_b]"
  by (rule orset_converges) (simp_all add: or_ab_ok [simplified] insert_commute)

theorem orset_local_behaviour_witness: "OrSet_contains (fst (OrSet_add or_a 1 20)) 20"
  using orset_local_behaviour [OF or_ab_ok(1), of 1 20 20]
  by (simp add: OrSet_add_def OrSet_new_def Let_def seq_of_def)

end
