(* ===== verification/Identity.thy ===== *)
theory Identity
  imports Prelude
begin

text \<open>
  Crate \<^verbatim>\<open>ephemera-types\<close>, files \<^verbatim>\<open>identity.rs\<close> and \<^verbatim>\<open>id.rs\<close>: identity keys, signatures,
  node identifiers with the Kademlia XOR metric, and content identifiers with their wire format. A
  fixed-size array \<^verbatim>\<open>[u8; 32]\<close> is a byte list of that length; the length is the type's invariant.
  Node identifiers carry the lexicographic order that Rust derives for them.
\<close>

section \<open>Keys and signatures\<close>

datatype IdentityKey = IdentityKey (identity_bytes: bytes)

definition ED25519_SIGNATURE_LEN :: nat where "ED25519_SIGNATURE_LEN = 64"

datatype Signature = Signature (signature_bytes: bytes)

definition Signature_from_slice :: "bytes \<Rightarrow> Signature option" where
  "Signature_from_slice bs = (if length bs = ED25519_SIGNATURE_LEN then Some (Signature bs) else None)"

text \<open>
  \<^verbatim>\<open>visit_seq\<close> of the custom deserializer: read elements while the sequence yields them, failing as
  soon as a 65th arrives, then insist on exactly 64. An error is the offending length.
\<close>

fun collect_signature :: "bytes \<Rightarrow> bytes \<Rightarrow> nat + bytes" where
  "collect_signature acc [] = Inr acc"
| "collect_signature acc (b # rest) =
     (if length acc \<ge> ED25519_SIGNATURE_LEN then Inl (length acc + 1)
      else collect_signature (acc @ [b]) rest)"

definition Signature_visit_seq :: "bytes \<Rightarrow> nat + Signature" where
  "Signature_visit_seq input =
     (case collect_signature [] input of
        Inl n \<Rightarrow> Inl n
      | Inr bs \<Rightarrow> (case Signature_from_slice bs of None \<Rightarrow> Inl (length bs) | Some s \<Rightarrow> Inr s))"

section \<open>Node identifiers\<close>

datatype NodeId = NodeId (node_bytes: bytes)

instantiation NodeId :: linorder
begin

definition less_eq_NodeId :: "NodeId \<Rightarrow> NodeId \<Rightarrow> bool" where
  "less_eq_NodeId a b \<longleftrightarrow> node_bytes a \<le> node_bytes b"

definition less_NodeId :: "NodeId \<Rightarrow> NodeId \<Rightarrow> bool" where
  "less_NodeId a b \<longleftrightarrow> node_bytes a < node_bytes b"

instance
  by standard (auto simp: less_eq_NodeId_def less_NodeId_def NodeId.expand)

end

definition node_ok :: "NodeId \<Rightarrow> bool" where
  "node_ok n \<longleftrightarrow> length (node_bytes n) = 32"

definition xor_distance :: "NodeId \<Rightarrow> NodeId \<Rightarrow> bytes" where
  "xor_distance self other = map2 (XOR) (node_bytes self) (node_bytes other)"

fun first_nonzero :: "nat \<Rightarrow> bytes \<Rightarrow> nat option" where
  "first_nonzero byte_idx [] = None"
| "first_nonzero byte_idx (b # rest) =
     (if b \<noteq> 0 then Some (byte_idx * 8 + leading_zeros b) else first_nonzero (byte_idx + 1) rest)"

definition leading_zeros_distance :: "NodeId \<Rightarrow> NodeId \<Rightarrow> nat option" where
  "leading_zeros_distance self other = first_nonzero 0 (xor_distance self other)"

section \<open>Content identifiers\<close>

definition BLAKE3_HASH_LEN :: nat where "BLAKE3_HASH_LEN = 32"
definition CONTENT_HASH_VERSION :: u8 where "CONTENT_HASH_VERSION = 1"

record ContentId =
  cid_version :: u8
  cid_hash :: bytes

definition ContentId_from_hash :: "bytes \<Rightarrow> ContentId" where
  "ContentId_from_hash hash = \<lparr>cid_version = CONTENT_HASH_VERSION, cid_hash = hash\<rparr>"

definition ContentId_from_wire_bytes :: "bytes \<Rightarrow> ContentId option" where
  "ContentId_from_wire_bytes bs =
     (if length bs \<noteq> BLAKE3_HASH_LEN + 1 then None
      else if bs ! 0 \<noteq> CONTENT_HASH_VERSION then None
      else Some \<lparr>cid_version = bs ! 0, cid_hash = drop 1 bs\<rparr>)"

definition ContentId_to_wire_bytes :: "ContentId \<Rightarrow> bytes" where
  "ContentId_to_wire_bytes c = cid_version c # cid_hash c"

definition wire_bytes_ct_eq :: "ContentId \<Rightarrow> ContentId \<Rightarrow> bool" where
  "wire_bytes_ct_eq a b \<longleftrightarrow> cid_version a = cid_version b \<and> cid_hash a = cid_hash b"

definition cid_ok :: "ContentId \<Rightarrow> bool" where
  "cid_ok c \<longleftrightarrow> cid_version c = CONTENT_HASH_VERSION \<and> length (cid_hash c) = BLAKE3_HASH_LEN"

section \<open>Lemmas\<close>

lemma collect_signature_eq:
  "length acc \<le> 64 \<Longrightarrow>
     collect_signature acc bs = (if length acc + length bs \<le> 64 then Inr (acc @ bs) else Inl 65)"
  by (induction bs arbitrary: acc) (auto simp: ED25519_SIGNATURE_LEN_def)

lemma Signature_visit_seq_eq:
  "Signature_visit_seq bs =
     (if length bs = 64 then Inr (Signature bs) else Inl (min (length bs) 65))"
  by (auto simp: Signature_visit_seq_def collect_signature_eq Signature_from_slice_def ED25519_SIGNATURE_LEN_def)

lemma map2_xor_cancel:
  fixes xs ys zs :: bytes
  assumes "length xs = length zs" and "length ys = length zs" and "map2 (XOR) xs zs = map2 (XOR) ys zs"
  shows "xs = ys"
  using assms
proof (induction zs arbitrary: xs ys)
  case (Cons z zs)
  then obtain x xs' y ys' where eq: "xs = x # xs'" "ys = y # ys'" by (metis length_Suc_conv)
  with Cons.prems have "x XOR z = y XOR z" by simp
  then have "x = y" by (simp only: xor_cancel_right)
  with Cons eq show ?case by simp
qed simp

lemma xor_distance_inject:
  assumes "node_ok a" and "node_ok b" and "node_ok t" and "xor_distance a t = xor_distance b t"
  shows "a = b"
  using assms map2_xor_cancel [of "node_bytes a" "node_bytes t" "node_bytes b"]
  by (simp add: node_ok_def xor_distance_def NodeId.expand)

lemma xor_distance_commute: "xor_distance a b = xor_distance b a"
proof -
  have "map2 (XOR) xs ys = map2 (XOR) ys xs" for xs ys :: bytes
    by (induction xs ys rule: list_induct2') (simp_all add: xor.commute)
  then show ?thesis by (simp add: xor_distance_def)
qed

text \<open>Bit \<open>i\<close> of a byte sequence, counted from the most significant bit of the first byte.\<close>

definition bytes_bit :: "bytes \<Rightarrow> nat \<Rightarrow> bool" where
  "bytes_bit bs i = bit (bs ! (i div 8)) (7 - i mod 8)"

lemma bytes_bit_Cons: "bytes_bit (b # bs) i = (if i < 8 then bit b (7 - i) else bytes_bit bs (i - 8))"
  by (simp add: bytes_bit_def div_eq_0_iff le_mod_geq le_div_geq)

lemma first_nonzero_Some:
  "first_nonzero k bs = Some i \<Longrightarrow>
     \<exists>j. i = 8 * k + j \<and> j < 8 * length bs \<and> bytes_bit bs j \<and> (\<forall>j' < j. \<not> bytes_bit bs j')"
proof (induction bs arbitrary: k)
  case (Cons b bs)
  show ?case
  proof (cases "b = 0")
    case False
    have "\<not> bit b (7 - j')" if "j' < leading_zeros b" for j'
      using leading_zeros_spec(1) [OF False] leading_zeros_spec(3) [OF False, of "7 - j'"] that by simp
    with False Cons.prems leading_zeros_spec(1,2) [OF False] show ?thesis
      by (intro exI [of _ "leading_zeros b"]) (auto simp: bytes_bit_Cons)
  next
    case True
    with Cons.prems have "first_nonzero (k + 1) bs = Some i" by simp
    then obtain j where "i = 8 * (k + 1) + j" "j < 8 * length bs" "bytes_bit bs j"
        "\<forall>j' < j. \<not> bytes_bit bs j'"
      using Cons.IH by blast
    with True show ?thesis by (intro exI [of _ "8 + j"]) (auto simp: bytes_bit_Cons)
  qed
qed simp

lemma first_nonzero_None: "first_nonzero k bs = None \<longleftrightarrow> (\<forall>b \<in> set bs. b = 0)"
  by (induction bs arbitrary: k) auto

lemma bytes_bit_xor:
  assumes "length xs = length ys" and "i < 8 * length xs"
  shows "bytes_bit (map2 (XOR) xs ys) i \<longleftrightarrow> bytes_bit xs i \<noteq> bytes_bit ys i"
proof -
  have "i div 8 < length xs" using assms(2) by linarith
  with assms(1) show ?thesis by (simp add: bytes_bit_def bit_xor_iff)
qed

lemma xor_zero_iff:
  "length xs = length ys \<Longrightarrow> (\<forall>b \<in> set (map2 (XOR) xs ys). b = 0) \<longleftrightarrow> xs = (ys :: bytes)"
proof (induction xs ys rule: list_induct2)
  case (Cons x xs y ys)
  then show ?case by (simp add: xor_eq_0_iff)
qed simp

lemma leading_zeros_distance_None: "node_ok a \<Longrightarrow> node_ok b \<Longrightarrow> leading_zeros_distance a b = None \<longleftrightarrow> a = b"
  using xor_zero_iff [of "node_bytes a" "node_bytes b"]
  by (simp only: leading_zeros_distance_def first_nonzero_None xor_distance_def node_ok_def NodeId.expand)
    (auto simp: NodeId.expand)

lemma leading_zeros_distance_bound:
  assumes "node_ok a" and "node_ok b" and "leading_zeros_distance a b = Some i"
  shows "i < 256"
  using first_nonzero_Some [OF assms(3) [unfolded leading_zeros_distance_def]] assms(1,2)
  by (auto simp: xor_distance_def node_ok_def)

section \<open>Theorems\<close>

text \<open>The bucket index of the Kademlia metric: \<^verbatim>\<open>leading_zeros_distance\<close> of two 32-byte identifiers is
  the index (0..255) of the most significant bit in which they differ, and is absent exactly for equal
  identifiers.\<close>

theorem leading_zeros_distance_first_difference:
  assumes "node_ok a" and "node_ok b"
  shows "(leading_zeros_distance a b = None \<longleftrightarrow> a = b)
       \<and> (leading_zeros_distance a b = Some i \<longrightarrow>
            i < 256 \<and> bytes_bit (node_bytes a) i \<noteq> bytes_bit (node_bytes b) i
            \<and> (\<forall>j < i. bytes_bit (node_bytes a) j = bytes_bit (node_bytes b) j))"
proof (cases "leading_zeros_distance a b = Some i")
  case True
  from first_nonzero_Some [OF this [unfolded leading_zeros_distance_def]] assms
  have "i < 256" "bytes_bit (xor_distance a b) i" "\<forall>j < i. \<not> bytes_bit (xor_distance a b) j"
    by (auto simp: xor_distance_def node_ok_def)
  with assms leading_zeros_distance_None [OF assms] show ?thesis
    by (auto simp: xor_distance_def bytes_bit_xor node_ok_def)
qed (simp add: leading_zeros_distance_None [OF assms])

text \<open>Wire round trip of content identifiers: decoding an encoded identifier gives it back, and a byte
  string that decodes at all is the 33-byte encoding of the result; anything of another length or
  version is refused.\<close>

theorem content_id_wire_roundtrip:
  "(cid_ok c \<longrightarrow> ContentId_from_wire_bytes (ContentId_to_wire_bytes c) = Some c)
   \<and> (ContentId_from_wire_bytes bs = Some c \<longleftrightarrow> cid_ok c \<and> ContentId_to_wire_bytes c = bs)"
proof (cases bs)
  case Nil
  then show ?thesis
    by (auto simp: ContentId_from_wire_bytes_def ContentId_to_wire_bytes_def cid_ok_def BLAKE3_HASH_LEN_def)
next
  case (Cons b rest)
  then show ?thesis
    by (auto simp: ContentId_from_wire_bytes_def ContentId_to_wire_bytes_def cid_ok_def BLAKE3_HASH_LEN_def)
qed

section \<open>Witnesses\<close>

theorem leading_zeros_distance_first_difference_witness:
  "leading_zeros_distance (NodeId (replicate 32 0)) (NodeId (0 # 16 # replicate 30 0)) = Some 11
   \<and> bytes_bit (0 # 16 # replicate 30 0) 11"
proof -
  have n: "node_ok (NodeId (replicate 32 0))" "node_ok (NodeId (0 # 16 # replicate 30 0))"
    by (simp_all add: node_ok_def)
  have "leading_zeros_distance (NodeId (replicate 32 0)) (NodeId (0 # 16 # replicate 30 0)) = Some 11"
    by code_simp
  with leading_zeros_distance_first_difference [OF n, of 11] show ?thesis
    by (simp add: bytes_bit_def)
qed

theorem content_id_wire_roundtrip_witness:
  "ContentId_from_wire_bytes (ContentId_to_wire_bytes (ContentId_from_hash (replicate 32 7)))
     = Some (ContentId_from_hash (replicate 32 7))"
  using content_id_wire_roundtrip [of "ContentId_from_hash (replicate 32 7)" "[]"]
  by (simp add: cid_ok_def ContentId_from_hash_def BLAKE3_HASH_LEN_def)

end
