(* ===== verification/Rate_Limit.thy ===== *)
theory Rate_Limit
  imports Complex_Main Identity
begin

text \<open>
  Crate \<^verbatim>\<open>ephemera-abuse\<close>, file \<^verbatim>\<open>rate_limit.rs\<close>: token buckets per identity and action. The
  \<^verbatim>\<open>f64\<close> token amounts and rates are exact rational numbers. An \<^verbatim>\<open>Instant\<close> is a number of
  nanoseconds, and the elapsed time is the saturating difference, as in the standard library. Every
  reading of the clock is explicit: an operation takes the instants it reads, and the limiter's
  operations take the sequence \<open>clk\<close> of the readings they make, in order.
\<close>

section \<open>Actions and their limits\<close>

datatype ActionType =
    Post | Reply | Reaction | DirectMessageFriend | DirectMessageMutual | MessageRequest | Follow
  | ConnectionRequest | GroupCreate | GroupInvite | GroupChatMessage

fun action_debug :: "ActionType \<Rightarrow> string" where
  "action_debug Post = ''Post''"
| "action_debug Reply = ''Reply''"
| "action_debug Reaction = ''Reaction''"
| "action_debug DirectMessageFriend = ''DirectMessageFriend''"
| "action_debug DirectMessageMutual = ''DirectMessageMutual''"
| "action_debug MessageRequest = ''MessageRequest''"
| "action_debug Follow = ''Follow''"
| "action_debug ConnectionRequest = ''ConnectionRequest''"
| "action_debug GroupCreate = ''GroupCreate''"
| "action_debug GroupInvite = ''GroupInvite''"
| "action_debug GroupChatMessage = ''GroupChatMessage''"

datatype AbuseError =
    PowInvalid string
  | AbuseRateLimited string u64
  | InsufficientReputation real real

record RateLimitConfig =
  cfg_capacity :: u32
  cfg_refill_rate :: rat

fun RateLimitConfig_for_action :: "ActionType \<Rightarrow> RateLimitConfig" where
  "RateLimitConfig_for_action Post = \<lparr>cfg_capacity = 10, cfg_refill_rate = 10 / 3600\<rparr>"
| "RateLimitConfig_for_action Reply = \<lparr>cfg_capacity = 5, cfg_refill_rate = 20 / 3600\<rparr>"
| "RateLimitConfig_for_action Reaction = \<lparr>cfg_capacity = 20, cfg_refill_rate = 100 / 3600\<rparr>"
| "RateLimitConfig_for_action DirectMessageFriend = \<lparr>cfg_capacity = 10, cfg_refill_rate = 60 / 3600\<rparr>"
| "RateLimitConfig_for_action DirectMessageMutual = \<lparr>cfg_capacity = 5, cfg_refill_rate = 30 / 3600\<rparr>"
| "RateLimitConfig_for_action MessageRequest = \<lparr>cfg_capacity = 1, cfg_refill_rate = 5 / 3600\<rparr>"
| "RateLimitConfig_for_action Follow = \<lparr>cfg_capacity = 10, cfg_refill_rate = 50 / 3600\<rparr>"
| "RateLimitConfig_for_action ConnectionRequest = \<lparr>cfg_capacity = 5, cfg_refill_rate = 20 / 3600\<rparr>"
| "RateLimitConfig_for_action GroupCreate = \<lparr>cfg_capacity = 3, cfg_refill_rate = 5 / 3600\<rparr>"
| "RateLimitConfig_for_action GroupInvite = \<lparr>cfg_capacity = 10, cfg_refill_rate = 20 / 3600\<rparr>"
| "RateLimitConfig_for_action GroupChatMessage = \<lparr>cfg_capacity = 15, cfg_refill_rate = 60 / 3600\<rparr>"

section \<open>A token bucket\<close>

type_synonym instant = nat

definition as_secs_f64 :: "nat \<Rightarrow> rat" where
  "as_secs_f64 nanos = of_nat nanos / 1000000000"

record TokenBucket =
  tb_capacity :: u32
  tb_tokens :: rat
  tb_refill_rate :: rat
  tb_last_refill :: instant

definition TokenBucket_new :: "RateLimitConfig \<Rightarrow> instant \<Rightarrow> TokenBucket" where
  "TokenBucket_new config now =
     \<lparr>tb_capacity = cfg_capacity config, tb_tokens = of_nat (unat (cfg_capacity config)),
      tb_refill_rate = cfg_refill_rate config, tb_last_refill = now\<rparr>"

definition TokenBucket_refill :: "TokenBucket \<Rightarrow> instant \<Rightarrow> instant \<Rightarrow> TokenBucket" where
  "TokenBucket_refill b now now' =
     (let elapsed = as_secs_f64 (now - tb_last_refill b)
      in b\<lparr>tb_tokens := min (tb_tokens b + elapsed * tb_refill_rate b) (of_nat (unat (tb_capacity b))),
           tb_last_refill := now'\<rparr>)"

definition TokenBucket_try_consume :: "TokenBucket \<Rightarrow> instant \<Rightarrow> instant \<Rightarrow> TokenBucket \<times> bool" where
  "TokenBucket_try_consume b now now' =
     (let b = TokenBucket_refill b now now'
      in if tb_tokens b \<ge> 1 then (b\<lparr>tb_tokens := tb_tokens b - 1\<rparr>, True) else (b, False))"

definition TokenBucket_retry_after :: "TokenBucket \<Rightarrow> instant \<Rightarrow> instant \<Rightarrow> TokenBucket \<times> u64" where
  "TokenBucket_retry_after b now now' =
     (let b = TokenBucket_refill b now now'
      in if tb_tokens b \<ge> 1 then (b, 0)
         else let deficit = 1 - tb_tokens b
              in (b, of_nat (min (nat \<lceil>deficit / tb_refill_rate b\<rceil>) (2 ^ 64 - 1))))"

section \<open>The limiter\<close>

record RateLimiter =
  rl_buckets :: "(IdentityKey \<times> ActionType, TokenBucket) hash_map"

definition RateLimiter_new :: RateLimiter where
  "RateLimiter_new = \<lparr>rl_buckets = []\<rparr>"

definition bucket_entry :: "RateLimiter \<Rightarrow> IdentityKey \<Rightarrow> ActionType \<Rightarrow> instant \<Rightarrow> TokenBucket" where
  "bucket_entry rl identity action now =
     (case hm_get (rl_buckets rl) (identity, action) of
        Some b \<Rightarrow> b
      | None \<Rightarrow> TokenBucket_new (RateLimitConfig_for_action action) now)"

definition RateLimiter_check ::
    "RateLimiter \<Rightarrow> IdentityKey \<Rightarrow> ActionType \<Rightarrow> (nat \<Rightarrow> instant) \<Rightarrow> RateLimiter \<times> (AbuseError + unit)" where
  "RateLimiter_check rl identity action clk =
     (let bucket = bucket_entry rl identity action (clk 0);
          (bucket, ok) = TokenBucket_try_consume bucket (clk 1) (clk 2)
      in if ok
         then (rl\<lparr>rl_buckets := hm_insert (identity, action) bucket (rl_buckets rl)\<rparr>, Inr ())
         else let (bucket, retry_after) = TokenBucket_retry_after bucket (clk 3) (clk 4)
              in (rl\<lparr>rl_buckets := hm_insert (identity, action) bucket (rl_buckets rl)\<rparr>,
                  Inl (AbuseRateLimited (action_debug action) retry_after)))"

definition RateLimiter_would_allow ::
    "RateLimiter \<Rightarrow> IdentityKey \<Rightarrow> ActionType \<Rightarrow> (nat \<Rightarrow> instant) \<Rightarrow> RateLimiter \<times> bool" where
  "RateLimiter_would_allow rl identity action clk =
     (let bucket = TokenBucket_refill (bucket_entry rl identity action (clk 0)) (clk 1) (clk 2)
      in (rl\<lparr>rl_buckets := hm_insert (identity, action) bucket (rl_buckets rl)\<rparr>, tb_tokens bucket \<ge> 1))"

definition RateLimiter_clear_identity :: "RateLimiter \<Rightarrow> IdentityKey \<Rightarrow> RateLimiter" where
  "RateLimiter_clear_identity rl identity =
     rl\<lparr>rl_buckets := filter (\<lambda>((id, _), _). id \<noteq> identity) (rl_buckets rl)\<rparr>"

definition RateLimiter_clear_all :: "RateLimiter \<Rightarrow> RateLimiter" where
  "RateLimiter_clear_all rl = rl\<lparr>rl_buckets := []\<rparr>"

section \<open>Invariant\<close>

definition bucket_ok :: "TokenBucket \<Rightarrow> bool" where
  "bucket_ok b \<longleftrightarrow> 0 \<le> tb_tokens b \<and> tb_tokens b \<le> of_nat (unat (tb_capacity b)) \<and> 0 < tb_refill_rate b"

definition limiter_ok :: "RateLimiter \<Rightarrow> bool" where
  "limiter_ok rl \<longleftrightarrow> hm_ok (rl_buckets rl) \<and>
     (\<forall>((i, a), b) \<in> set (rl_buckets rl). bucket_ok b
        \<and> tb_capacity b = cfg_capacity (RateLimitConfig_for_action a)
        \<and> tb_refill_rate b = cfg_refill_rate (RateLimitConfig_for_action a))"

section \<open>Lemmas: one bucket\<close>

lemma as_secs_nonneg [simp]: "0 \<le> as_secs_f64 n"
  by (simp add: as_secs_f64_def)

lemma as_secs_add: "as_secs_f64 (m + n) = as_secs_f64 m + as_secs_f64 n"
  by (simp add: as_secs_f64_def add_divide_distrib)

lemma as_secs_split: "r \<le> s \<Longrightarrow> s \<le> t \<Longrightarrow> as_secs_f64 (t - r) = as_secs_f64 (s - r) + as_secs_f64 (t - s)"
  by (simp flip: as_secs_add)

lemma action_config_pos:
  "0 < cfg_refill_rate (RateLimitConfig_for_action a)" "1 \<le> unat (cfg_capacity (RateLimitConfig_for_action a))"
  by (cases a; simp)+

lemma unsigned_rat_nonneg [simp]: "(0 :: rat) \<le> unsigned (w :: 'a::len word)"
  by (metis of_nat_0_le_iff of_nat_unat)

lemma bucket_ok_new [inv_intro]: "bucket_ok (TokenBucket_new (RateLimitConfig_for_action a) t)"
  by (simp add: bucket_ok_def TokenBucket_new_def action_config_pos)

lemma refill_fields [simp]:
  "tb_capacity (TokenBucket_refill b n n') = tb_capacity b"
  "tb_refill_rate (TokenBucket_refill b n n') = tb_refill_rate b"
  "tb_last_refill (TokenBucket_refill b n n') = n'"
  by (simp_all add: TokenBucket_refill_def Let_def)

lemma bucket_ok_refill [inv_intro]: "bucket_ok b \<Longrightarrow> bucket_ok (TokenBucket_refill b n n')"
  by (simp add: bucket_ok_def TokenBucket_refill_def Let_def)

lemma bucket_ok_try_consume [inv_intro]: "bucket_ok b \<Longrightarrow> bucket_ok (fst (TokenBucket_try_consume b n n'))"
  using bucket_ok_refill [of b n n'] by (auto simp: TokenBucket_try_consume_def Let_def bucket_ok_def)

lemma fst_retry_after [simp]: "fst (TokenBucket_retry_after b n n') = TokenBucket_refill b n n'"
  by (simp add: TokenBucket_retry_after_def Let_def)

text \<open>
  The level of a bucket at a time: its tokens plus what has been earned since the last refill, not yet
  capped. It is the potential that bounds the number of allowed actions.
\<close>

definition bucket_level :: "TokenBucket \<Rightarrow> instant \<Rightarrow> rat" where
  "bucket_level b t = tb_tokens b + as_secs_f64 (t - tb_last_refill b) * tb_refill_rate b"

lemma bucket_level_nonneg: "bucket_ok b \<Longrightarrow> 0 \<le> bucket_level b t"
  by (simp add: bucket_level_def bucket_ok_def)

lemma bucket_level_later:
  "tb_last_refill b \<le> s \<Longrightarrow> s \<le> t \<Longrightarrow>
     bucket_level b t = bucket_level b s + as_secs_f64 (t - s) * tb_refill_rate b"
  using as_secs_split [of "tb_last_refill b" s t] by (simp add: bucket_level_def algebra_simps)

lemma bucket_level_refill: "bucket_level (TokenBucket_refill b n n') n' \<le> bucket_level b n"
  by (simp add: bucket_level_def TokenBucket_refill_def Let_def as_secs_f64_def)

lemma bucket_level_consume:
  assumes "TokenBucket_try_consume b n n' = (b', ok)"
  shows "bucket_level b' n' + (if ok then 1 else 0) \<le> bucket_level b n"
    and "tb_last_refill b' = n'" and "tb_refill_rate b' = tb_refill_rate b" and "tb_capacity b' = tb_capacity b"
proof -
  have "bucket_level b' n' + (if ok then 1 else 0) = bucket_level (TokenBucket_refill b n n') n'"
    using assms by (auto simp: TokenBucket_try_consume_def Let_def bucket_level_def split: if_splits)
  with bucket_level_refill [of b n n'] show "bucket_level b' n' + (if ok then 1 else 0) \<le> bucket_level b n"
    by simp
  show "tb_last_refill b' = n'" "tb_refill_rate b' = tb_refill_rate b" "tb_capacity b' = tb_capacity b"
    using assms by (auto simp: TokenBucket_try_consume_def Let_def split: if_splits)
qed

lemma retry_enough:
  assumes "bucket_ok b" and "1 \<le> unat (tb_capacity b)" and "TokenBucket_retry_after b n n' = (b', r)"
    and "1 / tb_refill_rate b \<le> 2 ^ 63" and "n' + unat r * 1000000000 \<le> m"
  shows "snd (TokenBucket_try_consume b' m m')"
proof -
  let ?c = "TokenBucket_refill b n n'"
  have ok: "bucket_ok ?c" using assms(1) by (rule bucket_ok_refill)
  have b': "b' = ?c" using assms(3) fst_retry_after [of b n n'] by simp
  have rate: "0 < tb_refill_rate b" using assms(1) by (simp add: bucket_ok_def)
  have one: "1 \<le> tb_tokens ?c + as_secs_f64 (m - n') * tb_refill_rate b"
  proof (cases "1 \<le> tb_tokens ?c")
    case True
    with rate show ?thesis by (simp add: add_increasing2)
  next
    case False
    let ?q = "(1 - tb_tokens ?c) / tb_refill_rate b"
    have q: "0 \<le> ?q" "?q \<le> 2 ^ 63"
      using False rate ok assms(4) by (auto simp: bucket_ok_def field_simps)
    then have le: "nat \<lceil>?q\<rceil> \<le> 2 ^ 63" by (simp add: ceiling_le_iff nat_le_iff)
    have "r = of_nat (min (nat \<lceil>?q\<rceil>) (2 ^ 64 - 1))"
      using assms(3) False by (auto simp: TokenBucket_retry_after_def Let_def)
    with le have r: "unat r = nat \<lceil>?q\<rceil>"
      by (simp add: unat_of_nat min_def del: of_nat_nat)
    have "?q \<le> of_nat (unat r)" using q(1) by (simp add: r of_nat_nat)
    also have "of_nat (unat r) = as_secs_f64 (unat r * 1000000000)" by (simp add: as_secs_f64_def)
    also have "\<dots> \<le> as_secs_f64 (m - n')"
      using assms(5) by (simp add: as_secs_f64_def divide_right_mono flip: of_nat_mult)
    finally show ?thesis using rate by (simp add: field_simps)
  qed
  moreover have "(1 :: rat) \<le> unsigned (tb_capacity b)"
    using assms(2) by (metis of_nat_1 of_nat_le_iff of_nat_unat)
  ultimately show ?thesis
    by (simp add: b' TokenBucket_try_consume_def TokenBucket_refill_def Let_def)
qed

section \<open>Lemmas: the limiter\<close>

lemma limiter_ok_get:
  assumes "limiter_ok rl" and "hm_get (rl_buckets rl) (i, a) = Some b"
  shows "bucket_ok b" and "tb_capacity b = cfg_capacity (RateLimitConfig_for_action a)"
    and "tb_refill_rate b = cfg_refill_rate (RateLimitConfig_for_action a)"
  using assms by (auto simp: limiter_ok_def dest!: map_of_SomeD)

lemma limiter_ok_store:
  assumes "limiter_ok rl" and "bucket_ok b" and "tb_capacity b = cfg_capacity (RateLimitConfig_for_action a)"
    and "tb_refill_rate b = cfg_refill_rate (RateLimitConfig_for_action a)"
  shows "limiter_ok (rl\<lparr>rl_buckets := hm_insert (i, a) b (rl_buckets rl)\<rparr>)"
  using assms hm_set_insert [of "(i, a)" b "rl_buckets rl"] by (fastforce simp: limiter_ok_def)

lemma limiter_ok_new [inv_intro]: "limiter_ok RateLimiter_new"
  by (simp add: limiter_ok_def RateLimiter_new_def)

lemma bucket_entry_ok:
  assumes "limiter_ok rl"
  shows "bucket_ok (bucket_entry rl i a t)"
    and "tb_capacity (bucket_entry rl i a t) = cfg_capacity (RateLimitConfig_for_action a)"
    and "tb_refill_rate (bucket_entry rl i a t) = cfg_refill_rate (RateLimitConfig_for_action a)"
  using limiter_ok_get [OF assms] bucket_ok_new [of a t]
  by (auto simp: bucket_entry_def TokenBucket_new_def split: option.splits)

text \<open>What \<^verbatim>\<open>check\<close> does to the bucket of its own key, and that it touches no other key.\<close>

definition check_bucket :: "TokenBucket \<Rightarrow> (nat \<Rightarrow> instant) \<Rightarrow> TokenBucket" where
  "check_bucket b clk =
     (let (b', ok) = TokenBucket_try_consume b (clk 1) (clk 2)
      in if ok then b' else TokenBucket_refill b' (clk 3) (clk 4))"

lemma check_stores:
  "fst (RateLimiter_check rl i a clk)
     = rl\<lparr>rl_buckets := hm_insert (i, a) (check_bucket (bucket_entry rl i a (clk 0)) clk) (rl_buckets rl)\<rparr>"
  "snd (RateLimiter_check rl i a clk) = Inr () \<longleftrightarrow>
     snd (TokenBucket_try_consume (bucket_entry rl i a (clk 0)) (clk 1) (clk 2))"
proof -
  obtain b' ok where c: "TokenBucket_try_consume (bucket_entry rl i a (clk 0)) (clk 1) (clk 2) = (b', ok)"
    by (cases "TokenBucket_try_consume (bucket_entry rl i a (clk 0)) (clk 1) (clk 2)")
  obtain b'' r where r: "TokenBucket_retry_after b' (clk 3) (clk 4) = (b'', r)"
    by (cases "TokenBucket_retry_after b' (clk 3) (clk 4)")
  then have "b'' = TokenBucket_refill b' (clk 3) (clk 4)"
    using fst_retry_after [of b' "clk 3" "clk 4"] by simp
  with c r show "fst (RateLimiter_check rl i a clk)
     = rl\<lparr>rl_buckets := hm_insert (i, a) (check_bucket (bucket_entry rl i a (clk 0)) clk) (rl_buckets rl)\<rparr>"
    by (simp add: RateLimiter_check_def check_bucket_def Let_def)
  from c r show "snd (RateLimiter_check rl i a clk) = Inr () \<longleftrightarrow>
      snd (TokenBucket_try_consume (bucket_entry rl i a (clk 0)) (clk 1) (clk 2))"
    by (simp add: RateLimiter_check_def Let_def)
qed

lemma check_bucket_ok [inv_intro]:
  assumes "bucket_ok b"
  shows "bucket_ok (check_bucket b clk)" and "tb_capacity (check_bucket b clk) = tb_capacity b"
    and "tb_refill_rate (check_bucket b clk) = tb_refill_rate b"
  using bucket_ok_try_consume [OF assms, of "clk 1" "clk 2"]
    bucket_level_consume(3,4) [OF prod.collapse [symmetric], of b "clk 1" "clk 2"]
  by (auto simp: check_bucket_def split_def Let_def intro: bucket_ok_refill)

lemma limiter_ok_check [inv_intro]:
  assumes "limiter_ok rl"
  shows "limiter_ok (fst (RateLimiter_check rl i a clk))"
  using assms by (simp add: check_stores limiter_ok_store check_bucket_ok bucket_entry_ok)

lemma limiter_ok_would_allow [inv_intro]:
  assumes "limiter_ok rl"
  shows "limiter_ok (fst (RateLimiter_would_allow rl i a clk))"
  using assms by (simp add: RateLimiter_would_allow_def Let_def limiter_ok_store bucket_ok_refill bucket_entry_ok)

lemma limiter_ok_clear [inv_intro]:
  assumes "limiter_ok rl"
  shows "limiter_ok (RateLimiter_clear_identity rl i)" and "limiter_ok (RateLimiter_clear_all rl)"
  using assms by (auto simp: limiter_ok_def RateLimiter_clear_identity_def RateLimiter_clear_all_def)

section \<open>Runs\<close>

text \<open>
  A run of the limiter: checks and peeks of any identities and actions, each with its clock readings.
  \<open>readings_from t\<close> says that the readings of the run never go back before \<open>t\<close> or one another.
\<close>

datatype limiter_op = Check IdentityKey ActionType | Peek IdentityKey ActionType

fun limiter_step :: "RateLimiter \<Rightarrow> limiter_op \<Rightarrow> (nat \<Rightarrow> instant) \<Rightarrow> RateLimiter" where
  "limiter_step rl (Check i a) clk = fst (RateLimiter_check rl i a clk)"
| "limiter_step rl (Peek i a) clk = fst (RateLimiter_would_allow rl i a clk)"

definition step_allows :: "RateLimiter \<Rightarrow> limiter_op \<Rightarrow> (nat \<Rightarrow> instant) \<Rightarrow> IdentityKey \<Rightarrow> ActionType \<Rightarrow> bool" where
  "step_allows rl op clk i a \<longleftrightarrow> op = Check i a \<and> snd (RateLimiter_check rl i a clk) = Inr ()"

fun allowed_count :: "RateLimiter \<Rightarrow> (limiter_op \<times> (nat \<Rightarrow> instant)) list \<Rightarrow> IdentityKey \<Rightarrow> ActionType \<Rightarrow> nat" where
  "allowed_count rl [] i a = 0"
| "allowed_count rl ((op, clk) # ops) i a =
     (if step_allows rl op clk i a then 1 else 0) + allowed_count (limiter_step rl op clk) ops i a"

fun readings_from :: "instant \<Rightarrow> (limiter_op \<times> (nat \<Rightarrow> instant)) list \<Rightarrow> bool" where
  "readings_from t [] \<longleftrightarrow> True"
| "readings_from t ((op, clk) # ops) \<longleftrightarrow>
     t \<le> clk 0 \<and> clk 0 \<le> clk 1 \<and> clk 1 \<le> clk 2 \<and> clk 2 \<le> clk 3 \<and> clk 3 \<le> clk 4 \<and> readings_from (clk 4) ops"

fun last_reading :: "instant \<Rightarrow> (limiter_op \<times> (nat \<Rightarrow> instant)) list \<Rightarrow> instant" where
  "last_reading t [] = t"
| "last_reading t ((op, clk) # ops) = last_reading (clk 4) ops"

text \<open>The actions a key may still take at a time, as a potential.\<close>

definition available :: "RateLimiter \<Rightarrow> IdentityKey \<Rightarrow> ActionType \<Rightarrow> instant \<Rightarrow> rat" where
  "available rl i a t =
     (case hm_get (rl_buckets rl) (i, a) of
        None \<Rightarrow> of_nat (unat (cfg_capacity (RateLimitConfig_for_action a)))
      | Some b \<Rightarrow> bucket_level b t)"

definition refilled_before :: "RateLimiter \<Rightarrow> IdentityKey \<Rightarrow> ActionType \<Rightarrow> instant \<Rightarrow> bool" where
  "refilled_before rl i a t \<longleftrightarrow>
     (case hm_get (rl_buckets rl) (i, a) of None \<Rightarrow> True | Some b \<Rightarrow> tb_last_refill b \<le> t)"

lemma entry_level:
  assumes "limiter_ok rl" and "refilled_before rl i a t" and "t \<le> c"
  shows "bucket_level (bucket_entry rl i a c) c
           \<le> available rl i a t + as_secs_f64 (c - t) * cfg_refill_rate (RateLimitConfig_for_action a)"
    and "tb_last_refill (bucket_entry rl i a c) \<le> c"
proof -
  have pos: "0 \<le> as_secs_f64 (c - t) * cfg_refill_rate (RateLimitConfig_for_action a)"
    using action_config_pos(1) [of a] by simp
  show "bucket_level (bucket_entry rl i a c) c
      \<le> available rl i a t + as_secs_f64 (c - t) * cfg_refill_rate (RateLimitConfig_for_action a)"
  proof (cases "hm_get (rl_buckets rl) (i, a)")
    case None
    with pos show ?thesis
      by (simp add: bucket_entry_def available_def bucket_level_def TokenBucket_new_def as_secs_f64_def)
  next
    case (Some b)
    with assms limiter_ok_get(3) [OF assms(1) Some] bucket_level_later [of b t c] show ?thesis
      by (simp add: bucket_entry_def available_def refilled_before_def)
  qed
  show "tb_last_refill (bucket_entry rl i a c) \<le> c"
    using assms by (auto simp: bucket_entry_def refilled_before_def TokenBucket_new_def split: option.splits)
qed

lemma level_mono:
  assumes "bucket_ok b" and "tb_last_refill b \<le> s" and "s \<le> t"
  shows "bucket_level b s \<le> bucket_level b t"
  using assms bucket_level_later [of b s t] by (simp add: bucket_ok_def)

lemma check_level:
  assumes "bucket_ok b" and "tb_last_refill b \<le> clk 0"
    and "clk 0 \<le> clk 1" "clk 1 \<le> clk 2" "clk 2 \<le> clk 3" "clk 3 \<le> clk 4"
  shows "bucket_level (check_bucket b clk) (clk 4)
           + (if snd (TokenBucket_try_consume b (clk 1) (clk 2)) then 1 else 0)
         \<le> bucket_level b (clk 0) + as_secs_f64 (clk 4 - clk 0) * tb_refill_rate b"
    and "tb_last_refill (check_bucket b clk) \<le> clk 4"
proof -
  obtain b' ok where c: "TokenBucket_try_consume b (clk 1) (clk 2) = (b', ok)"
    by (cases "TokenBucket_try_consume b (clk 1) (clk 2)")
  note b' = bucket_level_consume [OF c]
  have cb: "check_bucket b clk = (if ok then b' else TokenBucket_refill b' (clk 3) (clk 4))"
    by (simp only: check_bucket_def c Let_def prod.case)
  have ok': "bucket_ok b'" using bucket_ok_try_consume [OF assms(1), of "clk 1" "clk 2"] c by simp
  let ?r = "tb_refill_rate b"
  have l1: "bucket_level b (clk 1) = bucket_level b (clk 0) + as_secs_f64 (clk 1 - clk 0) * ?r"
    using assms by (intro bucket_level_later)
  have l2: "bucket_level b' (clk 4) = bucket_level b' (clk 2) + as_secs_f64 (clk 4 - clk 2) * ?r"
    using assms b'(2,3) bucket_level_later [of b' "clk 2" "clk 4"] by simp
  have l3: "bucket_level (TokenBucket_refill b' (clk 3) (clk 4)) (clk 4) \<le> bucket_level b' (clk 4)"
    using bucket_level_refill [of b' "clk 3" "clk 4"] level_mono [of b' "clk 3" "clk 4"] ok' b'(2) assms
    by simp
  have t: "as_secs_f64 (clk 1 - clk 0) * ?r + as_secs_f64 (clk 4 - clk 2) * ?r
      \<le> as_secs_f64 (clk 4 - clk 0) * ?r"
    using as_secs_split [of "clk 0" "clk 1" "clk 4"] as_secs_split [of "clk 1" "clk 2" "clk 4"] assms
    by (simp add: bucket_ok_def algebra_simps)
  show "bucket_level (check_bucket b clk) (clk 4)
      + (if snd (TokenBucket_try_consume b (clk 1) (clk 2)) then 1 else 0)
      \<le> bucket_level b (clk 0) + as_secs_f64 (clk 4 - clk 0) * ?r"
    unfolding cb c snd_conv using l1 l2 l3 t b'(1) by (simp split: if_splits)
  show "tb_last_refill (check_bucket b clk) \<le> clk 4"
    unfolding cb using assms b'(2) by simp
qed

lemma peek_level:
  assumes "bucket_ok b" and "tb_last_refill b \<le> clk 0"
    and "clk 0 \<le> clk 1" "clk 1 \<le> clk 2" "clk 2 \<le> clk 4"
  shows "bucket_level (TokenBucket_refill b (clk 1) (clk 2)) (clk 4)
         \<le> bucket_level b (clk 0) + as_secs_f64 (clk 4 - clk 0) * tb_refill_rate b"
proof -
  have "bucket_level (TokenBucket_refill b (clk 1) (clk 2)) (clk 4)
      = bucket_level (TokenBucket_refill b (clk 1) (clk 2)) (clk 2) + as_secs_f64 (clk 4 - clk 2) * tb_refill_rate b"
    using assms bucket_level_later [of "TokenBucket_refill b (clk 1) (clk 2)" "clk 2" "clk 4"] by simp
  also have "\<dots> \<le> bucket_level b (clk 2) + as_secs_f64 (clk 4 - clk 2) * tb_refill_rate b"
    using bucket_level_refill [of b "clk 1" "clk 2"] level_mono [of b "clk 1" "clk 2"] assms by simp
  also have "\<dots> = bucket_level b (clk 4)"
    using assms by (intro bucket_level_later [symmetric]) simp_all
  also have "\<dots> = bucket_level b (clk 0) + as_secs_f64 (clk 4 - clk 0) * tb_refill_rate b"
    using assms by (intro bucket_level_later) simp_all
  finally show ?thesis .
qed

lemma other_key_level:
  assumes "limiter_ok rl" and "refilled_before rl i a t" and "t \<le> t'" and "k \<noteq> (i, a)"
  shows "available (rl\<lparr>rl_buckets := hm_insert k b (rl_buckets rl)\<rparr>) i a t'
           \<le> available rl i a t + as_secs_f64 (t' - t) * cfg_refill_rate (RateLimitConfig_for_action a)"
    and "refilled_before (rl\<lparr>rl_buckets := hm_insert k b (rl_buckets rl)\<rparr>) i a t'"
  using assms action_config_pos(1) [of a] bucket_level_later [of _ t t'] limiter_ok_get(3) [OF assms(1)]
  by (auto simp: available_def refilled_before_def split: option.splits)

lemma own_key_level:
  assumes "limiter_ok rl" and "refilled_before rl i a t" and "t \<le> c" and "c \<le> t'"
    and "bucket_level b t' + n \<le> bucket_level (bucket_entry rl i a c) c
           + as_secs_f64 (t' - c) * tb_refill_rate (bucket_entry rl i a c)"
  shows "available (rl\<lparr>rl_buckets := hm_insert (i, a) b (rl_buckets rl)\<rparr>) i a t' + n
           \<le> available rl i a t + as_secs_f64 (t' - t) * cfg_refill_rate (RateLimitConfig_for_action a)"
  using entry_level(1) [OF assms(1-3)] assms(5) as_secs_split [OF assms(3,4)]
  by (simp add: available_def bucket_entry_ok(3) [OF assms(1)] algebra_simps)

lemma limiter_step_level:
  assumes "limiter_ok rl" and "refilled_before rl i a t" and "readings_from t [(op, clk)]"
  shows "available (limiter_step rl op clk) i a (clk 4) + (if step_allows rl op clk i a then 1 else 0)
           \<le> available rl i a t + as_secs_f64 (clk 4 - t) * cfg_refill_rate (RateLimitConfig_for_action a)"
    and "refilled_before (limiter_step rl op clk) i a (clk 4)" and "limiter_ok (limiter_step rl op clk)"
proof -
  let ?e = "bucket_entry rl i a (clk 0)"
  have t: "t \<le> clk 0" "clk 0 \<le> clk 1" "clk 1 \<le> clk 2" "clk 2 \<le> clk 3" "clk 3 \<le> clk 4"
      "clk 2 \<le> clk 4" "clk 0 \<le> clk 4" "t \<le> clk 4"
    using assms(3) by auto
  note entry = bucket_entry_ok [OF assms(1), of i a "clk 0"] entry_level(2) [OF assms(1,2) t(1)]
  show "limiter_ok (limiter_step rl op clk)"
    using assms(1) by (cases op) (simp_all add: limiter_ok_check limiter_ok_would_allow)
  consider "op = Check i a" | "op = Peek i a" | j b where "(j, b) \<noteq> (i, a)" "op = Check j b \<or> op = Peek j b"
    by (cases op) auto
  then have "available (limiter_step rl op clk) i a (clk 4) + (if step_allows rl op clk i a then 1 else 0)
           \<le> available rl i a t + as_secs_f64 (clk 4 - t) * cfg_refill_rate (RateLimitConfig_for_action a)
         \<and> refilled_before (limiter_step rl op clk) i a (clk 4)"
  proof cases
    case 1
    have "step_allows rl op clk i a \<longleftrightarrow> snd (TokenBucket_try_consume ?e (clk 1) (clk 2))"
      unfolding step_allows_def check_stores(2) by (simp add: 1)
    with own_key_level [OF assms(1,2) t(1,7) check_level(1) [of ?e clk]] check_level(2) [of ?e clk] entry t
    show ?thesis by (simp add: 1 check_stores(1) refilled_before_def)
  next
    case 2
    then have "\<not> step_allows rl op clk i a" by (simp add: step_allows_def)
    moreover have p: "bucket_level (TokenBucket_refill ?e (clk 1) (clk 2)) (clk 4) + 0
        \<le> bucket_level ?e (clk 0) + as_secs_f64 (clk 4 - clk 0) * tb_refill_rate ?e"
      using peek_level [of ?e clk] entry t by simp
    ultimately show ?thesis
      using own_key_level [OF assms(1,2) t(1,7) p] t 2
      by (simp add: RateLimiter_would_allow_def Let_def refilled_before_def)
  next
    case 3
    then have "\<not> step_allows rl op clk i a" by (auto simp: step_allows_def)
    moreover obtain b' where "limiter_step rl op clk = rl\<lparr>rl_buckets := hm_insert (j, b) b' (rl_buckets rl)\<rparr>"
      using 3(2) by (auto simp: check_stores RateLimiter_would_allow_def Let_def)
    ultimately show ?thesis
      using other_key_level [OF assms(1,2) t(8) 3(1)] by simp
  qed
  then show "available (limiter_step rl op clk) i a (clk 4) + (if step_allows rl op clk i a then 1 else 0)
           \<le> available rl i a t + as_secs_f64 (clk 4 - t) * cfg_refill_rate (RateLimitConfig_for_action a)"
    and "refilled_before (limiter_step rl op clk) i a (clk 4)" by blast+
qed

lemma last_reading_ge: "readings_from t ops \<Longrightarrow> t \<le> last_reading t ops"
  by (induction t ops rule: last_reading.induct) (auto intro: order_trans)

lemma available_nonneg: "limiter_ok rl \<Longrightarrow> 0 \<le> available rl i a t"
  by (auto simp: available_def bucket_level_nonneg limiter_ok_get split: option.split)

lemma allowed_bound:
  assumes "limiter_ok rl" and "refilled_before rl i a t" and "readings_from t ops"
  shows "of_nat (allowed_count rl ops i a)
           \<le> available rl i a t + as_secs_f64 (last_reading t ops - t) * cfg_refill_rate (RateLimitConfig_for_action a)"
  using assms
proof (induction ops arbitrary: rl t)
  case Nil
  then show ?case using available_nonneg [of rl i a t] by (simp add: as_secs_f64_def)
next
  case (Cons oc ops)
  obtain op clk where oc: "oc = (op, clk)" by (cases oc)
  have st: "readings_from t [(op, clk)]" and rest: "readings_from (clk 4) ops" and "t \<le> clk 4"
    using Cons.prems(3) by (auto simp: oc)
  note step = limiter_step_level [OF Cons.prems(1,2) st]
  have "as_secs_f64 (last_reading (clk 4) ops - t)
      = as_secs_f64 (clk 4 - t) + as_secs_f64 (last_reading (clk 4) ops - clk 4)"
    using \<open>t \<le> clk 4\<close> last_reading_ge [OF rest] by (rule as_secs_split)
  with Cons.IH [OF step(3,2) rest] step(1) show ?case
    by (simp add: oc algebra_simps split: if_splits)
qed

section \<open>Theorems\<close>

text \<open>C8: the rate limit holds: starting from an empty limiter, over any interleaving of checks and peeks by any
  identities, the number of actions of one kind that are allowed to one identity is at most the burst
  capacity plus the refill rate times the elapsed seconds.\<close>

theorem rate_limit_bound:
  assumes "readings_from t ops"
  shows "of_nat (allowed_count RateLimiter_new ops i a)
           \<le> of_nat (unat (cfg_capacity (RateLimitConfig_for_action a)))
             + as_secs_f64 (last_reading t ops - t) * cfg_refill_rate (RateLimitConfig_for_action a)"
  using allowed_bound [OF limiter_ok_new _ assms, of i a]
  by (simp add: available_def refilled_before_def RateLimiter_new_def)


section \<open>Witnesses\<close>

theorem rate_limit_bound_witness:
  "allowed_count RateLimiter_new
     [(Check (IdentityKey []) MessageRequest, \<lambda>_. 5), (Check (IdentityKey []) MessageRequest, \<lambda>_. 6)]
     (IdentityKey []) MessageRequest \<le> 1"
proof -
  let ?ops = "[(Check (IdentityKey []) MessageRequest, \<lambda>_::nat. 5 :: nat),
      (Check (IdentityKey []) MessageRequest, \<lambda>_. 6)]"
  have "of_nat (allowed_count RateLimiter_new ?ops (IdentityKey []) MessageRequest) \<le> (1 + 1 / 720000000000 :: rat)"
    using rate_limit_bound [of 5 ?ops "IdentityKey []" MessageRequest]
    by (simp add: as_secs_f64_def)
  also have "\<dots> < of_nat 2" by simp
  finally show ?thesis by (simp only: of_nat_less_iff)
qed


end
