(* ===== verification/Rust_Strings.thy ===== *)
theory Rust_Strings
  imports Prelude
begin

text \<open>
  Rust strings. A \<^verbatim>\<open>char\<close> is a Unicode scalar value, a \<^verbatim>\<open>str\<close> the list of its characters;
  \<^verbatim>\<open>len()\<close> counts UTF-8 bytes, \<^verbatim>\<open>chars().count()\<close> characters. The whitespace test is the
  Unicode \<^verbatim>\<open>White_Space\<close> property, as in \<^verbatim>\<open>char::is_whitespace\<close>.
\<close>

type_synonym rchar = nat
type_synonym rstr = "nat list"

definition of_ascii :: "string \<Rightarrow> rstr" where
  "of_ascii s = map of_char s"

definition utf8_char :: "rchar \<Rightarrow> bytes" where
  "utf8_char c =
     (if c < 0x80 then [of_nat c]
      else if c < 0x800 then [of_nat (0xC0 + c div 64), of_nat (0x80 + c mod 64)]
      else if c < 0x10000
        then [of_nat (0xE0 + c div 4096), of_nat (0x80 + c div 64 mod 64), of_nat (0x80 + c mod 64)]
      else [of_nat (0xF0 + c div 262144), of_nat (0x80 + c div 4096 mod 64),
            of_nat (0x80 + c div 64 mod 64), of_nat (0x80 + c mod 64)])"

definition as_bytes :: "rstr \<Rightarrow> bytes" where
  "as_bytes s = concat (map utf8_char s)"

definition str_len :: "rstr \<Rightarrow> nat" where
  "str_len s = length (as_bytes s)"

definition char_count :: "rstr \<Rightarrow> nat" where
  "char_count s = length s"

definition is_whitespace :: "rchar \<Rightarrow> bool" where
  "is_whitespace c \<longleftrightarrow>
     9 \<le> c \<and> c \<le> 13 \<or> c = 0x20 \<or> c = 0x85 \<or> c = 0xA0 \<or> c = 0x1680
     \<or> 0x2000 \<le> c \<and> c \<le> 0x200A \<or> c = 0x2028 \<or> c = 0x2029 \<or> c = 0x202F \<or> c = 0x205F \<or> c = 0x3000"

text \<open>\<^verbatim>\<open>split_whitespace\<close>: the maximal runs of non-whitespace characters, in order.\<close>

fun split_ws :: "rstr \<Rightarrow> rstr \<Rightarrow> rstr list" where
  "split_ws cur [] = (if cur = [] then [] else [rev cur])"
| "split_ws cur (c # cs) =
     (if is_whitespace c then (if cur = [] then split_ws [] cs else rev cur # split_ws [] cs)
      else split_ws (c # cur) cs)"

definition split_whitespace :: "rstr \<Rightarrow> rstr list" where
  "split_whitespace s = split_ws [] s"

definition trim :: "rstr \<Rightarrow> rstr" where
  "trim s = rev (dropWhile is_whitespace (rev (dropWhile is_whitespace s)))"

text \<open>\<^verbatim>\<open>str::lines\<close>: split at line feeds, a trailing carriage return of a line is dropped, and a final
  line feed does not start a further line.\<close>

definition chomp_cr :: "rstr \<Rightarrow> rstr" where
  "chomp_cr l = (if l \<noteq> [] \<and> last l = 13 then butlast l else l)"

fun split_lines :: "rstr \<Rightarrow> rstr \<Rightarrow> rstr list" where
  "split_lines cur [] = (if cur = [] then [] else [rev cur])"
| "split_lines cur (c # cs) = (if c = 10 then chomp_cr (rev cur) # split_lines [] cs else split_lines (c # cur) cs)"

definition str_lines :: "rstr \<Rightarrow> rstr list" where
  "str_lines s = split_lines [] s"

fun join_nl :: "rstr list \<Rightarrow> rstr" where
  "join_nl [] = []"
| "join_nl [l] = l"
| "join_nl (l # ls) = l @ 10 # join_nl ls"

text \<open>Decimal output of an unsigned integer, as \<^verbatim>\<open>format!\<close> prints it.\<close>

fun show_nat :: "nat \<Rightarrow> string" where
  "show_nat n = (if n < 10 then [char_of (48 + n)] else show_nat (n div 10) @ [char_of (48 + n mod 10)])"

declare show_nat.simps [simp del]

lemma str_len_ascii: "\<forall>c \<in> set s. c < 128 \<Longrightarrow> str_len s = length s"
  by (induction s) (auto simp: str_len_def as_bytes_def utf8_char_def)

lemma str_len_ge: "length s \<le> str_len s"
  by (induction s) (auto simp: str_len_def as_bytes_def utf8_char_def)

section \<open>Decoding UTF-8: \<^verbatim>\<open>String::from_utf8\<close>\<close>

text \<open>A scalar value is a code point outside the surrogates. Overlong forms, surrogates and values above the last code
  point are refused, as is an incomplete sequence.\<close>

definition scalar_value :: "rchar \<Rightarrow> bool" where
  "scalar_value c \<longleftrightarrow> c < 0xD800 \<or> 0xE000 \<le> c \<and> c < 0x110000"

definition cont :: "nat \<Rightarrow> bool" where
  "cont b \<longleftrightarrow> 0x80 \<le> b \<and> b < 0xC0"

fun utf8_decode :: "nat list \<Rightarrow> rstr option" where
  "utf8_decode [] = Some []"
| "utf8_decode (a # r) =
     (if a < 0x80 then map_option ((#) a) (utf8_decode r)
      else if a < 0xE0 then
        (case r of
           b # r' \<Rightarrow>
             (let v = (a - 0xC0) * 64 + (b - 0x80) in
              if 0xC2 \<le> a \<and> cont b then map_option ((#) v) (utf8_decode r') else None)
         | _ \<Rightarrow> None)
      else if a < 0xF0 then
        (case r of
           b # c # r' \<Rightarrow>
             (let v = (a - 0xE0) * 4096 + (b - 0x80) * 64 + (c - 0x80) in
              if cont b \<and> cont c \<and> 0x800 \<le> v \<and> scalar_value v then map_option ((#) v) (utf8_decode r') else None)
         | _ \<Rightarrow> None)
      else
        (case r of
           b # c # d # r' \<Rightarrow>
             (let v = (a - 0xF0) * 262144 + (b - 0x80) * 4096 + (c - 0x80) * 64 + (d - 0x80) in
              if cont b \<and> cont c \<and> cont d \<and> 0x10000 \<le> v \<and> scalar_value v then map_option ((#) v) (utf8_decode r') else None)
         | _ \<Rightarrow> None))"

declare utf8_decode.simps(2) [simp del]

definition from_utf8 :: "bytes \<Rightarrow> rstr option" where
  "from_utf8 bs = utf8_decode (map unat bs)"

lemma unat_of_nat_byte: "n < 256 \<Longrightarrow> unat (of_nat n :: u8) = n"
  by (simp add: unsigned_of_nat take_bit_nat_eq_self)

lemma utf8_char_nats:
  "c < 0x80 \<Longrightarrow> map unat (utf8_char c) = [c]"
  "0x80 \<le> c \<Longrightarrow> c < 0x800 \<Longrightarrow> map unat (utf8_char c) = [0xC0 + c div 64, 0x80 + c mod 64]"
  "0x800 \<le> c \<Longrightarrow> c < 0x10000 \<Longrightarrow>
     map unat (utf8_char c) = [0xE0 + c div 4096, 0x80 + c div 64 mod 64, 0x80 + c mod 64]"
  "0x10000 \<le> c \<Longrightarrow> c < 0x110000 \<Longrightarrow>
     map unat (utf8_char c) = [0xF0 + c div 262144, 0x80 + c div 4096 mod 64, 0x80 + c div 64 mod 64, 0x80 + c mod 64]"
proof -
  have mod: "0x80 + n mod 64 < 256" for n :: nat
    using mod_less_divisor [of 64 n] by linarith
  have div: "0xC0 + c div 64 < 256" if "c < 0x800" using that by (simp add: div_less_iff_less_mult less_diff_conv)
  have div3: "0xE0 + c div 4096 < 256" if "c < 0x10000" using that by linarith
  have div4: "0xF0 + c div 262144 < 256" if "c < 0x110000" using that by linarith
  show "c < 0x80 \<Longrightarrow> map unat (utf8_char c) = [c]"
    by (simp add: utf8_char_def unat_of_nat_byte)
  show "0x80 \<le> c \<Longrightarrow> c < 0x800 \<Longrightarrow> map unat (utf8_char c) = [0xC0 + c div 64, 0x80 + c mod 64]"
    by (simp add: utf8_char_def unat_of_nat_byte mod div del: of_nat_add)
  show "0x800 \<le> c \<Longrightarrow> c < 0x10000 \<Longrightarrow>
     map unat (utf8_char c) = [0xE0 + c div 4096, 0x80 + c div 64 mod 64, 0x80 + c mod 64]"
    by (simp add: utf8_char_def unat_of_nat_byte mod div3 del: of_nat_add)
  show "0x10000 \<le> c \<Longrightarrow> c < 0x110000 \<Longrightarrow>
     map unat (utf8_char c) = [0xF0 + c div 262144, 0x80 + c div 4096 mod 64, 0x80 + c div 64 mod 64, 0x80 + c mod 64]"
    by (simp add: utf8_char_def unat_of_nat_byte mod div4 del: of_nat_add)
qed

lemma cont_byte [simp]: "cont (0x80 + n mod 64)"
  by (simp add: cont_def)

lemma utf8_decode_char:
  assumes "scalar_value c"
  shows "utf8_decode (map unat (utf8_char c) @ r) = map_option ((#) c) (utf8_decode r)"
proof -
  have hi: "c < 0x110000"
    using assms by (auto simp: scalar_value_def)
  have digits: "c div 64 * 64 + c mod 64 = c" "c div 4096 * 64 + c div 64 mod 64 = c div 64"
      "c div 262144 * 64 + c div 4096 mod 64 = c div 4096"
    using div_mult_mod_eq [of "c div 64" 64] div_mult_mod_eq [of "c div 4096" 64]
    by (simp_all flip: div_mult2_eq)
  consider "c < 0x80" | "0x80 \<le> c" "c < 0x800" | "0x800 \<le> c" "c < 0x10000" | "0x10000 \<le> c"
    by linarith
  then show ?thesis
  proof cases
    case 1
    then show ?thesis
      by (simp add: utf8_char_nats utf8_decode.simps)
  next
    case 2
    have "c div 64 < 32" "2 \<le> c div 64"
      using 2 by linarith+
    moreover have "c div 64 * 64 + c mod 64 = c"
      by simp
    ultimately show ?thesis
      using 2 by (simp add: utf8_char_nats utf8_decode.simps(2) [of "0xC0 + c div 64"] Let_def) linarith
  next
    case 3
    have "c div 4096 < 16"
      using 3 by linarith
    moreover have "c div 4096 * 4096 + c div 64 mod 64 * 64 + c mod 64 = c"
      using digits(1,2) by linarith
    ultimately show ?thesis
      using 3 assms by (simp add: utf8_char_nats utf8_decode.simps(2) [of "0xE0 + c div 4096"] Let_def)
  next
    case 4
    have "c div 262144 < 5"
      using hi by linarith
    moreover have "c div 262144 * 262144 + c div 4096 mod 64 * 4096 + c div 64 mod 64 * 64 + c mod 64 = c"
      using digits by linarith
    ultimately show ?thesis
      using 4 hi assms by (simp add: utf8_char_nats utf8_decode.simps(2) [of "0xF0 + c div 262144"] Let_def)
  qed
qed

lemma from_utf8_as_bytes:
  assumes "\<forall>c \<in> set s. scalar_value c"
  shows "from_utf8 (as_bytes s) = Some s"
  using assms by (induction s) (simp_all add: from_utf8_def as_bytes_def utf8_decode_char)

end
