(* ===== verification/Fingerprint.thy ===== *)
theory Fingerprint
  imports Rust_Strings "HOL-Library.Multiset"
begin

text \<open>
  Crate \<^verbatim>\<open>ephemera-abuse\<close>, file \<^verbatim>\<open>fingerprint.rs\<close>: SimHash fingerprints of texts and the rolling
  window of recent fingerprints used to detect near-duplicate posts. BLAKE3 is a parameter
  \<open>blake3\<close> of every definition that hashes. The per-bit sums are integers (\<^verbatim>\<open>i32\<close> in the code, whose
  range a text of fewer than \<open>2 ^ 31\<close> words cannot leave).
\<close>

type_synonym hash_fn = "bytes \<Rightarrow> bytes"

definition MAX_RECENT_FINGERPRINTS :: nat where "MAX_RECENT_FINGERPRINTS = 10000"
definition NEAR_DUPLICATE_THRESHOLD :: nat where "NEAR_DUPLICATE_THRESHOLD = 3"

datatype ContentFingerprint = ContentFingerprint (fp_bits: u64)

definition hash_token :: "hash_fn \<Rightarrow> rstr \<Rightarrow> u64" where
  "hash_token blake3 token = from_le_bytes (take 8 (blake3 (as_bytes token)))"

definition add_token :: "u64 \<Rightarrow> int list \<Rightarrow> int list" where
  "add_token hash v = map (\<lambda>(i, slot). if bit hash i then slot + 1 else slot - 1) (enumerate 0 v)"

definition Fingerprint_compute :: "hash_fn \<Rightarrow> rstr \<Rightarrow> ContentFingerprint" where
  "Fingerprint_compute blake3 text =
     (let v = foldl (\<lambda>v token. add_token (hash_token blake3 token) v) (replicate 64 0) (split_whitespace text)
      in ContentFingerprint
           (foldl (\<lambda>fingerprint (i, count). if count > 0 then fingerprint OR push_bit i 1 else fingerprint)
              0 (enumerate 0 v)))"

definition hamming_distance :: "ContentFingerprint \<Rightarrow> ContentFingerprint \<Rightarrow> nat" where
  "hamming_distance a b = count_ones (fp_bits a XOR fp_bits b)"

definition is_near_duplicate :: "ContentFingerprint \<Rightarrow> ContentFingerprint \<Rightarrow> bool" where
  "is_near_duplicate a b \<longleftrightarrow> hamming_distance a b \<le> NEAR_DUPLICATE_THRESHOLD"

record FingerprintStore =
  fs_recent :: "ContentFingerprint list"
  fs_max_size :: nat

definition FingerprintStore_new :: FingerprintStore where
  "FingerprintStore_new = \<lparr>fs_recent = [], fs_max_size = MAX_RECENT_FINGERPRINTS\<rparr>"

definition FingerprintStore_with_capacity :: "nat \<Rightarrow> FingerprintStore" where
  "FingerprintStore_with_capacity max_size = \<lparr>fs_recent = [], fs_max_size = max_size\<rparr>"

definition check_duplicate :: "hash_fn \<Rightarrow> FingerprintStore \<Rightarrow> rstr \<Rightarrow> ContentFingerprint option" where
  "check_duplicate blake3 s text =
     (let fp = Fingerprint_compute blake3 text
      in find (\<lambda>existing. is_near_duplicate fp existing) (fs_recent s))"

definition fingerprint_record :: "hash_fn \<Rightarrow> FingerprintStore \<Rightarrow> rstr \<Rightarrow> FingerprintStore \<times> ContentFingerprint" where
  "fingerprint_record blake3 s text =
     (let fp = Fingerprint_compute blake3 text;
          recent = (if length (fs_recent s) \<ge> fs_max_size s then drop 1 (fs_recent s) else fs_recent s)
      in (s\<lparr>fs_recent := recent @ [fp]\<rparr>, fp))"

definition check_and_record :: "hash_fn \<Rightarrow> FingerprintStore \<Rightarrow> rstr \<Rightarrow> FingerprintStore \<times> bool" where
  "check_and_record blake3 s text =
     (let is_dup = check_duplicate blake3 s text \<noteq> None;
          s = fst (fingerprint_record blake3 s text)
      in (s, is_dup))"

definition FingerprintStore_clear :: "FingerprintStore \<Rightarrow> FingerprintStore" where
  "FingerprintStore_clear s = s\<lparr>fs_recent := []\<rparr>"

section \<open>The fingerprint as a majority vote\<close>

definition bit_vote :: "hash_fn \<Rightarrow> nat \<Rightarrow> rstr \<Rightarrow> int" where
  "bit_vote blake3 i token = (if bit (hash_token blake3 token) i then 1 else - 1)"

lemma add_token_nth: "i < length v \<Longrightarrow> add_token h v ! i = v ! i + (if bit h i then 1 else - 1)"
  by (simp add: add_token_def nth_enumerate_eq)

lemma length_add_token [simp]: "length (add_token h v) = length v"
  by (simp add: add_token_def)

lemma tally_nth:
  "i < length v \<Longrightarrow>
     foldl (\<lambda>v token. add_token (hash_token blake3 token) v) v ts ! i = v ! i + sum_list (map (bit_vote blake3 i) ts)"
  by (induction ts arbitrary: v) (simp_all add: add_token_nth bit_vote_def)

lemma length_tally: "length (foldl (\<lambda>v token. add_token (h token) v) v ts) = length v"
  by (induction ts arbitrary: v) simp_all

lemma bit_set_positive:
  "bit (foldl (\<lambda>f (i, c). if c > (0 :: int) then f OR push_bit i 1 else f) (f :: u64) (enumerate k v)) n
     \<longleftrightarrow> bit f n \<or> (n < 64 \<and> k \<le> n \<and> n < k + length v \<and> v ! (n - k) > 0)"
proof (induction v arbitrary: f k)
  case (Cons c v)
  let ?f = "if c > 0 then f OR push_bit k 1 else f"
  have f: "bit ?f n \<longleftrightarrow> bit f n \<or> (n < 64 \<and> n = k \<and> c > 0)"
    by (auto simp: bit_simps)
  have step: "foldl (\<lambda>f (i, c). if c > 0 then f OR push_bit i 1 else f) f (enumerate k (c # v))
      = foldl (\<lambda>f (i, c). if c > 0 then f OR push_bit i 1 else f) ?f (enumerate (Suc k) v)"
    by simp
  show ?case
    unfolding step Cons.IH f by (cases "n = k") (auto simp: nth_Cons')
qed auto

lemma fingerprint_bit:
  assumes "i < 64"
  shows "bit (fp_bits (Fingerprint_compute blake3 text)) i
           \<longleftrightarrow> 0 < sum_list (map (bit_vote blake3 i) (split_whitespace text))"
  using assms by (simp add: Fingerprint_compute_def Let_def bit_set_positive length_tally tally_nth)

lemma count_ones_card: "count_ones (w :: 'a::len word) = card {i. bit w i}"
proof -
  have "{i. bit w i} = set (filter (bit w) [0..<LENGTH('a)])"
    by (auto dest: bit_word_bound)
  then show ?thesis by (simp only: count_ones_def distinct_card distinct_filter distinct_upt)
qed

lemma finite_bits: "finite {i. bit (w :: 'a::len word) i}"
  by (rule finite_subset [of _ "{..<LENGTH('a)}"]) (auto dest: bit_word_bound)

lemma hamming_triangle: "hamming_distance a c \<le> hamming_distance a b + hamming_distance b c"
proof -
  have "{i. bit (fp_bits a XOR fp_bits c) i}
      \<subseteq> {i. bit (fp_bits a XOR fp_bits b) i} \<union> {i. bit (fp_bits b XOR fp_bits c) i}"
    by (auto simp: bit_xor_iff)
  then have "card {i. bit (fp_bits a XOR fp_bits c) i}
      \<le> card ({i. bit (fp_bits a XOR fp_bits b) i} \<union> {i. bit (fp_bits b XOR fp_bits c) i})"
    by (intro card_mono) (simp_all add: finite_bits)
  also have "\<dots> \<le> card {i. bit (fp_bits a XOR fp_bits b) i} + card {i. bit (fp_bits b XOR fp_bits c) i}"
    by (rule card_Un_le)
  finally show ?thesis by (simp add: hamming_distance_def count_ones_card)
qed

section \<open>The window\<close>

fun record_all :: "hash_fn \<Rightarrow> FingerprintStore \<Rightarrow> rstr list \<Rightarrow> FingerprintStore" where
  "record_all blake3 s [] = s"
| "record_all blake3 s (t # ts) = record_all blake3 (fst (fingerprint_record blake3 s t)) ts"

definition last_n :: "nat \<Rightarrow> 'a list \<Rightarrow> 'a list" where
  "last_n n xs = drop (length xs - n) xs"

lemma last_n_append: "last_n n (last_n n xs @ ys) = last_n n (xs @ ys)"
proof (cases "length xs \<le> n")
  case False
  then have "length xs + length ys - n = length xs - n + length ys" by simp
  with False show ?thesis by (simp add: last_n_def add.commute)
qed (simp add: last_n_def)

lemma length_last_n: "length (last_n n xs) \<le> n"
  by (simp add: last_n_def)

lemma record_one:
  assumes "0 < fs_max_size s" and "length (fs_recent s) \<le> fs_max_size s"
  shows "fs_recent (fst (fingerprint_record blake3 s t))
           = last_n (fs_max_size s) (fs_recent s @ [Fingerprint_compute blake3 t])"
    and "fs_max_size (fst (fingerprint_record blake3 s t)) = fs_max_size s"
  using assms by (auto simp: fingerprint_record_def Let_def last_n_def drop_Suc drop_tl)

lemma record_window:
  assumes "0 < fs_max_size s" and "length (fs_recent s) \<le> fs_max_size s"
  shows "fs_recent (record_all blake3 s ts)
           = last_n (fs_max_size s) (fs_recent s @ map (Fingerprint_compute blake3) ts)"
  using assms
proof (induction ts arbitrary: s)
  case (Cons t ts)
  then show ?case
    using Cons.IH [of "fst (fingerprint_record blake3 s t)"]
    by (simp add: record_one length_last_n last_n_append)
qed (simp add: last_n_def)

section \<open>Theorems\<close>


lemma near_duplicate_self: "is_near_duplicate f f"
  by (simp add: is_near_duplicate_def hamming_distance_def)

lemma record_all_max: "fs_max_size (record_all blake3 s ts) = fs_max_size s"
  by (induction ts arbitrary: s) (simp_all add: fingerprint_record_def Let_def)

text \<open>The store is a sliding window: after recording any sequence of texts it holds exactly the fingerprints
  of the most recent ones, at most the capacity, and every text recorded within the last
  \<^verbatim>\<open>max_size\<close> records is reported as a duplicate.\<close>

theorem fingerprint_window:
  assumes "0 < n"
  shows "fs_recent (record_all blake3 (FingerprintStore_with_capacity n) ts)
           = last_n n (map (Fingerprint_compute blake3) ts)
         \<and> length (fs_recent (record_all blake3 (FingerprintStore_with_capacity n) ts)) \<le> n
         \<and> (t \<in> set (last_n n ts) \<longrightarrow>
              check_duplicate blake3 (record_all blake3 (FingerprintStore_with_capacity n) ts) t \<noteq> None)"
proof -
  let ?s = "FingerprintStore_with_capacity n"
  have w: "fs_recent (record_all blake3 ?s ts) = last_n n (map (Fingerprint_compute blake3) ts)"
    using record_window [of ?s blake3 ts] assms by (simp add: FingerprintStore_with_capacity_def)
  have "check_duplicate blake3 (record_all blake3 ?s ts) t \<noteq> None" if "t \<in> set (last_n n ts)"
  proof -
    have "Fingerprint_compute blake3 t \<in> set (fs_recent (record_all blake3 ?s ts))"
      using that by (auto simp: w last_n_def drop_map)
    then show ?thesis
      unfolding check_duplicate_def Let_def find_None_iff using near_duplicate_self by blast
  qed
  with w show ?thesis by (simp add: last_n_def)
qed

section \<open>Witnesses\<close>


theorem fingerprint_window_witness:
  "check_duplicate (\<lambda>bs. bs) (record_all (\<lambda>bs. bs) (FingerprintStore_with_capacity 2)
     [of_ascii ''a'', of_ascii ''b'', of_ascii ''c'']) (of_ascii ''b'') \<noteq> None"
  using fingerprint_window [of 2 "\<lambda>bs. bs" "[of_ascii ''a'', of_ascii ''b'', of_ascii ''c'']" "of_ascii ''b''"]
  by (simp add: last_n_def of_ascii_def)

end
