(* ===== verification/Pow.thy ===== *)
theory Pow
  imports Time_Types Rate_Limit Fingerprint
begin

text \<open>
  The two proof-of-work schemes: \<^verbatim>\<open>ephemera-abuse/src/pow.rs\<close> (BLAKE3, the stamp carries its hash) and
  \<^verbatim>\<open>ephemera-crypto/src/pow.rs\<close> (Argon2id, used for handles and posts). The hash functions are
  parameters. Both search loops count a wrapping 64-bit nonce from 0 and may run forever, so they are
  \<open>partial_function (option)\<close> definitions in which not returning is \<open>None\<close>; the locale \<open>nonce_loop\<close>
  holds what the two loops share.
\<close>

section \<open>\<^verbatim>\<open>ephemera-abuse\<close>: BLAKE3 stamps\<close>

definition IDENTITY_CREATION :: u32 where "IDENTITY_CREATION = 24"
definition POST_CREATION :: u32 where "POST_CREATION = 16"
definition REACTION :: u32 where "REACTION = 12"
definition MESSAGE_REQUEST :: u32 where "MESSAGE_REQUEST = 22"
definition CONNECTION_REQUEST :: u32 where "CONNECTION_REQUEST = 18"
definition DM_MUTUAL :: u32 where "DM_MUTUAL = 14"

definition PowDifficulty_adjusted :: "u32 \<Rightarrow> u32 \<Rightarrow> u32" where
  "PowDifficulty_adjusted base recent_actions =
     (let multiplier =
        (if recent_actions \<le> 10 then 0
         else if recent_actions \<le> 50 then 1
         else if recent_actions \<le> 200 then 2
         else 3)
      in min (base + multiplier) 30)"

record PowChallenge =
  pc_data :: bytes
  pc_difficulty :: u32

record AbusePowStamp =
  aps_nonce :: bytes
  aps_hash :: bytes
  aps_difficulty :: u32

definition compute_hash :: "hash_fn \<Rightarrow> bytes \<Rightarrow> bytes \<Rightarrow> bytes" where
  "compute_hash blake3 data nonce = blake3 (data @ nonce)"

fun count_leading_zeros :: "bytes \<Rightarrow> nat" where
  "count_leading_zeros [] = 0"
| "count_leading_zeros (byte # hash) = (if byte = 0 then 8 + count_leading_zeros hash else leading_zeros byte)"

text \<open>A zeroed nonce array of \<open>n\<close> bytes whose first eight bytes are the counter.\<close>

definition nonce_bytes :: "nat \<Rightarrow> u64 \<Rightarrow> bytes" where
  "nonce_bytes n counter = to_le_bytes 8 counter @ replicate (n - 8) 0"

partial_function (option) pow_generate_loop :: "hash_fn \<Rightarrow> PowChallenge \<Rightarrow> u64 \<Rightarrow> AbusePowStamp option" where
  "pow_generate_loop blake3 challenge nonce_counter =
     (let nonce = nonce_bytes 32 nonce_counter;
          hash = compute_hash blake3 (pc_data challenge) nonce
      in if count_leading_zeros hash \<ge> unat (pc_difficulty challenge)
         then Some \<lparr>aps_nonce = nonce, aps_hash = hash, aps_difficulty = pc_difficulty challenge\<rparr>
         else pow_generate_loop blake3 challenge (nonce_counter + 1))"

definition ProofOfWork_generate :: "hash_fn \<Rightarrow> PowChallenge \<Rightarrow> AbusePowStamp option" where
  "ProofOfWork_generate blake3 challenge = pow_generate_loop blake3 challenge 0"

definition ProofOfWork_verify :: "hash_fn \<Rightarrow> bytes \<Rightarrow> AbusePowStamp \<Rightarrow> AbuseError + unit" where
  "ProofOfWork_verify blake3 challenge_data stamp =
     (let hash = compute_hash blake3 challenge_data (aps_nonce stamp)
      in if hash \<noteq> aps_hash stamp then Inl (PowInvalid ''hash mismatch'')
         else let zeros = count_leading_zeros hash
              in if zeros < unat (aps_difficulty stamp)
                 then Inl (PowInvalid (''insufficient difficulty: need '' @ show_nat (unat (aps_difficulty stamp))
                        @ '' leading zeros, got '' @ show_nat zeros))
                 else Inr ())"

section \<open>\<^verbatim>\<open>ephemera-crypto\<close>: Argon2id stamps\<close>

type_synonym argon2_fn = "bytes \<Rightarrow> bytes \<Rightarrow> bytes"

record PowStamp =
  ps_challenge :: bytes
  ps_nonce :: bytes
  ps_difficulty :: u32

definition has_leading_zeros :: "bytes \<Rightarrow> u32 \<Rightarrow> bool" where
  "has_leading_zeros hash difficulty =
     (let full_bytes = unat (difficulty div 8);
          remaining_bits = unat (difficulty mod 8)
      in if list_ex (\<lambda>byte. byte \<noteq> 0) (take (min full_bytes (length hash)) hash) then False
         else if remaining_bits > 0 \<and> full_bytes < length hash
              then let mask = push_bit (8 - remaining_bits) (0xFF :: u8)
                   in if hash ! full_bytes AND mask \<noteq> 0 then False else True
              else True)"

partial_function (option) generate_pow_loop :: "argon2_fn \<Rightarrow> bytes \<Rightarrow> u32 \<Rightarrow> u64 \<Rightarrow> PowStamp option" where
  "generate_pow_loop pow_hash challenge difficulty counter =
     (let nonce = nonce_bytes 16 counter;
          hash = pow_hash challenge nonce
      in if has_leading_zeros hash difficulty
         then Some \<lparr>ps_challenge = challenge, ps_nonce = nonce, ps_difficulty = difficulty\<rparr>
         else generate_pow_loop pow_hash challenge difficulty (counter + 1))"

text \<open>\<open>None\<close>: the loop never ends; \<open>Some (Inl msg)\<close>: the assertion panics.\<close>

definition generate_pow :: "argon2_fn \<Rightarrow> bytes \<Rightarrow> u32 \<Rightarrow> (string + PowStamp) option" where
  "generate_pow pow_hash challenge difficulty =
     (if \<not> difficulty \<le> 256 then Some (Inl ''difficulty cannot exceed 256 bits'')
      else map_option Inr (generate_pow_loop pow_hash challenge difficulty 0))"

definition verify_pow :: "argon2_fn \<Rightarrow> PowStamp \<Rightarrow> bytes \<Rightarrow> u32 \<Rightarrow> EphemeraError + unit" where
  "verify_pow pow_hash stamp expected_challenge min_difficulty =
     (if ps_challenge stamp \<noteq> expected_challenge then Inl (InvalidPow ''challenge mismatch'')
      else if ps_difficulty stamp < min_difficulty
      then Inl (InvalidPow (''difficulty '' @ show_nat (unat (ps_difficulty stamp)) @ '' is below minimum ''
                  @ show_nat (unat min_difficulty)))
      else if \<not> has_leading_zeros (pow_hash (ps_challenge stamp) (ps_nonce stamp)) (ps_difficulty stamp)
      then Inl (InvalidPow ''hash does not meet difficulty requirement'')
      else Inr ())"

section \<open>The two leading-zero tests agree\<close>

lemma mask_test:
  assumes "b \<noteq> (0 :: u8)" and "0 < d" and "d < 8"
  shows "b AND push_bit (8 - d) 0xFF = 0 \<longleftrightarrow> d \<le> leading_zeros b"
proof
  assume z: "b AND push_bit (8 - d) 0xFF = 0"
  let ?n = "7 - leading_zeros b"
  have b: "bit b ?n" using leading_zeros_spec(2) [OF assms(1)] by simp
  show "d \<le> leading_zeros b"
  proof (rule ccontr)
    assume "\<not> d \<le> leading_zeros b"
    with assms(3) have "8 - d \<le> ?n" by linarith
    moreover have "bit (0xFF :: u8) (?n - (8 - d))"
      using assms bit_mask_iff [where 'a = "8 word", of 8 "?n - (8 - d)"] by (simp add: mask_eq_exp_minus_1)
    ultimately have "bit (b AND push_bit (8 - d) 0xFF) ?n" using b by (simp add: bit_simps)
    with z show False by simp
  qed
next
  assume le: "d \<le> leading_zeros b"
  have "\<not> bit (b AND push_bit (8 - d) 0xFF) n" for n
  proof (cases "8 - d \<le> n")
    case True
    with le assms leading_zeros_spec(1) [OF assms(1)] have "8 - 1 - leading_zeros b < n" by simp
    then show ?thesis using leading_zeros_spec(3) [OF assms(1), of n] by (simp add: bit_simps)
  qed (simp add: bit_simps)
  then show "b AND push_bit (8 - d) 0xFF = 0" by (simp add: bit_eq_iff)
qed

text \<open>The test by whole bytes and a mask, on naturals.\<close>

definition zeros_test :: "bytes \<Rightarrow> nat \<Rightarrow> bool" where
  "zeros_test hash d \<longleftrightarrow>
     (\<forall>byte \<in> set (take (d div 8) hash). byte = 0)
     \<and> (0 < d mod 8 \<and> d div 8 < length hash \<longrightarrow> hash ! (d div 8) AND push_bit (8 - d mod 8) 0xFF = 0)"

lemma has_leading_zeros_nat: "has_leading_zeros hash d \<longleftrightarrow> zeros_test hash (unat d)"
  by (simp add: has_leading_zeros_def zeros_test_def Let_def unat_div unat_mod list_ex_iff min_def)

lemma zeros_test_iff: "zeros_test hash d \<longleftrightarrow> min d (8 * length hash) \<le> count_leading_zeros hash"
proof (induction hash arbitrary: d)
  case (Cons b hash)
  show ?case
  proof (cases "d < 8")
    case True
    then show ?thesis
      by (cases "b = 0"; cases "d = 0") (auto simp: zeros_test_def mask_test)
  next
    case False
    then obtain e where d: "d = 8 + e" using le_Suc_ex linorder_not_less by metis
    have "zeros_test (b # hash) d \<longleftrightarrow> b = 0 \<and> zeros_test hash e"
      by (auto simp: d zeros_test_def)
    with Cons.IH [of e] show ?thesis
      using leading_zeros_spec(1) [of b] by (auto simp: d)
  qed
qed (simp add: zeros_test_def)

lemma has_leading_zeros_iff:
  "has_leading_zeros hash d \<longleftrightarrow> min (unat d) (8 * length hash) \<le> count_leading_zeros hash"
  by (simp only: has_leading_zeros_nat zeros_test_iff)

section \<open>Searching for a nonce\<close>

text \<open>
  A loop that tries the counters \<open>n\<close>, \<open>n + 1\<close>, \<open>\<dots>\<close> (wrapping) until an attempt succeeds. The second law
  excludes results that no attempt produced.
\<close>

locale nonce_loop =
  fixes attempt :: "u64 \<Rightarrow> 's option" and loop :: "u64 \<Rightarrow> 's option"
  assumes loop_unfold: "loop n = (case attempt n of Some s \<Rightarrow> Some s | None \<Rightarrow> loop (n + 1))"
    and loop_sound: "loop n = Some s \<Longrightarrow> \<exists>m. attempt m = Some s"
begin

lemma skip_failures:
  assumes "\<And>j. j < m \<Longrightarrow> attempt j = None" and "k \<le> unat m"
  shows "loop (of_nat k) = loop m"
  using assms(2)
proof (induction k rule: inc_induct)
  case (step k)
  have "(of_nat k :: u64) < m"
    using step(2) unat_bound [of m] by (simp add: word_less_nat_alt take_bit_nat_eq_self unsigned_of_nat)
  then have "loop (of_nat k) = loop (of_nat k + 1)"
    using loop_unfold [of "of_nat k"] assms(1) by simp
  with step(3) show ?case by (simp add: add.commute)
qed simp

lemma finds_first:
  assumes "attempt m = Some s" and "\<And>j. j < m \<Longrightarrow> attempt j = None"
  shows "loop 0 = Some s"
  using skip_failures [OF assms(2), of m 0] loop_unfold [of m] assms(1) by simp

lemma first_success:
  assumes "attempt m \<noteq> None"
  obtains n s where "attempt n = Some s" and "\<And>j. j < n \<Longrightarrow> attempt j = None" and "loop 0 = Some s"
proof -
  let ?n = "LEAST n. attempt n \<noteq> None"
  have "attempt ?n \<noteq> None" using assms by (rule LeastI)
  then obtain s where s: "attempt ?n = Some s" by blast
  have "attempt j = None" if "j < ?n" for j using not_less_Least [OF that] by simp
  with s that finds_first show ?thesis by blast
qed

lemma returns_first_iff:
  "loop 0 = Some s \<longleftrightarrow> (\<exists>n. attempt n = Some s \<and> (\<forall>j < n. attempt j = None))"
proof
  assume l: "loop 0 = Some s"
  then obtain m where "attempt m = Some s" using loop_sound by blast
  then obtain n s' where "attempt n = Some s'" "\<And>j. j < n \<Longrightarrow> attempt j = None" "loop 0 = Some s'"
    using first_success [of m] by blast
  with l show "\<exists>n. attempt n = Some s \<and> (\<forall>j < n. attempt j = None)" by auto
qed (blast intro: finds_first)

lemma runs_forever_iff: "loop 0 = None \<longleftrightarrow> (\<forall>n. attempt n = None)"
proof
  assume none: "loop 0 = None"
  show "\<forall>n. attempt n = None"
  proof (rule ccontr)
    assume "\<not> (\<forall>n. attempt n = None)"
    then obtain m where "attempt m \<noteq> None" by blast
    then obtain s where "loop 0 = Some s" by (rule first_success)
    with none show False by simp
  qed
qed (use loop_sound [of 0] in \<open>cases "loop 0"; auto\<close>)

end

definition abuse_attempt :: "hash_fn \<Rightarrow> PowChallenge \<Rightarrow> u64 \<Rightarrow> AbusePowStamp option" where
  "abuse_attempt blake3 challenge n =
     (let hash = compute_hash blake3 (pc_data challenge) (nonce_bytes 32 n)
      in if unat (pc_difficulty challenge) \<le> count_leading_zeros hash
         then Some \<lparr>aps_nonce = nonce_bytes 32 n, aps_hash = hash, aps_difficulty = pc_difficulty challenge\<rparr>
         else None)"

definition crypto_attempt :: "argon2_fn \<Rightarrow> bytes \<Rightarrow> u32 \<Rightarrow> u64 \<Rightarrow> PowStamp option" where
  "crypto_attempt pow_hash challenge difficulty n =
     (if has_leading_zeros (pow_hash challenge (nonce_bytes 16 n)) difficulty
      then Some \<lparr>ps_challenge = challenge, ps_nonce = nonce_bytes 16 n, ps_difficulty = difficulty\<rparr>
      else None)"

lemma abuse_attempt_body:
  "(let nonce = nonce_bytes 32 n; hash = compute_hash blake3 (pc_data challenge) nonce
    in if unat (pc_difficulty challenge) \<le> count_leading_zeros hash
       then Some \<lparr>aps_nonce = nonce, aps_hash = hash, aps_difficulty = pc_difficulty challenge\<rparr> else r)
   = (case abuse_attempt blake3 challenge n of Some s \<Rightarrow> Some s | None \<Rightarrow> r)"
  by (simp add: abuse_attempt_def Let_def)

lemma crypto_attempt_body:
  "(let nonce = nonce_bytes 16 n; hash = pow_hash challenge nonce
    in if has_leading_zeros hash difficulty
       then Some \<lparr>ps_challenge = challenge, ps_nonce = nonce, ps_difficulty = difficulty\<rparr> else r)
   = (case crypto_attempt pow_hash challenge difficulty n of Some s \<Rightarrow> Some s | None \<Rightarrow> r)"
  by (simp add: crypto_attempt_def Let_def)

lemma pow_generate_loop_sound:
  "pow_generate_loop blake3 challenge n = Some s \<Longrightarrow> \<exists>m. abuse_attempt blake3 challenge m = Some s"
  by (erule pow_generate_loop.raw_induct
        [where P = "\<lambda>blake3 challenge n s. \<exists>m. abuse_attempt blake3 challenge m = Some s", rotated])
    (auto simp only: abuse_attempt_body split: option.splits)

lemma generate_pow_loop_sound:
  "generate_pow_loop pow_hash challenge difficulty n = Some s
     \<Longrightarrow> \<exists>m. crypto_attempt pow_hash challenge difficulty m = Some s"
  by (erule generate_pow_loop.raw_induct
        [where P = "\<lambda>pow_hash challenge difficulty n s. \<exists>m. crypto_attempt pow_hash challenge difficulty m = Some s",
         rotated])
    (auto simp only: crypto_attempt_body split: option.splits)

interpretation abuse_pow: nonce_loop "abuse_attempt blake3 challenge" "pow_generate_loop blake3 challenge"
  for blake3 challenge
  by unfold_locales
    (rule pow_generate_loop.simps [of blake3 challenge, unfolded abuse_attempt_body], rule pow_generate_loop_sound)

interpretation crypto_pow: nonce_loop "crypto_attempt pow_hash challenge difficulty"
    "generate_pow_loop pow_hash challenge difficulty"
  for pow_hash challenge difficulty
  by unfold_locales
    (rule generate_pow_loop.simps [of pow_hash challenge difficulty, unfolded crypto_attempt_body],
     rule generate_pow_loop_sound)

section \<open>Theorems\<close>

text \<open>C34: the search of \<^verbatim>\<open>ProofOfWork::generate\<close> returns exactly when some 64-bit nonce meets the
  difficulty; it then returns the stamp of the first such nonce, and the stamp verifies against the challenge
  data. Otherwise it never returns.\<close>

theorem abuse_generate_complete:
  "(ProofOfWork_generate blake3 ch = None \<longleftrightarrow>
      (\<forall>n. count_leading_zeros (blake3 (pc_data ch @ nonce_bytes 32 n)) < unat (pc_difficulty ch)))
   \<and> (\<forall>stamp. ProofOfWork_generate blake3 ch = Some stamp \<longrightarrow>
        ProofOfWork_verify blake3 (pc_data ch) stamp = Inr () \<and> aps_difficulty stamp = pc_difficulty ch
        \<and> (\<exists>n. aps_nonce stamp = nonce_bytes 32 n
             \<and> (\<forall>j < n. count_leading_zeros (blake3 (pc_data ch @ nonce_bytes 32 j)) < unat (pc_difficulty ch))))"
proof -
  have a: "abuse_attempt blake3 ch n = None
      \<longleftrightarrow> count_leading_zeros (blake3 (pc_data ch @ nonce_bytes 32 n)) < unat (pc_difficulty ch)" for n
    by (simp add: abuse_attempt_def compute_hash_def Let_def not_le)
  have v: "ProofOfWork_verify blake3 (pc_data ch) s = Inr () \<and> aps_difficulty s = pc_difficulty ch
      \<and> aps_nonce s = nonce_bytes 32 n" if "abuse_attempt blake3 ch n = Some s" for n s
    using that by (auto simp: abuse_attempt_def ProofOfWork_verify_def Let_def split: if_splits)
  show ?thesis
    unfolding ProofOfWork_generate_def abuse_pow.runs_forever_iff abuse_pow.returns_first_iff a using v by blast
qed

text \<open>The byte-and-mask test of \<^verbatim>\<open>ephemera-crypto\<close> is equivalent to counting leading zero bits as
  \<^verbatim>\<open>ephemera-abuse\<close> does, with the requirement capped at the length of the hash.\<close>

theorem leading_zero_tests_agree:
  "has_leading_zeros hash d \<longleftrightarrow> min (unat d) (8 * length hash) \<le> count_leading_zeros hash"
  by (rule has_leading_zeros_iff)

lemma verify_pow_Inr_iff:
  "verify_pow pow_hash stamp expected min_difficulty = Inr () \<longleftrightarrow>
     ps_challenge stamp = expected \<and> min_difficulty \<le> ps_difficulty stamp
     \<and> has_leading_zeros (pow_hash expected (ps_nonce stamp)) (ps_difficulty stamp)"
  by (auto simp: verify_pow_def not_less)

lemma more_zeros: "has_leading_zeros hash d \<Longrightarrow> d' \<le> d \<Longrightarrow> has_leading_zeros hash d'"
  by (auto simp: has_leading_zeros_iff word_le_nat_alt)


text \<open>The minimum a verifier of \<^verbatim>\<open>ephemera-abuse\<close> enforces is the one the stamp itself names.\<close>

lemma abuse_verify_trusts_stamp:
  "ProofOfWork_verify blake3 data \<lparr>aps_nonce = nonce, aps_hash = blake3 (data @ nonce), aps_difficulty = 0\<rparr> = Inr ()"
  by (simp add: ProofOfWork_verify_def compute_hash_def)

section \<open>Witnesses\<close>

theorem abuse_generate_complete_witness:
  "\<exists>stamp. ProofOfWork_generate (\<lambda>_. [0, 1]) \<lparr>pc_data = [], pc_difficulty = 15\<rparr> = Some stamp
     \<and> ProofOfWork_verify (\<lambda>_. [0, 1]) [] stamp = Inr ()"
proof -
  have "count_leading_zeros [0, 1] = 15 \<and> unat (15 :: u32) = 15" by code_simp
  then have "\<not> count_leading_zeros [0, 1] < unat (15 :: u32)" by (simp only:)
  then show ?thesis
    using abuse_generate_complete [of "\<lambda>_. [0, 1]" "\<lparr>pc_data = [], pc_difficulty = 15\<rparr>"]
    by (cases "ProofOfWork_generate (\<lambda>_. [0, 1]) \<lparr>pc_data = [], pc_difficulty = 15\<rparr>") auto
qed


end
