(* ===== verification/Reputation.thy ===== *)
theory Reputation
  imports Prelude Complex_Main
begin

text \<open>
  Crate \<^verbatim>\<open>ephemera-abuse\<close>, file \<^verbatim>\<open>reputation.rs\<close>: the reputation score of a pseudonym, its decay and
  the capabilities it grants. Floating-point values are exact real numbers here: the statements are about the
  formulas of the code, not about rounding.
\<close>

datatype ReputationEvent =
  PostCreated | ReactionReceived | ConnectionFormed | ContentReported | RateLimitViolation | CommunityTombstone

fun points :: "ReputationEvent \<Rightarrow> real" where
  "points PostCreated = 1"
| "points ReactionReceived = 0.5"
| "points ConnectionFormed = 5"
| "points ContentReported = - 10"
| "points RateLimitViolation = - 2"
| "points CommunityTombstone = - 50"

datatype Capability =
  CreateTextPost | AttachPhotos | DirectMessageMutual | DirectMessageStranger | CreateTopicRoom
  | ModerationVote | FullPostRate

fun required_reputation :: "Capability \<Rightarrow> real" where
  "required_reputation CreateTextPost = 0"
| "required_reputation DirectMessageMutual = 0"
| "required_reputation AttachPhotos = 5"
| "required_reputation DirectMessageStranger = 10"
| "required_reputation FullPostRate = 10"
| "required_reputation CreateTopicRoom = 20"
| "required_reputation ModerationVote = 50"

fun required_age_days :: "Capability \<Rightarrow> u32" where
  "required_age_days ModerationVote = 30"
| "required_age_days _ = 0"

record ReputationScore =
  rs_positive_points :: real
  rs_negative_points :: real
  rs_connection_count :: u32
  rs_age_days :: u32
  rs_warming_active :: bool

definition ReputationScore_new :: ReputationScore where
  "ReputationScore_new =
     \<lparr>rs_positive_points = 0, rs_negative_points = 0, rs_connection_count = 0, rs_age_days = 0,
      rs_warming_active = True\<rparr>"

definition reputation_value :: "ReputationScore \<Rightarrow> real" where
  "reputation_value s =
     (let age_bonus = sqrt (real (unat (rs_age_days s))) * 10;
          conn_bonus = sqrt (real (unat (rs_connection_count s))) * 5;
          score = rs_positive_points s + age_bonus + conn_bonus - rs_negative_points s * 3
      in max score 0)"

definition record_event :: "ReputationScore \<Rightarrow> ReputationEvent \<Rightarrow> ReputationScore" where
  "record_event s event =
     (if points event \<ge> 0 then s\<lparr>rs_positive_points := rs_positive_points s + points event\<rparr>
      else s\<lparr>rs_negative_points := rs_negative_points s + \<bar>points event\<bar>\<rparr>)"

definition set_age_days :: "ReputationScore \<Rightarrow> u32 \<Rightarrow> ReputationScore" where
  "set_age_days s days =
     (let s = s\<lparr>rs_age_days := days\<rparr> in if days \<ge> 7 then s\<lparr>rs_warming_active := False\<rparr> else s)"

definition set_connection_count :: "ReputationScore \<Rightarrow> u32 \<Rightarrow> ReputationScore" where
  "set_connection_count s count = s\<lparr>rs_connection_count := count\<rparr>"

definition apply_decay :: "ReputationScore \<Rightarrow> real \<Rightarrow> ReputationScore" where
  "apply_decay s elapsed_days =
     (let factor = 0.5 powr (elapsed_days / 30)
      in s\<lparr>rs_positive_points := rs_positive_points s * factor,
           rs_negative_points := rs_negative_points s * factor\<rparr>)"

definition has_capability :: "ReputationScore \<Rightarrow> Capability \<Rightarrow> bool" where
  "has_capability s capability =
     (if rs_warming_active s then capability \<in> {CreateTextPost, DirectMessageMutual}
      else reputation_value s \<ge> required_reputation capability
           \<and> rs_age_days s \<ge> required_age_days capability)"

definition posts_per_hour :: "ReputationScore \<Rightarrow> u32" where
  "posts_per_hour s =
     (if rs_warming_active s then 1 else if has_capability s FullPostRate then 10 else 5)"

section \<open>Reachable scores\<close>

text \<open>The scores an application can build: every call on a score, with decay over non-negative spans.\<close>

datatype reputation_op =
  RecordEvent ReputationEvent | SetAgeDays u32 | SetConnectionCount u32 | ApplyDecay real

fun reputation_step :: "ReputationScore \<Rightarrow> reputation_op \<Rightarrow> ReputationScore" where
  "reputation_step s (RecordEvent e) = record_event s e"
| "reputation_step s (SetAgeDays d) = set_age_days s d"
| "reputation_step s (SetConnectionCount c) = set_connection_count s c"
| "reputation_step s (ApplyDecay t) = apply_decay s t"

definition reputation_inv :: "ReputationScore \<Rightarrow> bool" where
  "reputation_inv s \<longleftrightarrow> 0 \<le> rs_positive_points s \<and> 0 \<le> rs_negative_points s
     \<and> (rs_warming_active s \<longrightarrow> rs_age_days s < 7)"

lemma reputation_inv_new: "reputation_inv ReputationScore_new"
  by (simp add: reputation_inv_def ReputationScore_new_def)

lemma reputation_inv_step [inv_intro]: "reputation_inv s \<Longrightarrow> reputation_inv (reputation_step s op)"
  by (cases op)
    (auto simp: reputation_inv_def record_event_def set_age_days_def set_connection_count_def apply_decay_def
      Let_def)

lemma reputation_inv_run: "reputation_inv s \<Longrightarrow> reputation_inv (foldl reputation_step s ops)"
  by (induction ops arbitrary: s) (simp_all add: inv_intro)

lemma value_nonneg: "0 \<le> reputation_value s"
  by (simp add: reputation_value_def Let_def)

lemma age_30_value:
  assumes "rs_age_days s \<ge> 30" and "0 \<le> rs_positive_points s" and "rs_negative_points s = 0"
  shows "50 \<le> reputation_value s"
proof -
  have "30 \<le> unat (rs_age_days s)" using assms(1) by (simp add: word_le_nat_alt)
  then have "25 \<le> real (unat (rs_age_days s))" by linarith
  then have "sqrt 25 \<le> sqrt (real (unat (rs_age_days s)))" by (rule real_sqrt_le_mono)
  moreover have "sqrt 25 = 5" by (rule real_sqrt_unique) auto
  ultimately have "50 \<le> sqrt (real (unat (rs_age_days s))) * 10" by simp
  moreover have "0 \<le> sqrt (real (unat (rs_connection_count s))) * 5"
    by (intro mult_nonneg_nonneg real_sqrt_ge_zero of_nat_0_le_iff) simp
  ultimately have "50 \<le> rs_positive_points s + sqrt (real (unat (rs_age_days s))) * 10
      + sqrt (real (unat (rs_connection_count s))) * 5 - rs_negative_points s * 3"
    using assms(2,3) by linarith
  then show ?thesis unfolding reputation_value_def Let_def le_max_iff_disj by (rule disjI1)
qed

lemma decay_add: "apply_decay (apply_decay s t) u = apply_decay s (t + u)"
  by (simp add: apply_decay_def Let_def add_divide_distrib powr_add mult.assoc)

section \<open>Theorems\<close>


text \<open>Decay is a half-life of 30 days that composes over time: decaying twice equals decaying once over the sum
  of the spans, 30 days halve both point totals, and decay never raises either.\<close>

theorem decay_half_life:
  assumes "0 \<le> t" and "0 \<le> rs_positive_points s" and "0 \<le> rs_negative_points s"
  shows "apply_decay (apply_decay s t) u = apply_decay s (t + u)
    \<and> rs_positive_points (apply_decay s 30) = rs_positive_points s / 2
    \<and> rs_negative_points (apply_decay s 30) = rs_negative_points s / 2
    \<and> rs_positive_points (apply_decay s t) \<le> rs_positive_points s
    \<and> rs_negative_points (apply_decay s t) \<le> rs_negative_points s"
proof -
  have "(0.5 :: real) powr (t / 30) \<le> 1" using assms(1) by (intro powr_le1) auto
  then show ?thesis
    using assms by (simp add: decay_add) (simp add: apply_decay_def Let_def mult_left_le)
qed

section \<open>Witnesses\<close>


theorem decay_half_life_witness:
  "rs_positive_points (apply_decay (record_event ReputationScore_new ConnectionFormed) 30) = 5 / 2"
  using decay_half_life [of 30 "record_event ReputationScore_new ConnectionFormed"]
  by (simp add: record_event_def ReputationScore_new_def)

end
