(* ===== verification/Dht_Routing.thy ===== *)
theory Dht_Routing
  imports Identity "HOL-Library.Multiset"
begin

text \<open>
  Crate \<^verbatim>\<open>ephemera-dht\<close>, file \<^verbatim>\<open>routing.rs\<close>: the Kademlia routing table. Monotonic clock readings
  (\<^verbatim>\<open>Instant::now()\<close>) are explicit arguments in nanoseconds; a \<^verbatim>\<open>VecDeque\<close> is a list with its front first.
\<close>

type_synonym instant_ns = nat
type_synonym SocketAddr = string

definition ID_BITS :: nat where "ID_BITS = 256"

record NodeEntry =
  ne_id :: NodeId
  ne_addresses :: "SocketAddr list"
  ne_last_seen :: instant_ns
  ne_last_rtt :: "nat option"
  ne_failures :: u32

definition NodeEntry_new :: "NodeId \<Rightarrow> SocketAddr list \<Rightarrow> instant_ns \<Rightarrow> NodeEntry" where
  "NodeEntry_new node_id addresses now =
     \<lparr>ne_id = node_id, ne_addresses = addresses, ne_last_seen = now, ne_last_rtt = None, ne_failures = 0\<rparr>"

definition mark_seen :: "NodeEntry \<Rightarrow> instant_ns \<Rightarrow> NodeEntry" where
  "mark_seen e now = e\<lparr>ne_last_seen := now, ne_failures := 0\<rparr>"

definition record_failure :: "NodeEntry \<Rightarrow> NodeEntry" where
  "record_failure e = e\<lparr>ne_failures := ne_failures e + 1\<rparr>"

text \<open>\<^verbatim>\<open>Instant::elapsed\<close> saturates at zero.\<close>

definition is_stale :: "NodeEntry \<Rightarrow> nat \<Rightarrow> instant_ns \<Rightarrow> bool" where
  "is_stale e timeout now \<longleftrightarrow> now - ne_last_seen e > timeout"

section \<open>Buckets\<close>

record KBucket =
  kb_entries :: "NodeEntry list"
  kb_replacement_cache :: "NodeEntry list"
  kb_k :: nat

datatype InsertResult = Inserted | Updated | BucketFull "NodeId option"

definition KBucket_new :: "nat \<Rightarrow> KBucket" where
  "KBucket_new k = \<lparr>kb_entries = [], kb_replacement_cache = [], kb_k = k\<rparr>"

definition KBucket_len :: "KBucket \<Rightarrow> nat" where
  "KBucket_len b = length (kb_entries b)"

definition KBucket_is_empty :: "KBucket \<Rightarrow> bool" where
  "KBucket_is_empty b \<longleftrightarrow> kb_entries b = []"

definition is_full :: "KBucket \<Rightarrow> bool" where
  "is_full b \<longleftrightarrow> length (kb_entries b) \<ge> kb_k b"

fun position :: "('a \<Rightarrow> bool) \<Rightarrow> 'a list \<Rightarrow> nat option" where
  "position p [] = None"
| "position p (x # xs) = (if p x then Some 0 else map_option Suc (position p xs))"

definition remove_at :: "nat \<Rightarrow> 'a list \<Rightarrow> 'a list" where
  "remove_at pos xs = take pos xs @ drop (Suc pos) xs"

definition KBucket_insert :: "KBucket \<Rightarrow> NodeEntry \<Rightarrow> KBucket \<times> InsertResult" where
  "KBucket_insert b entry =
     (case position (\<lambda>e. ne_id e = ne_id entry) (kb_entries b) of
        Some pos \<Rightarrow> (b\<lparr>kb_entries := remove_at pos (kb_entries b) @ [entry]\<rparr>, Updated)
      | None \<Rightarrow>
          if \<not> is_full b then (b\<lparr>kb_entries := kb_entries b @ [entry]\<rparr>, Inserted)
          else
            let cache = kb_replacement_cache b;
                cache = (if length cache \<ge> kb_k b then drop 1 cache else cache);
                b = b\<lparr>kb_replacement_cache := cache @ [entry]\<rparr>;
                lrs_id = (case kb_entries b of [] \<Rightarrow> None | e # _ \<Rightarrow> Some (ne_id e))
            in (b, BucketFull lrs_id))"

definition evict_oldest :: "KBucket \<Rightarrow> KBucket \<times> NodeEntry option" where
  "evict_oldest b =
     (let (evicted, entries) = (case kb_entries b of [] \<Rightarrow> (None, []) | e # es \<Rightarrow> (Some e, es));
          b = b\<lparr>kb_entries := entries\<rparr>
      in if kb_replacement_cache b = [] then (b, evicted)
         else (b\<lparr>kb_entries := entries @ [last (kb_replacement_cache b)],
                 kb_replacement_cache := butlast (kb_replacement_cache b)\<rparr>, evicted))"

definition KBucket_closest_to :: "KBucket \<Rightarrow> NodeId \<Rightarrow> nat \<Rightarrow> NodeEntry list" where
  "KBucket_closest_to b target n = take n (sort_key (\<lambda>e. xor_distance (ne_id e) target) (kb_entries b))"

section \<open>The table\<close>

record RoutingTable =
  rt_local_id :: NodeId
  rt_buckets :: "KBucket list"
  rt_k :: nat

definition RoutingTable_new :: "NodeId \<Rightarrow> nat \<Rightarrow> RoutingTable" where
  "RoutingTable_new local_id k =
     \<lparr>rt_local_id = local_id, rt_buckets = map (\<lambda>_. KBucket_new k) [0..<ID_BITS], rt_k = k\<rparr>"

definition bucket_index :: "RoutingTable \<Rightarrow> NodeId \<Rightarrow> nat option" where
  "bucket_index rt node_id = leading_zeros_distance (rt_local_id rt) node_id"

text \<open>\<^verbatim>\<open>self.buckets[idx]\<close> would panic out of range; the index of 32-byte identifiers is below 256
  (\<open>leading_zeros_distance_bound\<close>).\<close>

definition RoutingTable_insert :: "RoutingTable \<Rightarrow> NodeEntry \<Rightarrow> RoutingTable \<times> InsertResult" where
  "RoutingTable_insert rt entry =
     (if ne_id entry = rt_local_id rt then (rt, Updated)
      else case bucket_index rt (ne_id entry) of
             None \<Rightarrow> (rt, Updated)
           | Some idx \<Rightarrow>
               let (b, r) = KBucket_insert (rt_buckets rt ! idx) entry
               in (rt\<lparr>rt_buckets := (rt_buckets rt)[idx := b]\<rparr>, r))"

definition all_entries :: "RoutingTable \<Rightarrow> NodeEntry list" where
  "all_entries rt = concat (map kb_entries (rt_buckets rt))"

definition RoutingTable_closest :: "RoutingTable \<Rightarrow> NodeId \<Rightarrow> nat \<Rightarrow> NodeEntry list" where
  "RoutingTable_closest rt target n =
     take n (sort_key (\<lambda>e. xor_distance (ne_id e) target) (all_entries rt))"

definition total_entries :: "RoutingTable \<Rightarrow> nat" where
  "total_entries rt = sum_list (map KBucket_len (rt_buckets rt))"

definition RoutingTable_bucket :: "RoutingTable \<Rightarrow> nat \<Rightarrow> KBucket option" where
  "RoutingTable_bucket rt index = (if index < length (rt_buckets rt) then Some (rt_buckets rt ! index) else None)"

section \<open>Invariants\<close>

definition bucket_inv :: "KBucket \<Rightarrow> bool" where
  "bucket_inv b \<longleftrightarrow> length (kb_entries b) \<le> kb_k b \<and> distinct (map ne_id (kb_entries b))
     \<and> length (kb_replacement_cache b) \<le> max 1 (kb_k b)"

definition table_inv :: "RoutingTable \<Rightarrow> bool" where
  "table_inv rt \<longleftrightarrow> node_ok (rt_local_id rt) \<and> length (rt_buckets rt) = ID_BITS
     \<and> (\<forall>i < ID_BITS. let b = rt_buckets rt ! i in
          kb_k b = rt_k rt \<and> bucket_inv b
          \<and> (\<forall>e \<in> set (kb_entries b). node_ok (ne_id e) \<and> bucket_index rt (ne_id e) = Some i))"

lemma position_Some:
  "position p xs = Some i \<Longrightarrow> i < length xs \<and> p (xs ! i) \<and> (\<forall>j < i. \<not> p (xs ! j))"
  by (induction xs arbitrary: i) (auto split: if_splits simp: less_Suc_eq_0_disj)

lemma position_None: "position p xs = None \<longleftrightarrow> (\<forall>x \<in> set xs. \<not> p x)"
  by (induction xs) auto

lemma remove_at_mset: "i < length xs \<Longrightarrow> mset xs = add_mset (xs ! i) (mset (remove_at i xs))"
  unfolding remove_at_def
  by (metis id_take_nth_drop mset.simps(2) mset_append union_mset_add_mset_right)

lemma remove_at_facts:
  assumes "i < length xs"
  shows "length (remove_at i xs) = length xs - 1" and "set (remove_at i xs) \<subseteq> set xs"
    and "distinct (map f xs) \<Longrightarrow> distinct (map f (remove_at i xs)) \<and> f (xs ! i) \<notin> f ` set (remove_at i xs)"
proof -
  have m: "mset xs = add_mset (xs ! i) (mset (remove_at i xs))" using assms by (rule remove_at_mset)
  show "length (remove_at i xs) = length xs - 1" using assms by (simp add: remove_at_def)
  show "set (remove_at i xs) \<subseteq> set xs" by (metis m set_mset_mset set_mset_add_mset_insert subset_insertI)
  show "distinct (map f (remove_at i xs)) \<and> f (xs ! i) \<notin> f ` set (remove_at i xs)" if "distinct (map f xs)"
  proof -
    have "mset (map f xs) = mset (map f ((xs ! i) # remove_at i xs))" by (simp add: m)
    then have "distinct (map f ((xs ! i) # remove_at i xs))" using that by (metis mset_eq_imp_distinct_iff)
    then show ?thesis by simp
  qed
qed

text \<open>What an insertion does to a bucket, on each branch.\<close>

lemma KBucket_insert_cases:
  assumes "KBucket_insert b e = (b', r)"
  obtains (update) i where "i < length (kb_entries b)" and "ne_id (kb_entries b ! i) = ne_id e"
      and "b' = b\<lparr>kb_entries := remove_at i (kb_entries b) @ [e]\<rparr>" and "r = Updated"
  | (insert) "\<forall>x \<in> set (kb_entries b). ne_id x \<noteq> ne_id e" and "length (kb_entries b) < kb_k b"
      and "b' = b\<lparr>kb_entries := kb_entries b @ [e]\<rparr>" and "r = Inserted"
  | (full) "\<forall>x \<in> set (kb_entries b). ne_id x \<noteq> ne_id e" and "kb_k b \<le> length (kb_entries b)"
      and "b' = b\<lparr>kb_replacement_cache :=
             drop (if length (kb_replacement_cache b) \<ge> kb_k b then 1 else 0) (kb_replacement_cache b) @ [e]\<rparr>"
      and "r = BucketFull (case kb_entries b of [] \<Rightarrow> None | h # _ \<Rightarrow> Some (ne_id h))"
  using assms that
  by (auto simp: KBucket_insert_def is_full_def Let_def position_None not_le
      split: option.splits if_splits dest!: position_Some)

lemma bucket_inv_new [simp]: "bucket_inv (KBucket_new k)"
  by (simp add: bucket_inv_def KBucket_new_def)

lemma bucket_inv_insert [inv_intro]:
  assumes "bucket_inv b" and "KBucket_insert b e = (b', r)"
  shows "bucket_inv b' \<and> kb_k b' = kb_k b \<and> set (kb_entries b') \<subseteq> insert e (set (kb_entries b))"
  using assms(2)
proof (cases rule: KBucket_insert_cases)
  case (update i)
  then show ?thesis
    using assms(1) remove_at_facts [of i "kb_entries b"] remove_at_facts(3) [of i "kb_entries b" ne_id]
    by (auto simp: bucket_inv_def)
next
  case insert
  then show ?thesis using assms(1) by (auto simp: bucket_inv_def)
next
  case full
  then show ?thesis using assms(1) by (auto simp: bucket_inv_def)
qed

lemma table_inv_new: "node_ok local_id \<Longrightarrow> table_inv (RoutingTable_new local_id k)"
  by (simp add: table_inv_def RoutingTable_new_def Let_def) (simp add: KBucket_new_def)

lemma table_inv_bucket:
  assumes "table_inv rt" and "i < ID_BITS"
  shows "kb_k (rt_buckets rt ! i) = rt_k rt" and "bucket_inv (rt_buckets rt ! i)"
    and "e \<in> set (kb_entries (rt_buckets rt ! i)) \<Longrightarrow> node_ok (ne_id e) \<and> bucket_index rt (ne_id e) = Some i"
  using assms by (auto simp: table_inv_def Let_def)

lemma RoutingTable_insert_cases:
  assumes "table_inv rt" and "node_ok (ne_id e)"
  obtains (self) "ne_id e = rt_local_id rt" and "RoutingTable_insert rt e = (rt, Updated)"
  | (bucket) i b r where "bucket_index rt (ne_id e) = Some i" and "i < ID_BITS" and "ne_id e \<noteq> rt_local_id rt"
      and "KBucket_insert (rt_buckets rt ! i) e = (b, r)"
      and "RoutingTable_insert rt e = (rt\<lparr>rt_buckets := (rt_buckets rt)[i := b]\<rparr>, r)"
proof (cases "ne_id e = rt_local_id rt")
  case False
  have ok: "node_ok (rt_local_id rt)" using assms(1) by (simp add: table_inv_def)
  then obtain i where i: "bucket_index rt (ne_id e) = Some i"
    using leading_zeros_distance_None [OF ok assms(2)] False by (auto simp: bucket_index_def)
  moreover have "i < ID_BITS"
    using leading_zeros_distance_bound [OF ok assms(2)] i by (simp add: bucket_index_def ID_BITS_def)
  moreover obtain b r where "KBucket_insert (rt_buckets rt ! i) e = (b, r)" by (cases "KBucket_insert (rt_buckets rt ! i) e")
  ultimately show ?thesis using bucket False by (simp add: RoutingTable_insert_def)
qed (use self in \<open>simp add: RoutingTable_insert_def\<close>)

lemma table_inv_insert [inv_intro]:
  assumes inv: "table_inv rt" and ok: "node_ok (ne_id e)"
  shows "table_inv (fst (RoutingTable_insert rt e))"
  using assms
proof (cases rule: RoutingTable_insert_cases)
  case self
  then show ?thesis using inv by simp
next
  case (bucket i b r)
  note new = bucket_inv_insert [OF table_inv_bucket(2) [OF inv bucket(2)] bucket(4)]
  have "node_ok (ne_id x) \<and> bucket_index rt (ne_id x) = Some i" if "x \<in> set (kb_entries b)" for x
    using that new bucket(1) ok table_inv_bucket(3) [OF inv bucket(2)] by blast
  then show ?thesis
    using inv bucket(2,5) new table_inv_bucket(1) [OF inv bucket(2)]
    by (simp add: table_inv_def Let_def bucket_index_def nth_list_update)
qed

section \<open>The closest entries\<close>

lemma distinct_concat_indexed:
  assumes "\<And>i. i < length xss \<Longrightarrow> distinct (map g (xss ! i)) \<and> (\<forall>x \<in> set (xss ! i). f (g x) = Some (k + i))"
  shows "distinct (map g (concat xss))"
  using assms
proof (induction xss arbitrary: k)
  case (Cons xs xss)
  have t: "i < length xss \<Longrightarrow> distinct (map g (xss ! i)) \<and> (\<forall>x \<in> set (xss ! i). f (g x) = Some (Suc k + i))" for i
    using Cons.prems [of "Suc i"] by simp
  then have "\<forall>x \<in> set (concat xss). f (g x) \<noteq> Some k" by (auto simp: in_set_conv_nth [of _ xss])
  moreover have "distinct (map g xs) \<and> (\<forall>x \<in> set xs. f (g x) = Some k)" using Cons.prems [of 0] by simp
  ultimately have "g ` set xs \<inter> g ` set (concat xss) = {}" by (auto simp del: set_concat)
  then show ?case using Cons.IH [of "Suc k"] t \<open>distinct (map g xs) \<and> _\<close> by simp
qed simp

lemma all_entries_distinct:
  assumes "table_inv rt"
  shows "distinct (map ne_id (all_entries rt))"
  unfolding all_entries_def
  using table_inv_bucket [OF assms] assms
  by (intro distinct_concat_indexed [where f = "bucket_index rt" and k = 0]) (auto simp: table_inv_def bucket_inv_def)

lemma all_entries_ok:
  assumes "table_inv rt" and "e \<in> set (all_entries rt)"
  shows "node_ok (ne_id e) \<and> ne_id e \<noteq> rt_local_id rt"
proof -
  from assms obtain i where i: "i < ID_BITS" "e \<in> set (kb_entries (rt_buckets rt ! i))"
    by (auto simp: all_entries_def table_inv_def in_set_conv_nth [of _ "rt_buckets rt"])
  then have "node_ok (ne_id e) \<and> bucket_index rt (ne_id e) = Some i" using table_inv_bucket(3) [OF assms(1)] by blast
  moreover have "node_ok (rt_local_id rt)" using assms(1) by (simp add: table_inv_def)
  ultimately show ?thesis
    using leading_zeros_distance_None [of "rt_local_id rt" "rt_local_id rt"] by (auto simp: bucket_index_def)
qed

lemma take_sort_key:
  fixes key :: "'a \<Rightarrow> 'k::linorder"
  assumes "distinct (map key xs)" and "ys = take n (sort_key key xs)"
  shows "sorted_wrt (\<lambda>a b. key a < key b) ys" and "set ys \<subseteq> set xs" and "length ys = min n (length xs)"
    and "a \<in> set ys \<Longrightarrow> b \<in> set xs - set ys \<Longrightarrow> key a < key b"
proof -
  let ?zs = "sort_key key xs"
  have "mset (map key ?zs) = mset (map key xs)" by simp
  then have "distinct (map key ?zs)" using assms(1) by (metis mset_eq_imp_distinct_iff)
  then have "sorted_wrt (<) (map key ?zs)" using sorted_sort_key [of key xs] by (simp add: strict_sorted_iff)
  then have s: "sorted_wrt (\<lambda>a b. key a < key b) (take n ?zs @ drop n ?zs)" by (simp add: sorted_wrt_map)
  then show "sorted_wrt (\<lambda>a b. key a < key b) ys" by (simp add: assms(2) sorted_wrt_append)
  show "set ys \<subseteq> set xs" unfolding assms(2) by (metis set_sort set_take_subset)
  show "length ys = min n (length xs)" by (simp add: assms(2))
  assume "a \<in> set ys" and "b \<in> set xs - set ys"
  moreover have "set xs = set (take n ?zs) \<union> set (drop n ?zs)" by (metis append_take_drop_id set_append set_sort)
  ultimately show "key a < key b" using s unfolding sorted_wrt_append assms(2) by blast
qed

lemma distances_distinct:
  assumes "table_inv rt" and "node_ok target"
  shows "distinct (map (\<lambda>e. xor_distance (ne_id e) target) (all_entries rt))"
proof -
  have "inj_on (\<lambda>n. xor_distance n target) (ne_id ` set (all_entries rt))"
    using all_entries_ok [OF assms(1)] xor_distance_inject assms(2) by (auto intro!: inj_onI)
  then have "distinct (map (\<lambda>n. xor_distance n target) (map ne_id (all_entries rt)))"
    using all_entries_distinct [OF assms(1)] by (simp only: distinct_map set_map)
  then show ?thesis by (simp add: comp_def)
qed

lemma total_entries_length: "total_entries rt = length (all_entries rt)"
  by (simp add: total_entries_def all_entries_def length_concat KBucket_len_def [abs_def] comp_def)

section \<open>Theorems\<close>

text \<open>C25: after any sequence of insertions into a new table every bucket holds at most \<open>k\<close> entries with distinct
  identifiers, each in the bucket of its distance, no identifier occurs twice in the whole table and the local
  identifier never occurs.\<close>

theorem routing_table_invariant:
  assumes "node_ok local_id" and "\<forall>e \<in> set es. node_ok (ne_id e)"
    and "rt = foldl (\<lambda>rt e. fst (RoutingTable_insert rt e)) (RoutingTable_new local_id k) es"
  shows "length (rt_buckets rt) = 256
    \<and> (\<forall>i < 256. length (kb_entries (rt_buckets rt ! i)) \<le> k
        \<and> (\<forall>e \<in> set (kb_entries (rt_buckets rt ! i)). leading_zeros_distance local_id (ne_id e) = Some i))
    \<and> distinct (map ne_id (all_entries rt)) \<and> local_id \<notin> ne_id ` set (all_entries rt)"
proof -
  have "table_inv (foldl (\<lambda>rt e. fst (RoutingTable_insert rt e)) rt0 es)
      \<and> rt_local_id (foldl (\<lambda>rt e. fst (RoutingTable_insert rt e)) rt0 es) = rt_local_id rt0
      \<and> rt_k (foldl (\<lambda>rt e. fst (RoutingTable_insert rt e)) rt0 es) = rt_k rt0" if "table_inv rt0" for rt0
    using that assms(2)
  proof (induction es arbitrary: rt0)
    case (Cons e es)
    have "rt_local_id (fst (RoutingTable_insert rt0 e)) = rt_local_id rt0 \<and> rt_k (fst (RoutingTable_insert rt0 e)) = rt_k rt0"
      by (simp add: RoutingTable_insert_def split: option.split prod.split)
    with Cons show ?case using table_inv_insert [of rt0 e] by simp
  qed simp
  from this [OF table_inv_new [OF assms(1), of k]]
  have inv: "table_inv rt" and l: "rt_local_id rt = local_id" and k: "rt_k rt = k"
    by (simp_all add: assms(3) RoutingTable_new_def)
  have "local_id \<notin> ne_id ` set (all_entries rt)"
    unfolding l [symmetric] image_iff using all_entries_ok [OF inv] by metis
  moreover have "length (kb_entries (rt_buckets rt ! i)) \<le> k
      \<and> (\<forall>e \<in> set (kb_entries (rt_buckets rt ! i)). leading_zeros_distance local_id (ne_id e) = Some i)"
    if "i < 256" for i
    using table_inv_bucket [OF inv, of i] that l k by (simp add: ID_BITS_def bucket_inv_def bucket_index_def)
  moreover have "length (rt_buckets rt) = 256" using inv by (simp add: table_inv_def ID_BITS_def)
  ultimately show ?thesis using all_entries_distinct [OF inv] by blast
qed

text \<open>C30: \<^verbatim>\<open>closest\<close> returns the \<open>n\<close> entries nearest to the target (all entries when there are fewer), in strictly
  increasing XOR distance, and every entry of the table it leaves out is farther away than every one it
  returns.\<close>

theorem routing_closest_nearest:
  assumes "table_inv rt" and "node_ok target" and "ys = RoutingTable_closest rt target n"
  shows "length ys = min n (total_entries rt) \<and> set ys \<subseteq> set (all_entries rt)
    \<and> sorted_wrt (\<lambda>a b. xor_distance (ne_id a) target < xor_distance (ne_id b) target) ys
    \<and> (\<forall>a \<in> set ys. \<forall>b \<in> set (all_entries rt) - set ys.
          xor_distance (ne_id a) target < xor_distance (ne_id b) target)"
  using take_sort_key [OF distances_distinct [OF assms(1,2)] assms(3) [unfolded RoutingTable_closest_def]]
  by (simp add: total_entries_length)

text \<open>A bucket prefers old nodes: inserting a known node moves it to the tail, a new node is appended while
  there is room, and a full bucket keeps its entries, caches the newcomer and names its least recently seen
  node as the one to ping.\<close>

theorem bucket_prefers_old_nodes:
  assumes "bucket_inv b" and "0 < kb_k b" and "KBucket_insert b e = (b', r)"
  shows "(case r of
      Updated \<Rightarrow> ne_id e \<in> ne_id ` set (kb_entries b) \<and> last (kb_entries b') = e
        \<and> ne_id ` set (kb_entries b') = ne_id ` set (kb_entries b)
    | Inserted \<Rightarrow> ne_id e \<notin> ne_id ` set (kb_entries b) \<and> kb_entries b' = kb_entries b @ [e]
    | BucketFull t \<Rightarrow> kb_entries b' = kb_entries b \<and> t = Some (ne_id (hd (kb_entries b)))
        \<and> last (kb_replacement_cache b') = e)
    \<and> bucket_inv b'"
  using assms(3)
proof (cases rule: KBucket_insert_cases)
  case (update i)
  have "mset (kb_entries b) = add_mset (kb_entries b ! i) (mset (remove_at i (kb_entries b)))"
    using update(1) by (rule remove_at_mset)
  then have "set (kb_entries b) = insert (kb_entries b ! i) (set (remove_at i (kb_entries b)))"
    by (metis set_mset_mset set_mset_add_mset_insert)
  then show ?thesis using update bucket_inv_insert [OF assms(1,3)] by auto
next
  case insert
  then show ?thesis using bucket_inv_insert [OF assms(1,3)] by auto
next
  case full
  then show ?thesis using bucket_inv_insert [OF assms(1,3)] assms(2) by (cases "kb_entries b") auto
qed

text \<open>The replacement cache is not deduplicated, so evictions can fill a bucket with one node: inserting
  \<open>a\<close>, \<open>b\<close>, \<open>c\<close>, \<open>c\<close> into a bucket of size 2 and evicting twice leaves \<open>c\<close> in it twice.\<close>

theorem eviction_can_duplicate:
  "map ne_id (kb_entries (fst (evict_oldest (fst (evict_oldest
     (foldl (\<lambda>b n. fst (KBucket_insert b (NodeEntry_new (NodeId [n]) [] 0))) (KBucket_new 2) [1, 2, 3, 3]))))))
   = [NodeId [3], NodeId [3]]"
  by (simp add: KBucket_insert_def KBucket_new_def NodeEntry_new_def evict_oldest_def is_full_def Let_def)

section \<open>Witnesses\<close>

definition sample_entries :: "NodeEntry list" where
  "sample_entries = [NodeEntry_new (NodeId (replicate 32 1)) [] 0, NodeEntry_new (NodeId (replicate 32 2)) [] 0]"

lemma sample_entries_ok: "\<forall>e \<in> set sample_entries. node_ok (ne_id e)"
  by (simp add: sample_entries_def NodeEntry_new_def node_ok_def)

theorem routing_table_invariant_witness:
  "distinct (map ne_id (all_entries
     (foldl (\<lambda>rt e. fst (RoutingTable_insert rt e)) (RoutingTable_new (NodeId (replicate 32 0)) 20) sample_entries)))"
  using routing_table_invariant [OF _ sample_entries_ok refl, of "NodeId (replicate 32 0)" 20]
  by (simp add: node_ok_def)

theorem routing_closest_nearest_witness:
  "length (RoutingTable_closest
     (fst (RoutingTable_insert (RoutingTable_new (NodeId (replicate 32 0)) 20) (hd sample_entries)))
     (NodeId (replicate 32 3)) 5) \<le> 5"
  using routing_closest_nearest [OF table_inv_insert [OF table_inv_new] _ refl,
      of "NodeId (replicate 32 0)" "hd sample_entries" "NodeId (replicate 32 3)" 20 5]
  by (simp add: node_ok_def sample_entries_def NodeEntry_new_def)

theorem bucket_prefers_old_nodes_witness:
  "bucket_inv (fst (KBucket_insert (KBucket_new 2) (hd sample_entries)))"
  using bucket_prefers_old_nodes [of "KBucket_new 2" "hd sample_entries"]
  by (simp add: KBucket_new_def bucket_inv_def prod_eq_iff)

end
