(* ===== verification/Dht_Storage.thy ===== *)
theory Dht_Storage
  imports Prelude
begin

text \<open>
  Crate \<^verbatim>\<open>ephemera-dht\<close>, files \<^verbatim>\<open>lib.rs\<close> (errors, records, configuration) and \<^verbatim>\<open>storage.rs\<close> (the
  in-memory record store). The system clock (\<^verbatim>\<open>now()\<close>, Unix seconds) is an explicit argument of each
  operation that reads it. The locale \<open>expiring_store\<close> states what readers of a store with background
  sweeps rely on.
\<close>

datatype DhtError =
    NotFound string
  | Expired
  | RecordTooLarge nat nat
  | TtlTooLarge u32 u32
  | InvalidRecordSignature
  | StorageFull nat nat
  | Transport string
  | Timeout

datatype DhtRecordType =
  PrekeyBundle | Profile | HashtagIndex | ContentProvider | RelayAdvertisement | DeadDrop

record DhtRecord =
  dr_key :: bytes
  dr_record_type :: DhtRecordType
  dr_value :: bytes
  dr_publisher :: bytes
  dr_timestamp :: u64
  dr_ttl_seconds :: u32
  dr_signature :: bytes

definition MAX_RECORD_SIZE :: nat where "MAX_RECORD_SIZE = 8 * 1024"
definition MAX_TTL_SECONDS :: u32 where "MAX_TTL_SECONDS = 30 * 24 * 60 * 60"

record DhtConfig =
  dc_k :: nat
  dc_alpha :: nat
  dc_replication :: nat
  dc_refresh_interval_secs :: u64
  dc_republish_interval_secs :: u64
  dc_max_records :: nat
  dc_max_record_size :: nat
  dc_stale_timeout_secs :: u64

definition DhtConfig_default :: DhtConfig where
  "DhtConfig_default =
     \<lparr>dc_k = 20, dc_alpha = 3, dc_replication = 5, dc_refresh_interval_secs = 60,
      dc_republish_interval_secs = 3600, dc_max_records = 100000, dc_max_record_size = MAX_RECORD_SIZE,
      dc_stale_timeout_secs = 300\<rparr>"

record StoredRecord =
  sr_record :: DhtRecord
  sr_expires_at :: u64

record DhtStorage =
  ds_records :: "(bytes, StoredRecord) hash_map"
  ds_max_records :: nat
  ds_max_record_size :: nat

definition DhtStorage_new :: "DhtConfig \<Rightarrow> DhtStorage" where
  "DhtStorage_new config =
     \<lparr>ds_records = [], ds_max_records = dc_max_records config, ds_max_record_size = dc_max_record_size config\<rparr>"

definition DhtStorage_put :: "DhtStorage \<Rightarrow> DhtRecord \<Rightarrow> u64 \<Rightarrow> DhtStorage \<times> (DhtError + unit)" where
  "DhtStorage_put s r now =
     (if length (dr_value r) > ds_max_record_size s
      then (s, Inl (RecordTooLarge (length (dr_value r)) (ds_max_record_size s)))
      else if dr_ttl_seconds r > MAX_TTL_SECONDS
      then (s, Inl (TtlTooLarge (dr_ttl_seconds r) MAX_TTL_SECONDS))
      else
        let expires_at = dr_timestamp r + ucast (dr_ttl_seconds r)
        in if expires_at < now then (s, Inl Expired)
           else if \<not> hm_contains (ds_records s) (dr_key r) \<and> length (ds_records s) \<ge> ds_max_records s
           then (s, Inl (StorageFull (length (ds_records s)) (ds_max_records s)))
           else (s\<lparr>ds_records := hm_insert (dr_key r) \<lparr>sr_record = r, sr_expires_at = expires_at\<rparr> (ds_records s)\<rparr>,
                 Inr ()))"

definition DhtStorage_get :: "DhtStorage \<Rightarrow> bytes \<Rightarrow> u64 \<Rightarrow> DhtRecord option" where
  "DhtStorage_get s key now =
     (case hm_get (ds_records s) key of
        None \<Rightarrow> None
      | Some stored \<Rightarrow> if sr_expires_at stored < now then None else Some (sr_record stored))"

definition DhtStorage_remove :: "DhtStorage \<Rightarrow> bytes \<Rightarrow> DhtStorage \<times> bool" where
  "DhtStorage_remove s key =
     (s\<lparr>ds_records := hm_remove key (ds_records s)\<rparr>, hm_contains (ds_records s) key)"

definition DhtStorage_len :: "DhtStorage \<Rightarrow> nat" where
  "DhtStorage_len s = length (ds_records s)"

definition DhtStorage_is_empty :: "DhtStorage \<Rightarrow> bool" where
  "DhtStorage_is_empty s \<longleftrightarrow> ds_records s = []"

definition sweep_expired :: "DhtStorage \<Rightarrow> u64 \<Rightarrow> DhtStorage \<times> nat" where
  "sweep_expired s now =
     (let before = length (ds_records s);
          s = s\<lparr>ds_records := filter (\<lambda>(key, stored). sr_expires_at stored \<ge> now) (ds_records s)\<rparr>
      in (s, before - length (ds_records s)))"

definition all_records :: "DhtStorage \<Rightarrow> u64 \<Rightarrow> DhtRecord list" where
  "all_records s now =
     map sr_record (filter (\<lambda>stored. sr_expires_at stored \<ge> now) (map snd (ds_records s)))"

section \<open>Invariant\<close>

definition storage_inv :: "DhtStorage \<Rightarrow> bool" where
  "storage_inv s \<longleftrightarrow> hm_ok (ds_records s) \<and> length (ds_records s) \<le> ds_max_records s
     \<and> (\<forall>(key, st) \<in> set (ds_records s).
          key = dr_key (sr_record st) \<and> length (dr_value (sr_record st)) \<le> ds_max_record_size s
          \<and> dr_ttl_seconds (sr_record st) \<le> MAX_TTL_SECONDS
          \<and> sr_expires_at st = dr_timestamp (sr_record st) + ucast (dr_ttl_seconds (sr_record st)))"

lemma DhtStorage_put_cases:
  assumes "DhtStorage_put s r now = (s', res)"
  obtains (err) e where "res = Inl e" and "s' = s"
  | (ok) "res = Inr ()" and "length (dr_value r) \<le> ds_max_record_size s" and "dr_ttl_seconds r \<le> MAX_TTL_SECONDS"
      and "now \<le> dr_timestamp r + ucast (dr_ttl_seconds r)"
      and "hm_contains (ds_records s) (dr_key r) \<or> length (ds_records s) < ds_max_records s"
      and "s' = s\<lparr>ds_records := hm_insert (dr_key r)
             \<lparr>sr_record = r, sr_expires_at = dr_timestamp r + ucast (dr_ttl_seconds r)\<rparr> (ds_records s)\<rparr>"
  using assms that by (auto simp: DhtStorage_put_def Let_def not_less not_le split: if_splits)

lemma storage_inv_new [simp]: "storage_inv (DhtStorage_new config)"
  by (simp add: storage_inv_def DhtStorage_new_def)

lemma storage_inv_put [inv_intro]:
  assumes "storage_inv s"
  shows "storage_inv (fst (DhtStorage_put s r now))"
proof -
  obtain s' res where p: "DhtStorage_put s r now = (s', res)" by (cases "DhtStorage_put s r now")
  then have "storage_inv s'"
  proof (cases rule: DhtStorage_put_cases)
    case ok
    have "length (ds_records s') \<le> ds_max_records s"
      using assms ok(5) [unfolded hm_contains_iff]
      by (cases "dr_key r \<in> fst ` set (ds_records s)") (simp_all add: ok(6) hm_length_insert storage_inv_def)
    then show ?thesis
      using assms ok hm_set_insert [of "dr_key r" _ "ds_records s"] by (fastforce simp: storage_inv_def)
  qed (use assms in simp)
  with p show ?thesis by simp
qed

lemma storage_inv_remove [inv_intro]: "storage_inv s \<Longrightarrow> storage_inv (fst (DhtStorage_remove s key))"
  using hm_set_remove [of key "ds_records s"] length_delete_le [of key "ds_records s"]
  by (auto simp: storage_inv_def DhtStorage_remove_def)

lemma storage_inv_sweep [inv_intro]: "storage_inv s \<Longrightarrow> storage_inv (fst (sweep_expired s now))"
  using le_trans [OF length_filter_le, of "ds_records s"]
  by (auto simp: storage_inv_def sweep_expired_def Let_def)

section \<open>Background sweeps\<close>

text \<open>
  A store whose entries have a life time: an entry visible at some time was visible at every earlier time,
  and a sweep at time \<open>t\<close> is not observable at \<open>t\<close> or later.
\<close>

locale expiring_store =
  fixes ok :: "'s \<Rightarrow> bool" and lookup :: "'s \<Rightarrow> 'k \<Rightarrow> 't::linorder \<Rightarrow> 'v option" and sweep :: "'s \<Rightarrow> 't \<Rightarrow> 's"
  assumes expire: "t \<le> t' \<Longrightarrow> lookup s k t' = Some v \<Longrightarrow> lookup s k t = Some v"
    and sweep_ok: "ok s \<Longrightarrow> ok (sweep s t)"
    and sweep_lookup: "ok s \<Longrightarrow> t \<le> t' \<Longrightarrow> lookup (sweep s t) k t' = lookup s k t'"
begin

lemma expired_stays: "t \<le> t' \<Longrightarrow> lookup s k t = None \<Longrightarrow> lookup s k t' = None"
  using expire by (cases "lookup s k t'") fastforce+

lemma sweeps_invisible:
  assumes "ok s" and "\<And>t. t \<in> set ts \<Longrightarrow> t \<le> t'"
  shows "lookup (foldl sweep s ts) k t' = lookup s k t'"
  using assms
proof (induction ts arbitrary: s)
  case (Cons t ts)
  then show ?case using Cons.IH [of "sweep s t"] by (simp add: sweep_ok sweep_lookup)
qed simp

end

interpretation dht_store: expiring_store storage_inv DhtStorage_get "\<lambda>s now. fst (sweep_expired s now)"
proof
  fix s k and t t' :: u64
  assume "storage_inv s" and "t \<le> t'"
  then show "DhtStorage_get (fst (sweep_expired s t)) k t' = DhtStorage_get s k t'"
    by (cases "hm_get (ds_records s) k")
      (auto simp: DhtStorage_get_def sweep_expired_def Let_def storage_inv_def hm_get_filter not_le
        dest: less_le_trans)
qed (auto simp: DhtStorage_get_def inv_intro split: option.splits if_splits)

section \<open>Theorems\<close>

datatype dht_op = OpPut DhtRecord u64 | OpRemove bytes | OpSweep u64

fun dht_step :: "DhtStorage \<Rightarrow> dht_op \<Rightarrow> DhtStorage" where
  "dht_step s (OpPut r now) = fst (DhtStorage_put s r now)"
| "dht_step s (OpRemove key) = fst (DhtStorage_remove s key)"
| "dht_step s (OpSweep now) = fst (sweep_expired s now)"

lemma storage_inv_run: "storage_inv s \<Longrightarrow> storage_inv (foldl dht_step s ops)"
proof (induction ops arbitrary: s)
  case (Cons op ops)
  then show ?case by (cases op) (simp_all add: inv_intro)
qed simp

lemma dht_step_limits [simp]:
  "ds_max_records (dht_step s op) = ds_max_records s" "ds_max_record_size (dht_step s op) = ds_max_record_size s"
  by (cases op; simp add: DhtStorage_put_def DhtStorage_remove_def sweep_expired_def Let_def)+

lemma dht_run_limits:
  "ds_max_records (foldl dht_step s ops) = ds_max_records s"
  "ds_max_record_size (foldl dht_step s ops) = ds_max_record_size s"
  by (induction ops arbitrary: s) simp_all

text \<open>C32: whatever sequence of stores, removals and sweeps a node performs, its storage never exceeds the configured
  number of records, and every record a lookup returns is stored under its own key, within the size limit,
  with a TTL of at most 30 days and not past its expiry.\<close>

theorem dht_storage_bounded:
  assumes "s = foldl dht_step (DhtStorage_new config) ops"
  shows "DhtStorage_len s \<le> dc_max_records config
    \<and> (\<forall>key now r. DhtStorage_get s key now = Some r \<longrightarrow>
         dr_key r = key \<and> length (dr_value r) \<le> dc_max_record_size config
         \<and> dr_ttl_seconds r \<le> MAX_TTL_SECONDS \<and> now \<le> dr_timestamp r + ucast (dr_ttl_seconds r))"
proof -
  have inv: "storage_inv s" unfolding assms by (rule storage_inv_run) simp
  have lim: "ds_max_records s = dc_max_records config" "ds_max_record_size s = dc_max_record_size config"
    unfolding assms dht_run_limits by (simp_all add: DhtStorage_new_def)
  have "dr_key r = key \<and> length (dr_value r) \<le> dc_max_record_size config
      \<and> dr_ttl_seconds r \<le> MAX_TTL_SECONDS \<and> now \<le> dr_timestamp r + ucast (dr_ttl_seconds r)"
    if get: "DhtStorage_get s key now = Some r" for key now r
  proof -
    obtain st where "(key, st) \<in> set (ds_records s)" "r = sr_record st" "now \<le> sr_expires_at st"
      using get map_of_SomeD [of "ds_records s" key]
      by (cases "hm_get (ds_records s) key") (auto simp: DhtStorage_get_def not_less split: if_splits)
    then show ?thesis using inv lim by (auto simp: storage_inv_def)
  qed
  then show ?thesis using inv lim by (auto simp: storage_inv_def DhtStorage_len_def)
qed

text \<open>C27: a rejected record leaves the store unchanged; after an accepted one, lookups of its key return it exactly
  until its expiry time (timestamp plus TTL) has passed, whatever was stored there before, and lookups of other keys
  are unaffected, at every later time.\<close>

theorem dht_put_get:
  "case DhtStorage_put s r now of
     (s', Inl e) \<Rightarrow> s' = s
   | (s', Inr u) \<Rightarrow> (\<forall>key t. DhtStorage_get s' key t =
        (if key = dr_key r then (if dr_timestamp r + ucast (dr_ttl_seconds r) < t then None else Some r)
         else DhtStorage_get s key t))"
proof -
  obtain s' res where p: "DhtStorage_put s r now = (s', res)" by (cases "DhtStorage_put s r now")
  then show ?thesis
    by (cases rule: DhtStorage_put_cases) (simp_all add: p DhtStorage_get_def)
qed

text \<open>C36: background sweeps are invisible: after any schedule of sweeps at times up to \<open>t\<close>, lookups at \<open>t\<close> give
  the same answers as without them, and expired records never come back.\<close>

theorem dht_sweeps_invisible:
  assumes "storage_inv s" and "\<forall>u \<in> set ts. u \<le> t"
  shows "DhtStorage_get (foldl (\<lambda>s now. fst (sweep_expired s now)) s ts) key t = DhtStorage_get s key t
    \<and> (t \<le> t' \<longrightarrow> DhtStorage_get s key t = None \<longrightarrow> DhtStorage_get s key t' = None)"
  using dht_store.sweeps_invisible [OF assms(1), of ts t key] dht_store.expired_stays [of t t' s key] assms(2)
  by blast

text \<open>A timestamp in the future is not rejected, so a record can stay visible longer than its TTL.\<close>

lemma dht_future_record_accepted:
  assumes "unat now + h + unat (dr_ttl_seconds r) < 2 ^ 64" and "dr_timestamp r = now + of_nat h"
    and "dr_ttl_seconds r \<le> MAX_TTL_SECONDS" and "length (dr_value r) \<le> ds_max_record_size s"
    and "length (ds_records s) < ds_max_records s"
  shows "snd (DhtStorage_put s r now) = Inr ()"
    and "DhtStorage_get (fst (DhtStorage_put s r now)) (dr_key r) (now + of_nat h) = Some r"
proof -
  have h: "unat (of_nat h :: u64) = h"
    using assms(1) by (simp add: unsigned_of_nat take_bit_nat_eq_self)
  have t: "unat (ucast (dr_ttl_seconds r) :: u64) = unat (dr_ttl_seconds r)"
    using unat_bound [of "dr_ttl_seconds r"] by (simp add: unsigned_ucast_eq take_bit_nat_eq_self)
  have a: "unat (now + of_nat h) = unat now + h" using assms(1) h by (simp add: unat_add_exact)
  then have "unat (now + of_nat h + ucast (dr_ttl_seconds r)) = unat now + h + unat (dr_ttl_seconds r)"
    using assms(1) t by (simp add: unat_add_exact)
  then have "\<not> now + of_nat h + ucast (dr_ttl_seconds r) < now"
    and "\<not> now + of_nat h + ucast (dr_ttl_seconds r) < now + of_nat h"
    using a by (simp_all add: word_less_nat_alt)
  then show "snd (DhtStorage_put s r now) = Inr ()"
    and "DhtStorage_get (fst (DhtStorage_put s r now)) (dr_key r) (now + of_nat h) = Some r"
    using assms(2-5) by (simp_all add: DhtStorage_put_def DhtStorage_get_def Let_def not_less)
qed

section \<open>Witnesses\<close>

definition sample_record :: DhtRecord where
  "sample_record =
     \<lparr>dr_key = [1], dr_record_type = Profile, dr_value = [2, 3], dr_publisher = [4], dr_timestamp = 100,
      dr_ttl_seconds = 50, dr_signature = []\<rparr>"

theorem dht_storage_bounded_witness:
  "DhtStorage_len (foldl dht_step (DhtStorage_new DhtConfig_default) [OpPut sample_record 100, OpSweep 120]) \<le> 100000"
  using dht_storage_bounded [OF refl, of DhtConfig_default "[OpPut sample_record 100, OpSweep 120]"]
  by (simp add: DhtConfig_default_def)

theorem dht_sweeps_invisible_witness:
  "DhtStorage_get (foldl (\<lambda>s now. fst (sweep_expired s now))
     (fst (DhtStorage_put (DhtStorage_new DhtConfig_default) sample_record 100)) [100, 130]) [1] 150 = Some sample_record"
  using dht_sweeps_invisible
    [OF storage_inv_put [OF storage_inv_new], of "[100, 130]" 150 DhtConfig_default sample_record 100 "[1]" 150]
  by (simp add: DhtStorage_put_def DhtStorage_new_def DhtConfig_default_def sample_record_def MAX_RECORD_SIZE_def
      MAX_TTL_SECONDS_def DhtStorage_get_def)

end
