(* ===== verification/Dht_Query.thy ===== *)
theory Dht_Query
  imports Dht_Routing Dht_Storage
begin

text \<open>
  Crate \<^verbatim>\<open>ephemera-dht\<close>, file \<^verbatim>\<open>query.rs\<close>: the state of one iterative lookup, and the lookup as a
  transition system whose steps are the responses of queried nodes.
\<close>

record DhtQuery =
  q_target :: bytes
  q_local_id :: NodeId
  q_alpha :: nat
  q_k :: nat
  q_queried :: "NodeId set"
  q_candidates :: "(bytes, NodeId) btree_map"
  q_finished :: bool
  q_found_value :: "DhtRecord option"

definition DhtQuery_new :: "bytes \<Rightarrow> DhtConfig \<Rightarrow> RoutingTable \<Rightarrow> DhtQuery" where
  "DhtQuery_new target config routing_table =
     (let target_node = NodeId target;
          seeds = RoutingTable_closest routing_table target_node (dc_k config);
          candidates = foldl (\<lambda>c entry. bt_insert (xor_distance (ne_id entry) target_node) (ne_id entry) c) [] seeds
      in \<lparr>q_target = target, q_local_id = rt_local_id routing_table, q_alpha = dc_alpha config, q_k = dc_k config,
          q_queried = {}, q_candidates = candidates, q_finished = False, q_found_value = None\<rparr>)"

definition next_to_query :: "DhtQuery \<Rightarrow> NodeId list" where
  "next_to_query q = take (q_alpha q) (filter (\<lambda>n. n \<notin> q_queried q) (map snd (q_candidates q)))"

fun add_candidate ::
    "NodeId \<Rightarrow> NodeId \<Rightarrow> (bytes, NodeId) btree_map \<times> bool \<Rightarrow> NodeId \<Rightarrow> (bytes, NodeId) btree_map \<times> bool" where
  "add_candidate local_id target_node (candidates, learned_closer) node =
     (if node = local_id then (candidates, learned_closer)
      else let dist = xor_distance node target_node
           in case bt_get candidates dist of
                None \<Rightarrow> (bt_insert dist node candidates, True)
              | Some _ \<Rightarrow> (candidates, learned_closer))"

definition process_find_node_response :: "DhtQuery \<Rightarrow> NodeId \<Rightarrow> NodeId list \<Rightarrow> DhtQuery \<times> bool" where
  "process_find_node_response q from_node closer_nodes =
     (let q = q\<lparr>q_queried := insert from_node (q_queried q)\<rparr>;
          target_node = NodeId (q_target q);
          (candidates, learned_closer) =
            foldl (add_candidate (q_local_id q) target_node) (q_candidates q, False) closer_nodes;
          q = q\<lparr>q_candidates := candidates\<rparr>;
          next = next_to_query q;
          q = (if next = [] then q\<lparr>q_finished := True\<rparr> else q)
      in (q, learned_closer))"

definition set_found_value :: "DhtQuery \<Rightarrow> DhtRecord \<Rightarrow> DhtQuery" where
  "set_found_value q r = q\<lparr>q_found_value := Some r, q_finished := True\<rparr>"

definition take_found_value :: "DhtQuery \<Rightarrow> DhtQuery \<times> DhtRecord option" where
  "take_found_value q = (q\<lparr>q_found_value := None\<rparr>, q_found_value q)"

definition closest_results :: "DhtQuery \<Rightarrow> NodeId list" where
  "closest_results q = take (q_k q) (map snd (q_candidates q))"

definition queried_count :: "DhtQuery \<Rightarrow> nat" where
  "queried_count q = card (q_queried q)"

section \<open>Invariant\<close>

text \<open>The candidate map is exactly a set of nodes, each filed under its distance to the target; the local node is
  not among them.\<close>

definition candidate_nodes :: "DhtQuery \<Rightarrow> NodeId set" where
  "candidate_nodes q = snd ` set (q_candidates q)"

definition cand_ok :: "NodeId \<Rightarrow> NodeId \<Rightarrow> (bytes, NodeId) btree_map \<Rightarrow> bool" where
  "cand_ok local_id target c \<longleftrightarrow> bt_ok c \<and>
     (\<forall>(d, n) \<in> set c. d = xor_distance n target \<and> node_ok n \<and> n \<noteq> local_id)"

definition query_inv :: "DhtQuery \<Rightarrow> bool" where
  "query_inv q \<longleftrightarrow> node_ok (NodeId (q_target q)) \<and> cand_ok (q_local_id q) (NodeId (q_target q)) (q_candidates q)"

lemma cand_okD:
  assumes "cand_ok l t c" and "(d, m) \<in> set c"
  shows "d = xor_distance m t" and "node_ok m" and "m \<noteq> l"
  using assms by (auto simp: cand_ok_def)

lemma cand_same:
  assumes "cand_ok l t c" and "node_ok t" and "node_ok n" and "(xor_distance n t, m) \<in> set c"
  shows "m = n"
  using cand_okD [OF assms(1,4)] assms(2,3) xor_distance_inject [of n m t] by simp

lemma cand_ok_get:
  assumes "cand_ok l t c" and "node_ok t" and "node_ok n"
  shows "bt_get c (xor_distance n t) = (if n \<in> snd ` set c then Some n else None)"
proof -
  have *: "bt_get c (xor_distance n t) = Some m \<longleftrightarrow> (xor_distance n t, m) \<in> set c" for m
    using assms(1) by (auto simp: cand_ok_def bt_ok_distinct)
  have "(xor_distance n t, m) \<in> set c \<longleftrightarrow> m = n \<and> n \<in> snd ` set c" for m
  proof
    assume mem: "(xor_distance n t, m) \<in> set c"
    then have "m = n" using cand_same assms by blast
    with mem show "m = n \<and> n \<in> snd ` set c" by (metis image_eqI snd_conv)
  next
    assume "m = n \<and> n \<in> snd ` set c"
    then obtain d where "(d, n) \<in> set c" and "m = n" by auto
    then show "(xor_distance n t, m) \<in> set c" using cand_okD(1) [OF assms(1)] by blast
  qed
  with * show ?thesis by (metis option.exhaust)
qed

lemma cand_ok_insert:
  assumes "cand_ok l t c" and "node_ok t" and "node_ok n" and "n \<noteq> l"
  shows "cand_ok l t (bt_insert (xor_distance n t) n c)"
    and "snd ` set (bt_insert (xor_distance n t) n c) = insert n (snd ` set c)"
proof -
  have s: "set (bt_insert (xor_distance n t) n c)
      = {e \<in> set c. fst e \<noteq> xor_distance n t} \<union> {(xor_distance n t, n)}"
    using assms(1) by (simp add: cand_ok_def bt_set_insert)
  show "cand_ok l t (bt_insert (xor_distance n t) n c)"
    using assms by (auto simp: cand_ok_def s)
  have "\<forall>e \<in> set c. fst e = xor_distance n t \<longrightarrow> snd e = n"
    using cand_same [OF assms(1-3)] by (metis prod.collapse)
  then show "snd ` set (bt_insert (xor_distance n t) n c) = insert n (snd ` set c)"
    by (auto simp: s image_iff)
qed

lemma add_candidates:
  assumes "cand_ok l t c" and "node_ok t" and "\<forall>n \<in> set ns. node_ok n"
    and "foldl (add_candidate l t) (c, b) ns = (c', b')"
  shows "cand_ok l t c' \<and> snd ` set c' = snd ` set c \<union> (set ns - {l})
    \<and> (b' \<longleftrightarrow> b \<or> \<not> set ns - {l} \<subseteq> snd ` set c)"
  using assms
proof (induction ns arbitrary: c b)
  case (Cons n ns)
  show ?case
  proof (cases "n = l \<or> n \<in> snd ` set c")
    case True
    then have "add_candidate l t (c, b) n = (c, b)"
      using Cons.prems cand_ok_get [of l t c n] by auto
    then show ?thesis using Cons.IH [of c b] Cons.prems True by auto
  next
    case False
    let ?c = "bt_insert (xor_distance n t) n c"
    have "add_candidate l t (c, b) n = (?c, True)"
      using Cons.prems False cand_ok_get [of l t c n] by simp
    then show ?thesis
      using Cons.IH [of ?c True] Cons.prems False cand_ok_insert [of l t c n] by auto
  qed
qed auto

lemma query_new:
  assumes "table_inv rt" and "length target = 32"
  shows "query_inv (DhtQuery_new target config rt)"
    and "candidate_nodes (DhtQuery_new target config rt)
           = ne_id ` set (RoutingTable_closest rt (NodeId target) (dc_k config))"
proof -
  let ?t = "NodeId target" and ?l = "rt_local_id rt"
  have t: "node_ok ?t" using assms(2) by (simp add: node_ok_def)
  have f: "cand_ok ?l ?t (foldl (\<lambda>c e. bt_insert (xor_distance (ne_id e) ?t) (ne_id e) c) c es)
      \<and> snd ` set (foldl (\<lambda>c e. bt_insert (xor_distance (ne_id e) ?t) (ne_id e) c) c es)
          = snd ` set c \<union> ne_id ` set es"
    if "cand_ok ?l ?t c" and "\<forall>e \<in> set es. node_ok (ne_id e) \<and> ne_id e \<noteq> ?l" for c es
    using that by (induction es arbitrary: c) (simp_all add: cand_ok_insert t)
  have "set (RoutingTable_closest rt ?t (dc_k config)) \<subseteq> set (all_entries rt)"
    unfolding RoutingTable_closest_def by (metis set_sort set_take_subset)
  then have "\<forall>e \<in> set (RoutingTable_closest rt ?t (dc_k config)). node_ok (ne_id e) \<and> ne_id e \<noteq> ?l"
    using all_entries_ok [OF assms(1)] by blast
  from f [OF _ this, of "[]"] show "query_inv (DhtQuery_new target config rt)"
    and "candidate_nodes (DhtQuery_new target config rt) = ne_id ` set (RoutingTable_closest rt ?t (dc_k config))"
    using t by (simp_all add: query_inv_def DhtQuery_new_def candidate_nodes_def cand_ok_def Let_def)
qed

lemma process_response:
  assumes "query_inv q" and "\<forall>n \<in> set ns. node_ok n" and "process_find_node_response q from_node ns = (q', learned)"
  shows "query_inv q'" and "q_queried q' = insert from_node (q_queried q)"
    and "candidate_nodes q' = candidate_nodes q \<union> (set ns - {q_local_id q})"
    and "learned \<longleftrightarrow> \<not> set ns - {q_local_id q} \<subseteq> candidate_nodes q"
    and "q_finished q' \<longleftrightarrow> q_finished q \<or> next_to_query q' = []"
    and "q_target q' = q_target q" "q_local_id q' = q_local_id q" "q_alpha q' = q_alpha q" "q_k q' = q_k q"
    and "q_found_value q' = q_found_value q"
proof -
  obtain c b where f: "foldl (add_candidate (q_local_id q) (NodeId (q_target q))) (q_candidates q, False) ns = (c, b)"
    by fastforce
  define p where "p = q\<lparr>q_queried := insert from_node (q_queried q), q_candidates := c\<rparr>"
  have q': "q' = (if next_to_query p = [] then p\<lparr>q_finished := True\<rparr> else p)" and l: "learned = b"
    using assms(3) by (auto simp: process_find_node_response_def f p_def Let_def)
  have cand: "cand_ok (q_local_id q) (NodeId (q_target q)) c"
      "snd ` set c = candidate_nodes q \<union> (set ns - {q_local_id q})"
      "b \<longleftrightarrow> \<not> set ns - {q_local_id q} \<subseteq> candidate_nodes q"
    using add_candidates [OF _ _ assms(2) f] assms(1) by (simp_all add: query_inv_def candidate_nodes_def)
  have n: "next_to_query q' = next_to_query p" by (simp add: q' next_to_query_def)
  show "query_inv q'" using assms(1) cand(1) by (simp add: q' p_def query_inv_def)
  show "candidate_nodes q' = candidate_nodes q \<union> (set ns - {q_local_id q})"
    using cand(2) by (simp add: q' p_def candidate_nodes_def)
  show "learned \<longleftrightarrow> \<not> set ns - {q_local_id q} \<subseteq> candidate_nodes q" using cand(3) by (simp only: l)
  show "q_finished q' \<longleftrightarrow> q_finished q \<or> next_to_query q' = []" unfolding n by (simp add: q') (simp add: p_def)
qed (use assms(3) in \<open>auto simp: process_find_node_response_def Let_def split: prod.splits if_splits\<close>)

section \<open>The lookup as a transition system\<close>

text \<open>\<open>resp n\<close> is the list of nodes that node \<open>n\<close> returns. A step is the arrival of the response of some node of
  the current batch; the order of responses within a batch is arbitrary.\<close>

inductive lookup_step :: "(NodeId \<Rightarrow> NodeId list) \<Rightarrow> DhtQuery \<Rightarrow> DhtQuery \<Rightarrow> bool" for resp where
  respond: "\<not> q_finished q \<Longrightarrow> n \<in> set (next_to_query q)
              \<Longrightarrow> lookup_step resp q (fst (process_find_node_response q n (resp n)))"

inductive_simps lookup_step_simps: "lookup_step resp q q'"

text \<open>The nodes a lookup can learn of: the seeds and, recursively, what known nodes return, except the local node.\<close>

inductive_set known_nodes :: "(NodeId \<Rightarrow> NodeId list) \<Rightarrow> NodeId \<Rightarrow> NodeId set \<Rightarrow> NodeId set"
  for resp local_id seeds where
  seed: "n \<in> seeds \<Longrightarrow> n \<in> known_nodes resp local_id seeds"
| learn: "m \<in> known_nodes resp local_id seeds \<Longrightarrow> n \<in> set (resp m) \<Longrightarrow> n \<noteq> local_id
            \<Longrightarrow> n \<in> known_nodes resp local_id seeds"

definition lookup_inv :: "(NodeId \<Rightarrow> NodeId list) \<Rightarrow> NodeId set \<Rightarrow> DhtQuery \<Rightarrow> bool" where
  "lookup_inv resp seeds q \<longleftrightarrow> query_inv q
     \<and> seeds \<subseteq> candidate_nodes q \<and> candidate_nodes q \<subseteq> known_nodes resp (q_local_id q) seeds
     \<and> q_queried q \<subseteq> candidate_nodes q
     \<and> (\<forall>n \<in> q_queried q. set (resp n) - {q_local_id q} \<subseteq> candidate_nodes q)
     \<and> (q_finished q \<longrightarrow> next_to_query q = [])"

lemma next_to_query_sub: "set (next_to_query q) \<subseteq> candidate_nodes q - q_queried q"
  by (auto simp: next_to_query_def candidate_nodes_def dest!: in_set_takeD)

lemma next_to_query_Nil: "0 < q_alpha q \<Longrightarrow> next_to_query q = [] \<longleftrightarrow> candidate_nodes q \<subseteq> q_queried q"
  by (auto simp: next_to_query_def candidate_nodes_def filter_empty_conv)

lemma lookup_step_facts:
  assumes "lookup_step resp q q'" and "lookup_inv resp seeds q" and "\<And>n. \<forall>m \<in> set (resp n). node_ok m"
  shows "lookup_inv resp seeds q' \<and> q_local_id q' = q_local_id q \<and> q_target q' = q_target q \<and> q_k q' = q_k q
    \<and> q_alpha q' = q_alpha q \<and> (\<exists>n \<in> candidate_nodes q - q_queried q. q_queried q' = insert n (q_queried q))"
proof -
  from assms(1) obtain n where n: "\<not> q_finished q" "n \<in> candidate_nodes q - q_queried q"
      "q' = fst (process_find_node_response q n (resp n))"
    using next_to_query_sub by (auto simp: lookup_step_simps)
  have "process_find_node_response q n (resp n) = (q', snd (process_find_node_response q n (resp n)))"
    by (simp add: n(3))
  note p = process_response [OF _ assms(3) this]
  have inv: "query_inv q" using assms(2) by (simp add: lookup_inv_def)
  have "set (resp n) - {q_local_id q} \<subseteq> known_nodes resp (q_local_id q) seeds"
    using assms(2) n(2) by (auto simp: lookup_inv_def intro: known_nodes.learn)
  then have "lookup_inv resp seeds q'"
    using assms(2) n(1,2) p(1-3,5,7) [OF inv] by (auto simp: lookup_inv_def)
  then show ?thesis using n(2) p(2,6-9) [OF inv] by auto
qed

lemma lookup_run:
  assumes "(lookup_step resp ^^ i) q q'" and "lookup_inv resp seeds q" and "\<And>n. \<forall>m \<in> set (resp n). node_ok m"
    and "finite (q_queried q)"
  shows "lookup_inv resp seeds q' \<and> q_local_id q' = q_local_id q \<and> q_target q' = q_target q \<and> q_k q' = q_k q
    \<and> q_alpha q' = q_alpha q \<and> finite (q_queried q') \<and> card (q_queried q') = card (q_queried q) + i"
  using assms(1)
proof (induction i arbitrary: q')
  case 0
  then show ?case using assms(2,4) by simp
next
  case (Suc i)
  then obtain p where p: "(lookup_step resp ^^ i) q p" "lookup_step resp p q'" by auto
  note ih = Suc.IH [OF p(1)]
  then have "lookup_inv resp seeds p" by blast
  from lookup_step_facts [OF p(2) this assms(3)] ih show ?case by auto
qed

text \<open>The candidate list is sorted by distance, so its first \<open>k\<close> nodes are the closest.\<close>

lemma closest_results_nearest:
  assumes "query_inv q"
  shows "set (closest_results q) \<subseteq> candidate_nodes q"
    and "length (closest_results q) = min (q_k q) (card (candidate_nodes q))"
    and "sorted_wrt (\<lambda>a b. xor_distance a (NodeId (q_target q)) < xor_distance b (NodeId (q_target q))) (closest_results q)"
    and "a \<in> set (closest_results q) \<Longrightarrow> b \<in> candidate_nodes q - set (closest_results q)
           \<Longrightarrow> xor_distance a (NodeId (q_target q)) < xor_distance b (NodeId (q_target q))"
proof -
  let ?d = "\<lambda>n. xor_distance n (NodeId (q_target q))" and ?ns = "map snd (q_candidates q)"
  have eq: "map ?d ?ns = map fst (q_candidates q)"
    using assms by (auto simp: query_inv_def cand_ok_def)
  have "sorted_wrt (<) (map ?d ?ns)" unfolding eq using assms by (simp add: query_inv_def cand_ok_def)
  then have s: "sorted_wrt (\<lambda>a b. ?d a < ?d b) (take (q_k q) ?ns @ drop (q_k q) ?ns)"
    by (simp only: sorted_wrt_map append_take_drop_id)
  have "distinct ?ns"
    using \<open>sorted_wrt (<) (map ?d ?ns)\<close> by (metis distinct_map strict_sorted_iff)
  then have "card (candidate_nodes q) = length ?ns"
    using distinct_card [of ?ns] by (simp add: candidate_nodes_def)
  then show "length (closest_results q) = min (q_k q) (card (candidate_nodes q))"
    by (simp add: closest_results_def min.commute)
  show "set (closest_results q) \<subseteq> candidate_nodes q"
    by (auto simp: closest_results_def candidate_nodes_def dest!: in_set_takeD)
  show "sorted_wrt (\<lambda>a b. ?d a < ?d b) (closest_results q)"
    using s unfolding closest_results_def sorted_wrt_append by blast
  have "candidate_nodes q = set (take (q_k q) ?ns) \<union> set (drop (q_k q) ?ns)"
    unfolding candidate_nodes_def set_map [symmetric] set_append [symmetric] append_take_drop_id ..
  then show "?d a < ?d b" if "a \<in> set (closest_results q)" and "b \<in> candidate_nodes q - set (closest_results q)"
    using s that unfolding closest_results_def sorted_wrt_append by blast
qed

lemma lookup_inv_new:
  assumes "table_inv rt" and "length target = 32"
  shows "lookup_inv resp (ne_id ` set (RoutingTable_closest rt (NodeId target) (dc_k config))) (DhtQuery_new target config rt)"
  using query_new [OF assms, of config]
  by (auto simp: lookup_inv_def intro: known_nodes.seed) (simp_all add: DhtQuery_new_def Let_def)

section \<open>Theorems\<close>



text \<open>The flag returned with a response means \<open>new\<close>, not \<open>closer\<close>: here the reported node is farther from the
  target than the candidate already known.\<close>

lemma learned_flag_ignores_distance:
  "snd (process_find_node_response
     \<lparr>q_target = [0], q_local_id = NodeId [9], q_alpha = 3, q_k = 20, q_queried = {},
      q_candidates = [([1], NodeId [1])], q_finished = False, q_found_value = None\<rparr> (NodeId [1]) [NodeId [5]])"
  by (simp add: process_find_node_response_def xor_distance_def Let_def)

section \<open>Witnesses\<close>

definition sample_table :: RoutingTable where
  "sample_table = fst (RoutingTable_insert (RoutingTable_new (NodeId (replicate 32 0)) 20) (hd sample_entries))"

definition sample_resp :: "NodeId \<Rightarrow> NodeId list" where
  "sample_resp n = (if n = NodeId (replicate 32 1) then [NodeId (replicate 32 2), NodeId (replicate 32 0)] else [])"

definition sample_q0 :: DhtQuery where
  "sample_q0 = DhtQuery_new (replicate 32 3) DhtConfig_default sample_table"

definition sample_q1 :: DhtQuery where
  "sample_q1 = fst (process_find_node_response sample_q0 (NodeId (replicate 32 1)) (sample_resp (NodeId (replicate 32 1))))"

definition sample_q2 :: DhtQuery where
  "sample_q2 = fst (process_find_node_response sample_q1 (NodeId (replicate 32 2)) (sample_resp (NodeId (replicate 32 2))))"

lemma sample_table_inv: "table_inv sample_table"
  unfolding sample_table_def
  by (intro table_inv_insert table_inv_new)
    (simp_all add: node_ok_def sample_entries_def NodeEntry_new_def)

lemma sample_resp_ok: "\<forall>m \<in> set (sample_resp n). node_ok m"
  by (auto simp: sample_resp_def node_ok_def)

lemma xor_distance_replicate:
  "xor_distance (NodeId (replicate n a)) (NodeId (replicate n b)) = replicate n (a XOR b)"
  by (simp add: xor_distance_def zip_replicate)

lemma replicate_less: "replicate (Suc n) a < replicate (Suc n) (b :: u8) \<longleftrightarrow> a < b"
  by (induction n) auto

lemma concat_single: "i < n \<Longrightarrow> concat ((replicate n [])[i := xs]) = xs"
  by (induction n arbitrary: i) (auto split: nat.split simp: concat_eq_Nil_conv)

lemma sample_table_entries: "all_entries sample_table = [hd sample_entries]"
proof -
  have "leading_zeros (1 :: u8) = 7" by code_simp
  then have "leading_zeros_distance (NodeId (replicate 32 0)) (NodeId (replicate 32 1)) = Some 7"
    by (simp only: leading_zeros_distance_def xor_distance_replicate) (simp add: numeral_eq_Suc)
  then show ?thesis
    by (simp add: sample_table_def all_entries_def RoutingTable_insert_def RoutingTable_new_def bucket_index_def
        sample_entries_def NodeEntry_new_def KBucket_insert_def KBucket_new_def is_full_def ID_BITS_def map_update
        comp_def map_replicate_const concat_single)
qed

lemma sample_q0_eval:
  "sample_q0 = \<lparr>q_target = replicate 32 3, q_local_id = NodeId (replicate 32 0), q_alpha = 3, q_k = 20, q_queried = {},
     q_candidates = [(replicate 32 2, NodeId (replicate 32 1))], q_finished = False, q_found_value = None\<rparr>"
proof -
  have "rt_local_id sample_table = NodeId (replicate 32 0)"
    by (simp add: sample_table_def RoutingTable_insert_def RoutingTable_new_def split: option.split prod.split)
  then show ?thesis
    by (simp add: sample_q0_def DhtQuery_new_def RoutingTable_closest_def sample_table_entries sample_entries_def
        NodeEntry_new_def DhtConfig_default_def xor_distance_replicate Let_def)
qed

lemma sample_q1_eval:
  "sample_q1 = sample_q0\<lparr>q_queried := {NodeId (replicate 32 1)},
     q_candidates := [(replicate 32 1, NodeId (replicate 32 2)), (replicate 32 2, NodeId (replicate 32 1))]\<rparr>"
  using replicate_less [of 31 1 2]
  by (simp add: sample_q1_def sample_q0_eval process_find_node_response_def sample_resp_def Let_def
      xor_distance_replicate next_to_query_def)

lemma sample_q2_eval:
  "sample_q2 = sample_q1\<lparr>q_queried := {NodeId (replicate 32 2), NodeId (replicate 32 1)}, q_finished := True\<rparr>"
  by (simp add: sample_q2_def sample_q1_eval sample_q0_eval process_find_node_response_def sample_resp_def Let_def
      next_to_query_def)

lemma sample_run: "(lookup_step sample_resp ^^ 2) sample_q0 sample_q2" and sample_end: "\<nexists>q'. lookup_step sample_resp sample_q2 q'"
proof -
  have "lookup_step sample_resp sample_q0 sample_q1"
    unfolding sample_q1_def by (rule respond) (simp_all add: sample_q0_eval next_to_query_def)
  moreover have "lookup_step sample_resp sample_q1 sample_q2"
    unfolding sample_q2_def by (rule respond) (simp_all add: sample_q1_eval sample_q0_eval next_to_query_def)
  ultimately show "(lookup_step sample_resp ^^ 2) sample_q0 sample_q2" by (auto simp: numeral_2_eq_2)
  show "\<nexists>q'. lookup_step sample_resp sample_q2 q'" by (simp add: lookup_step_simps sample_q2_eval)
qed

lemma known_finite: "finite (known_nodes sample_resp l (ne_id ` set xs))" for xs :: "NodeEntry list"
proof (rule finite_subset)
  show "known_nodes sample_resp l (ne_id ` set xs)
      \<subseteq> ne_id ` set xs \<union> {NodeId (replicate 32 2), NodeId (replicate 32 0)}"
    by (auto elim: known_nodes.cases simp: sample_resp_def split: if_splits)
qed simp



end
