(* ===== verification/Gossip.thy ===== *)
theory Gossip
  imports Identity Rust_Strings "HOL-Library.Multiset"
begin

text \<open>
  Crate \<^verbatim>\<open>ephemera-gossip\<close>, files \<^verbatim>\<open>topic.rs\<close>, \<^verbatim>\<open>fanout.rs\<close>, \<^verbatim>\<open>plumtree.rs\<close> and the errors of
  \<^verbatim>\<open>lib.rs\<close>. BLAKE3 is a parameter; the random shuffle of \<^verbatim>\<open>select_fanout\<close> is a parameter of which only
  that it permutes its argument is used. A \<^verbatim>\<open>HashSet\<close> is a set, so peer lists collected from one are sets here.
  A message handed to a subscriber channel (\<^verbatim>\<open>try_send\<close>, best effort) is an output of the operation.
\<close>

section \<open>Topics\<close>

datatype GossipTopic = GossipTopic (topic_bytes: bytes)

definition ascii_bytes :: "string \<Rightarrow> bytes" where
  "ascii_bytes s = map (\<lambda>c. of_nat (of_char c)) s"

definition public_feed :: "(bytes \<Rightarrow> bytes) \<Rightarrow> GossipTopic" where
  "public_feed blake3 = GossipTopic (blake3 (ascii_bytes ''ephemera-topic-public-feed-v1''))"

definition author_feed :: "(bytes \<Rightarrow> bytes) \<Rightarrow> bytes \<Rightarrow> GossipTopic" where
  "author_feed blake3 author_pubkey = GossipTopic (blake3 (ascii_bytes ''ephemera-topic-author-v1'' @ author_pubkey))"

definition topic_room :: "(bytes \<Rightarrow> bytes) \<Rightarrow> bytes \<Rightarrow> GossipTopic" where
  "topic_room blake3 room_id = GossipTopic (blake3 (ascii_bytes ''ephemera-topic-room-v1'' @ room_id))"

definition moderation_topic :: "(bytes \<Rightarrow> bytes) \<Rightarrow> GossipTopic" where
  "moderation_topic blake3 = GossipTopic (blake3 (ascii_bytes ''ephemera-topic-moderation-v1''))"

definition crdt_sync :: "(bytes \<Rightarrow> bytes) \<Rightarrow> bytes \<Rightarrow> GossipTopic" where
  "crdt_sync blake3 neighborhood_id = GossipTopic (blake3 (ascii_bytes ''ephemera-topic-crdt-v1'' @ neighborhood_id))"

definition bloom_updates :: "(bytes \<Rightarrow> bytes) \<Rightarrow> GossipTopic" where
  "bloom_updates blake3 = GossipTopic (blake3 (ascii_bytes ''ephemera-topic-bloom-v1''))"

definition reactions_topic :: "(bytes \<Rightarrow> bytes) \<Rightarrow> GossipTopic" where
  "reactions_topic blake3 = GossipTopic (blake3 (ascii_bytes ''ephemera-topic-reactions-v1''))"

definition direct_messages :: "(bytes \<Rightarrow> bytes) \<Rightarrow> GossipTopic" where
  "direct_messages blake3 = GossipTopic (blake3 (ascii_bytes ''ephemera-topic-dm-delivery-v1''))"

definition dht_lookup :: "(bytes \<Rightarrow> bytes) \<Rightarrow> GossipTopic" where
  "dht_lookup blake3 = GossipTopic (blake3 (ascii_bytes ''ephemera-topic-dht-lookup-v1''))"

record GossipMessage =
  gm_topic :: GossipTopic
  gm_payload :: bytes
  gm_content_hash :: bytes
  gm_source_node :: bytes

text \<open>\<^verbatim>\<open>NotSubscribed\<close> carries the topic whose displayed text the code stores; transport errors carry their
  text.\<close>

datatype GossipError =
    SubscriptionLimitReached nat nat
  | NotSubscribed GossipTopic
  | MessageTooLarge nat nat
  | GossipTransport string
  | ChannelClosed

section \<open>Fanout\<close>

record FanoutConfig =
  fc_max_message_size :: nat
  fc_eager_push_peers :: nat
  fc_lazy_push_peers :: nat
  fc_ihave_interval :: nat
  fc_lazy_timeout :: nat
  fc_max_subscriptions :: nat

text \<open>Durations are in milliseconds.\<close>

definition FanoutConfig_default :: FanoutConfig where
  "FanoutConfig_default =
     \<lparr>fc_max_message_size = 64 * 1024, fc_eager_push_peers = 3, fc_lazy_push_peers = 6, fc_ihave_interval = 500,
      fc_lazy_timeout = 2000, fc_max_subscriptions = 100\<rparr>"

definition total_fanout :: "FanoutConfig \<Rightarrow> nat" where
  "total_fanout c = fc_eager_push_peers c + fc_lazy_push_peers c"

definition select_fanout ::
    "(NodeId list \<Rightarrow> NodeId list) \<Rightarrow> NodeId list \<Rightarrow> FanoutConfig \<Rightarrow> NodeId list \<times> NodeId list" where
  "select_fanout shuffle candidates config =
     (if candidates = [] then ([], [])
      else
        let shuffled = shuffle candidates;
            eager_count = min (fc_eager_push_peers config) (length shuffled);
            eager = take eager_count shuffled;
            remaining = drop eager_count shuffled;
            lazy_count = min (fc_lazy_push_peers config) (length remaining);
            lazy = take lazy_count remaining
        in (eager, lazy))"

lemma select_fanout_partition:
  assumes "mset (shuffle candidates) = mset candidates" and "select_fanout shuffle candidates config = (eager, lazy)"
  shows "length eager = min (fc_eager_push_peers config) (length candidates)"
    and "length lazy = min (fc_lazy_push_peers config) (length candidates - length eager)"
    and "mset eager + mset lazy \<subseteq># mset candidates"
proof -
  let ?s = "if candidates = [] then [] else shuffle candidates"
  let ?e = "min (fc_eager_push_peers config) (length ?s)"
  have m: "mset ?s = mset candidates" using assms(1) by auto
  have l: "length ?s = length candidates" by (metis m size_mset)
  have e: "eager = take ?e ?s" and z: "lazy = take (fc_lazy_push_peers config) (drop ?e ?s)"
    using assms(2) by (auto simp: select_fanout_def Let_def min_def split: if_splits)
  show "length eager = min (fc_eager_push_peers config) (length candidates)" using l by (simp add: e)
  then show "length lazy = min (fc_lazy_push_peers config) (length candidates - length eager)"
    using l by (simp add: z)
  have "mset (take n xs) \<subseteq># mset (xs :: NodeId list)" for n xs
    by (metis append_take_drop_id mset_append mset_subset_eq_add_left)
  then have "mset eager + mset lazy \<subseteq># mset (take ?e ?s) + mset (drop ?e ?s)"
    unfolding e z by (intro subset_mset.add_mono) auto
  also have "\<dots> = mset candidates" by (metis append_take_drop_id m mset_append)
  finally show "mset eager + mset lazy \<subseteq># mset candidates" .
qed

section \<open>Deduplication\<close>

record MessageDedup =
  md_current :: "bytes set"
  md_previous :: "bytes set"
  md_epoch_start :: nat
  md_epoch_duration :: nat

text \<open>Times are nanoseconds of a monotonic clock; a rotation reads the clock a second time.\<close>

definition MessageDedup_new :: "nat \<Rightarrow> MessageDedup" where
  "MessageDedup_new now =
     \<lparr>md_current = {}, md_previous = {}, md_epoch_start = now, md_epoch_duration = 300 * 10 ^ 9\<rparr>"

definition maybe_rotate :: "MessageDedup \<Rightarrow> nat \<Rightarrow> nat \<Rightarrow> MessageDedup" where
  "maybe_rotate d t0 t1 =
     (if t0 - md_epoch_start d \<ge> md_epoch_duration d
      then d\<lparr>md_previous := md_current d, md_current := {}, md_epoch_start := t1\<rparr>
      else d)"

definition dedup_is_duplicate :: "MessageDedup \<Rightarrow> bytes \<Rightarrow> nat \<Rightarrow> nat \<Rightarrow> MessageDedup \<times> bool" where
  "dedup_is_duplicate d hash t0 t1 =
     (let d = maybe_rotate d t0 t1 in (d, hash \<in> md_current d \<or> hash \<in> md_previous d))"

definition dedup_mark_seen :: "MessageDedup \<Rightarrow> bytes \<Rightarrow> MessageDedup" where
  "dedup_mark_seen d hash = d\<lparr>md_current := insert hash (md_current d)\<rparr>"

datatype dedup_event = Check bytes nat nat | Mark bytes

fun dedup_step :: "MessageDedup \<Rightarrow> dedup_event \<Rightarrow> MessageDedup" where
  "dedup_step d (Check hash t0 t1) = fst (dedup_is_duplicate d hash t0 t1)"
| "dedup_step d (Mark hash) = dedup_mark_seen d hash"

fun check_times_from :: "nat \<Rightarrow> nat \<Rightarrow> dedup_event \<Rightarrow> bool" where
  "check_times_from t u (Check _ t0 t1) \<longleftrightarrow> t \<le> t0 \<and> t0 \<le> t1 \<and> t0 < u"
| "check_times_from t u (Mark _) \<longleftrightarrow> True"

text \<open>A hash marked at time \<open>t\<close> is remembered as long as every check is less than one epoch later.\<close>

definition remembered :: "bytes \<Rightarrow> nat \<Rightarrow> MessageDedup \<Rightarrow> bool" where
  "remembered hash t d \<longleftrightarrow> hash \<in> md_current d \<or> hash \<in> md_previous d \<and> t \<le> md_epoch_start d"

lemma remembered_step:
  assumes "remembered hash t d" and "check_times_from t (t + md_epoch_duration d) e"
  shows "remembered hash t (dedup_step d e)" and "md_epoch_duration (dedup_step d e) = md_epoch_duration d"
  using assms
  by (cases e; auto simp: remembered_def dedup_is_duplicate_def dedup_mark_seen_def maybe_rotate_def Let_def)+

lemma remembered_run:
  assumes "remembered hash t d" and "\<forall>e \<in> set es. check_times_from t (t + md_epoch_duration d) e"
  shows "remembered hash t (foldl dedup_step d es) \<and> md_epoch_duration (foldl dedup_step d es) = md_epoch_duration d"
  using assms by (induction es arbitrary: d) (simp_all add: remembered_step)

theorem dedup_window:
  assumes "es' = Mark hash # es" and "\<forall>e \<in> set es. check_times_from t (t + md_epoch_duration d) e"
    and "t \<le> t0" and "t0 < t + md_epoch_duration d"
  shows "snd (dedup_is_duplicate (foldl dedup_step d es') hash t0 t1)"
proof -
  let ?d = "foldl dedup_step (dedup_mark_seen d hash) es"
  have "remembered hash t ?d \<and> md_epoch_duration ?d = md_epoch_duration d"
    using remembered_run [of hash t "dedup_mark_seen d hash" es] assms(2)
    by (simp add: dedup_mark_seen_def remembered_def)
  then show ?thesis
    using assms(1,3,4) by (auto simp: dedup_is_duplicate_def Let_def maybe_rotate_def remembered_def)
qed

section \<open>The PlumTree engine\<close>

record TopicState =
  ts_topic :: GossipTopic
  ts_eager_peers :: "NodeId set"
  ts_lazy_peers :: "NodeId set"
  ts_seen :: "bytes set"
  ts_subscribed :: bool

definition TopicState_new :: "GossipTopic \<Rightarrow> TopicState" where
  "TopicState_new topic =
     \<lparr>ts_topic = topic, ts_eager_peers = {}, ts_lazy_peers = {}, ts_seen = {}, ts_subscribed = False\<rparr>"

definition topic_mark_seen :: "TopicState \<Rightarrow> bytes \<Rightarrow> TopicState" where
  "topic_mark_seen s hash = s\<lparr>ts_seen := insert hash (ts_seen s)\<rparr>"

definition add_eager_peer :: "TopicState \<Rightarrow> NodeId \<Rightarrow> TopicState" where
  "add_eager_peer s peer =
     s\<lparr>ts_lazy_peers := ts_lazy_peers s - {peer}, ts_eager_peers := insert peer (ts_eager_peers s)\<rparr>"

definition prune_to_lazy :: "TopicState \<Rightarrow> NodeId \<Rightarrow> TopicState" where
  "prune_to_lazy s peer =
     (if peer \<in> ts_eager_peers s
      then s\<lparr>ts_eager_peers := ts_eager_peers s - {peer}, ts_lazy_peers := insert peer (ts_lazy_peers s)\<rparr>
      else s)"

definition graft_to_eager :: "TopicState \<Rightarrow> NodeId \<Rightarrow> TopicState" where
  "graft_to_eager s peer =
     (if peer \<in> ts_lazy_peers s
      then s\<lparr>ts_lazy_peers := ts_lazy_peers s - {peer}, ts_eager_peers := insert peer (ts_eager_peers s)\<rparr>
      else s)"

definition topic_peer_count :: "TopicState \<Rightarrow> nat" where
  "topic_peer_count s = card (ts_eager_peers s) + card (ts_lazy_peers s)"

record PlumTreeEngine =
  pt_local_id :: NodeId
  pt_topics :: "(GossipTopic, TopicState) hash_map"
  pt_max_subscriptions :: nat
  pt_dedup :: MessageDedup

definition PlumTreeEngine_new :: "NodeId \<Rightarrow> nat \<Rightarrow> nat \<Rightarrow> PlumTreeEngine" where
  "PlumTreeEngine_new local_id max_subscriptions now =
     \<lparr>pt_local_id = local_id, pt_topics = [], pt_max_subscriptions = max_subscriptions,
      pt_dedup = MessageDedup_new now\<rparr>"

definition plumtree_subscribe :: "PlumTreeEngine \<Rightarrow> GossipTopic \<Rightarrow> PlumTreeEngine \<times> (GossipError + unit)" where
  "plumtree_subscribe e topic =
     (if length (pt_topics e) \<ge> pt_max_subscriptions e
      then (e, Inl (SubscriptionLimitReached (length (pt_topics e)) (pt_max_subscriptions e)))
      else (e\<lparr>pt_topics := hm_insert topic ((TopicState_new topic)\<lparr>ts_subscribed := True\<rparr>) (pt_topics e)\<rparr>, Inr ()))"

definition plumtree_unsubscribe :: "PlumTreeEngine \<Rightarrow> GossipTopic \<Rightarrow> PlumTreeEngine \<times> (GossipError + unit)" where
  "plumtree_unsubscribe e topic =
     (if \<not> hm_contains (pt_topics e) topic then (e, Inl (NotSubscribed topic))
      else (e\<lparr>pt_topics := hm_remove topic (pt_topics e)\<rparr>, Inr ()))"

text \<open>The result is the pair of peer sets to push to, the last component the message handed to the subscriber.\<close>

definition receive_message ::
    "PlumTreeEngine \<Rightarrow> GossipTopic \<Rightarrow> bytes \<Rightarrow> bytes \<Rightarrow> NodeId \<Rightarrow> nat \<Rightarrow> nat
       \<Rightarrow> PlumTreeEngine \<times> (NodeId set \<times> NodeId set) option \<times> GossipMessage option" where
  "receive_message e topic content_hash payload source t0 t1 =
     (let (d, dup) = dedup_is_duplicate (pt_dedup e) content_hash t0 t1;
          e = e\<lparr>pt_dedup := d\<rparr>
      in if dup then (e, None, None)
         else
           let e = e\<lparr>pt_dedup := dedup_mark_seen d content_hash\<rparr>
           in case hm_get (pt_topics e) topic of
                None \<Rightarrow> (e, None, None)
              | Some state \<Rightarrow>
                  if content_hash \<in> ts_seen state then (e, None, None)
                  else
                    let state = topic_mark_seen state content_hash;
                        e = e\<lparr>pt_topics := hm_insert topic state (pt_topics e)\<rparr>;
                        delivered =
                          (if ts_subscribed state
                           then Some \<lparr>gm_topic = topic, gm_payload = payload, gm_content_hash = content_hash,
                                      gm_source_node = node_bytes source\<rparr>
                           else None);
                        exclude = (\<lambda>p. p \<noteq> source \<and> p \<noteq> pt_local_id e)
                    in (e, Some ({p \<in> ts_eager_peers state. exclude p}, {p \<in> ts_lazy_peers state. exclude p}),
                        delivered))"

datatype peer_op = AddEager NodeId | Prune NodeId | Graft NodeId

fun peer_step :: "TopicState \<Rightarrow> peer_op \<Rightarrow> TopicState" where
  "peer_step s (AddEager p) = add_eager_peer s p"
| "peer_step s (Prune p) = prune_to_lazy s p"
| "peer_step s (Graft p) = graft_to_eager s p"

lemma peer_step_facts:
  "ts_eager_peers s \<inter> ts_lazy_peers s = {} \<Longrightarrow>
     ts_eager_peers (peer_step s op) \<inter> ts_lazy_peers (peer_step s op) = {}
     \<and> ts_eager_peers s \<union> ts_lazy_peers s \<subseteq> ts_eager_peers (peer_step s op) \<union> ts_lazy_peers (peer_step s op)"
  by (cases op) (auto simp: add_eager_peer_def prune_to_lazy_def graft_to_eager_def)

text \<open>Moving peers between the two sets never duplicates or loses one.\<close>

theorem eager_lazy_disjoint:
  "ts_eager_peers (foldl peer_step (TopicState_new topic) ops) \<inter> ts_lazy_peers (foldl peer_step (TopicState_new topic) ops) = {}
   \<and> {p. AddEager p \<in> set ops}
       \<subseteq> ts_eager_peers (foldl peer_step (TopicState_new topic) ops) \<union> ts_lazy_peers (foldl peer_step (TopicState_new topic) ops)"
proof -
  have "ts_eager_peers (foldl peer_step s ops) \<inter> ts_lazy_peers (foldl peer_step s ops) = {}
      \<and> ts_eager_peers s \<union> ts_lazy_peers s \<union> {p. AddEager p \<in> set ops}
          \<subseteq> ts_eager_peers (foldl peer_step s ops) \<union> ts_lazy_peers (foldl peer_step s ops)"
    if "ts_eager_peers s \<inter> ts_lazy_peers s = {}" for s
    using that
  proof (induction ops arbitrary: s)
    case (Cons op ops)
    have "{p. AddEager p \<in> set (op # ops)} \<subseteq> ts_eager_peers (peer_step s op) \<union> {p. AddEager p \<in> set ops}"
      by (cases op) (auto simp: add_eager_peer_def)
    with Cons.IH [of "peer_step s op"] peer_step_facts [OF Cons.prems, of op] show ?case by (simp, blast)
  qed simp
  from this [of "TopicState_new topic"] show ?thesis by (simp add: TopicState_new_def)
qed

text \<open>A message is pushed neither back to its source nor to the local node, and a duplicate is not pushed at all.\<close>

lemma receive_message_cases:
  assumes "receive_message e topic h payload source t0 t1 = (e', r, m)"
  obtains (drop) "r = None" and "m = None" and "pt_topics e' = pt_topics e"
  | (push) state where "hm_get (pt_topics e) topic = Some state"
      and "\<not> snd (dedup_is_duplicate (pt_dedup e) h t0 t1)"
      and "pt_topics e' = hm_insert topic (topic_mark_seen state h) (pt_topics e)"
      and "r = Some ({p \<in> ts_eager_peers state. p \<noteq> source \<and> p \<noteq> pt_local_id e},
                     {p \<in> ts_lazy_peers state. p \<noteq> source \<and> p \<noteq> pt_local_id e})"
proof (cases "snd (dedup_is_duplicate (pt_dedup e) h t0 t1) \<or> hm_get (pt_topics e) topic = None
    \<or> h \<in> ts_seen (the (hm_get (pt_topics e) topic))")
  case True
  then show ?thesis
    using assms drop by (auto simp: receive_message_def Let_def case_prod_beta split: if_splits option.splits)
next
  case False
  then obtain state where "hm_get (pt_topics e) topic = Some state" by auto
  then show ?thesis
    using assms False push [of state] by (auto simp: receive_message_def Let_def case_prod_beta topic_mark_seen_def)
qed

lemma receive_message_targets:
  assumes "receive_message e topic h payload source t0 t1 = (e', Some (eager, lazy), m)"
  shows "source \<notin> eager \<union> lazy \<and> pt_local_id e \<notin> eager \<union> lazy
    \<and> \<not> snd (dedup_is_duplicate (pt_dedup e) h t0 t1) \<and> hm_contains (pt_topics e) topic"
  using assms by (cases rule: receive_message_cases) auto

datatype engine_op = Subscribe GossipTopic | Unsubscribe GossipTopic | Receive GossipTopic bytes bytes NodeId nat nat

fun engine_step :: "PlumTreeEngine \<Rightarrow> engine_op \<Rightarrow> PlumTreeEngine" where
  "engine_step e (Subscribe t) = fst (plumtree_subscribe e t)"
| "engine_step e (Unsubscribe t) = fst (plumtree_unsubscribe e t)"
| "engine_step e (Receive t h p src t0 t1) = fst (receive_message e t h p src t0 t1)"

definition no_peers :: "PlumTreeEngine \<Rightarrow> bool" where
  "no_peers e \<longleftrightarrow> (\<forall>t s. hm_get (pt_topics e) t = Some s \<longrightarrow> ts_eager_peers s = {} \<and> ts_lazy_peers s = {})"

lemma no_peers_step: "no_peers e \<Longrightarrow> no_peers (engine_step e op)"
proof (cases op)
  case (Receive t h p src t0 t1)
  assume np: "no_peers e"
  obtain e' r m where rm: "receive_message e t h p src t0 t1 = (e', r, m)"
    by (cases "receive_message e t h p src t0 t1") auto
  then have "no_peers e'"
    by (cases rule: receive_message_cases) (use np in \<open>auto simp: no_peers_def topic_mark_seen_def\<close>)
  then show ?thesis by (simp add: Receive rm)
qed (auto simp: no_peers_def plumtree_subscribe_def plumtree_unsubscribe_def TopicState_new_def)

text \<open>The engine offers no operation that gives a topic a peer, so an engine driven through its methods never names a
  peer to push to.\<close>

theorem engine_never_pushes:
  assumes "e = foldl engine_step (PlumTreeEngine_new local_id limit now) ops"
  shows "fst (snd (receive_message e topic h payload source t0 t1)) \<in> {None, Some ({}, {})}"
proof -
  have "no_peers (foldl engine_step e0 ops)" if "no_peers e0" for e0
    using that by (induction ops arbitrary: e0) (simp_all add: no_peers_step)
  from this [of "PlumTreeEngine_new local_id limit now"] have np: "no_peers e"
    by (simp add: assms no_peers_def PlumTreeEngine_new_def)
  obtain e' r m where rm: "receive_message e topic h payload source t0 t1 = (e', r, m)"
    by (cases "receive_message e topic h payload source t0 t1") auto
  then have "r \<in> {None, Some ({}, {})}"
    by (cases rule: receive_message_cases) (use np in \<open>auto simp: no_peers_def\<close>)
  with rm show ?thesis by simp
qed

end
