(* ===== verification/Gossip_Service.thy ===== *)
theory Gossip_Service
  imports Gossip
begin

text \<open>
  Crate \<^verbatim>\<open>ephemera-gossip\<close>, file \<^verbatim>\<open>service.rs\<close>: the gossip service of a node and a network of such nodes.

  JSON encoding is a parameter: \<open>ser\<close> (\<^verbatim>\<open>serde_json::to_vec\<close>), \<open>parse\<close> and \<open>parse_wire\<close>
  (\<^verbatim>\<open>from_slice\<close> at the envelope and at the legacy message type). \<open>peers\<close> is the answer of
  \<^verbatim>\<open>transport.connected_peers()\<close>. Packets handed to the transport and messages handed to a subscriber are outputs
  of a handler, in order. Each handler is one atomic step: the mutexes protect the single accesses, the receive loop
  runs one handler at a time.
\<close>

record GossipWireMessage =
  wm_topic :: bytes
  wm_payload :: bytes
  wm_content_hash :: bytes
  wm_origin :: bytes

record IHaveMessage =
  ih_topic :: bytes
  ih_content_hash :: bytes
  ih_origin :: bytes

record IWantMessage =
  iw_content_hash :: bytes

datatype GossipEnvelope = FullMessage GossipWireMessage | IHave IHaveMessage | IWant IWantMessage

record PendingIHave =
  pi_topic :: bytes
  pi_from :: NodeId
  pi_received_at :: nat
  pi_origin :: bytes

record GossipNode =
  gn_local_id :: NodeId
  gn_topics :: "GossipTopic set"
  gn_seen :: "bytes set"
  gn_message_cache :: "bytes \<rightharpoonup> GossipWireMessage"
  gn_pending_ihaves :: "(bytes, PendingIHave) hash_map"
  gn_fanout_config :: FanoutConfig

record gossip_output =
  out_sends :: "(NodeId \<times> bytes) list"
  out_delivered :: "GossipMessage list"

abbreviation no_output :: gossip_output where
  "no_output \<equiv> \<lparr>out_sends = [], out_delivered = []\<rparr>"

definition EagerGossipService_new :: "NodeId \<Rightarrow> FanoutConfig \<Rightarrow> GossipNode" where
  "EagerGossipService_new local_id config =
     \<lparr>gn_local_id = local_id, gn_topics = {}, gn_seen = {}, gn_message_cache = Map.empty,
      gn_pending_ihaves = [], gn_fanout_config = config\<rparr>"

definition gossip_subscribe :: "GossipNode \<Rightarrow> GossipTopic \<Rightarrow> GossipNode" where
  "gossip_subscribe n topic = n\<lparr>gn_topics := insert topic (gn_topics n)\<rparr>"

definition gossip_unsubscribe :: "GossipNode \<Rightarrow> GossipTopic \<Rightarrow> GossipNode \<times> (GossipError + unit)" where
  "gossip_unsubscribe n topic =
     (if topic \<notin> gn_topics n then (n, Inl (NotSubscribed topic))
      else (n\<lparr>gn_topics := gn_topics n - {topic}\<rparr>, Inr ()))"

definition serialization_error :: GossipError where
  "serialization_error = GossipTransport ''serialization error''"

definition gossip_publish ::
    "(bytes \<Rightarrow> bytes) \<Rightarrow> (GossipEnvelope \<Rightarrow> bytes option) \<Rightarrow> (NodeId list \<Rightarrow> NodeId list) \<Rightarrow> NodeId list
       \<Rightarrow> GossipNode \<Rightarrow> GossipTopic \<Rightarrow> bytes \<Rightarrow> GossipNode \<times> gossip_output \<times> (GossipError + unit)" where
  "gossip_publish blake3 ser shuffle peers n topic payload =
     (let content_hash = blake3 payload;
          n = n\<lparr>gn_seen := insert content_hash (gn_seen n)\<rparr>;
          wire_msg = \<lparr>wm_topic = topic_bytes topic, wm_payload = payload, wm_content_hash = content_hash,
                      wm_origin = node_bytes (gn_local_id n)\<rparr>;
          n = n\<lparr>gn_message_cache := (gn_message_cache n)(content_hash \<mapsto> wire_msg)\<rparr>
      in case ser (FullMessage wire_msg) of
           None \<Rightarrow> (n, no_output, Inl serialization_error)
         | Some full_bytes \<Rightarrow>
         (case ser (IHave \<lparr>ih_topic = topic_bytes topic, ih_content_hash = content_hash,
                           ih_origin = node_bytes (gn_local_id n)\<rparr>) of
            None \<Rightarrow> (n, no_output, Inl serialization_error)
          | Some ihave_bytes \<Rightarrow>
              let delivered =
                    (if topic \<in> gn_topics n
                     then [\<lparr>gm_topic = topic, gm_payload = payload, gm_content_hash = content_hash,
                            gm_source_node = node_bytes (gn_local_id n)\<rparr>]
                     else []);
                  (eager_peers, lazy_peers) = select_fanout shuffle peers (gn_fanout_config n);
                  overflow = (if length eager_peers + length lazy_peers < length peers
                              then filter (\<lambda>p. p \<notin> set eager_peers \<union> set lazy_peers) peers else [])
              in (n, \<lparr>out_sends = map (\<lambda>p. (p, full_bytes)) eager_peers @ map (\<lambda>p. (p, ihave_bytes)) lazy_peers
                                    @ map (\<lambda>p. (p, ihave_bytes)) overflow,
                      out_delivered = delivered\<rparr>, Inr ())))"

definition handle_full_message ::
    "NodeId list \<Rightarrow> GossipNode \<Rightarrow> GossipWireMessage \<Rightarrow> NodeId \<Rightarrow> bytes \<Rightarrow> GossipNode \<times> gossip_output" where
  "handle_full_message peers n wire_msg sender_id raw_data =
     (if wm_content_hash wire_msg \<in> gn_seen n then (n, no_output)
      else
        let n = n\<lparr>gn_seen := insert (wm_content_hash wire_msg) (gn_seen n)\<rparr>;
            n = n\<lparr>gn_pending_ihaves := hm_remove (wm_content_hash wire_msg) (gn_pending_ihaves n)\<rparr>;
            n = n\<lparr>gn_message_cache := (gn_message_cache n)(wm_content_hash wire_msg \<mapsto> wire_msg)\<rparr>;
            topic = GossipTopic (wm_topic wire_msg);
            delivered =
              (if topic \<in> gn_topics n
               then [\<lparr>gm_topic = topic, gm_payload = wm_payload wire_msg, gm_content_hash = wm_content_hash wire_msg,
                      gm_source_node = wm_origin wire_msg\<rparr>]
               else []);
            targets = filter (\<lambda>p. \<not> (p = sender_id \<or> node_bytes p = wm_origin wire_msg \<or> p = gn_local_id n)) peers
        in (n, \<lparr>out_sends = map (\<lambda>p. (p, raw_data)) targets, out_delivered = delivered\<rparr>))"

definition handle_ihave :: "GossipNode \<Rightarrow> IHaveMessage \<Rightarrow> NodeId \<Rightarrow> nat \<Rightarrow> GossipNode" where
  "handle_ihave n ihave sender_id now =
     (if ih_content_hash ihave \<in> gn_seen n then n
      else if hm_contains (gn_pending_ihaves n) (ih_content_hash ihave) then n
      else n\<lparr>gn_pending_ihaves := hm_insert (ih_content_hash ihave)
               \<lparr>pi_topic = ih_topic ihave, pi_from = sender_id, pi_received_at = now, pi_origin = ih_origin ihave\<rparr>
               (gn_pending_ihaves n)\<rparr>)"

definition handle_iwant ::
    "(GossipEnvelope \<Rightarrow> bytes option) \<Rightarrow> GossipNode \<Rightarrow> IWantMessage \<Rightarrow> NodeId \<Rightarrow> gossip_output" where
  "handle_iwant ser n iwant sender_id =
     (case gn_message_cache n (iw_content_hash iwant) of
        None \<Rightarrow> no_output
      | Some wire_msg \<Rightarrow>
          (case ser (FullMessage wire_msg) of
             None \<Rightarrow> no_output
           | Some bytes \<Rightarrow> \<lparr>out_sends = [(sender_id, bytes)], out_delivered = []\<rparr>))"

text \<open>One iteration of the receive loop on a datagram; an undecodable one is skipped.\<close>

definition receive_data ::
    "(GossipEnvelope \<Rightarrow> bytes option) \<Rightarrow> (bytes \<Rightarrow> GossipEnvelope option) \<Rightarrow> (bytes \<Rightarrow> GossipWireMessage option)
       \<Rightarrow> NodeId list \<Rightarrow> GossipNode \<Rightarrow> NodeId \<Rightarrow> bytes \<Rightarrow> nat \<Rightarrow> GossipNode \<times> gossip_output" where
  "receive_data ser parse parse_wire peers n sender_id data now =
     (case (case parse data of Some env \<Rightarrow> Some env | None \<Rightarrow> map_option FullMessage (parse_wire data)) of
        None \<Rightarrow> (n, no_output)
      | Some (FullMessage wire_msg) \<Rightarrow> handle_full_message peers n wire_msg sender_id data
      | Some (IHave ihave) \<Rightarrow> (handle_ihave n ihave sender_id now, no_output)
      | Some (IWant iwant) \<Rightarrow> (n, handle_iwant ser n iwant sender_id))"

text \<open>One tick of the lazy-timeout loop at time \<open>now\<close> (the clock is read once per tick here).\<close>

definition lazy_timeout_tick ::
    "(GossipEnvelope \<Rightarrow> bytes option) \<Rightarrow> nat \<Rightarrow> GossipNode \<Rightarrow> GossipNode \<times> gossip_output" where
  "lazy_timeout_tick ser now n =
     (let lazy_timeout = fc_lazy_timeout (gn_fanout_config n);
          pending = gn_pending_ihaves n;
          due = (\<lambda>(hash, entry). hash \<notin> gn_seen n \<and> now - pi_received_at entry \<ge> lazy_timeout);
          to_request = map (\<lambda>(hash, entry). (hash, pi_from entry)) (filter due pending);
          n = n\<lparr>gn_pending_ihaves := filter (\<lambda>(hash, entry). \<not> (hash \<in> gn_seen n \<or> due (hash, entry))) pending\<rparr>
      in (n, \<lparr>out_sends = concat (map (\<lambda>(content_hash, peer).
                case ser (IWant \<lparr>iw_content_hash = content_hash\<rparr>) of Some bytes \<Rightarrow> [(peer, bytes)] | None \<Rightarrow> [])
                to_request),
              out_delivered = []\<rparr>))"

section \<open>Publishing reaches every peer\<close>

lemma distinct_submset:
  assumes "mset xs \<subseteq># mset ys" and "distinct ys"
  shows "distinct xs" and "set xs \<subseteq> set ys"
proof -
  obtain zs where "mset ys = mset xs + mset zs"
    using assms(1) by (metis ex_mset subset_mset.le_iff_add)
  then have "mset ys = mset (xs @ zs)" by simp
  then have "distinct (xs @ zs)" and "set ys = set (xs @ zs)"
    using assms(2) by (metis mset_eq_imp_distinct_iff, metis mset_eq_setD)
  then show "distinct xs" and "set xs \<subseteq> set ys" by auto
qed

text \<open>The peers served by a publication: each connected peer once, the eager ones with the full message, the others
  with an announcement.\<close>

lemma publish_sends:
  assumes sh: "mset (shuffle peers) = mset peers" and d: "distinct peers"
    and f: "ser (FullMessage \<lparr>wm_topic = topic_bytes topic, wm_payload = payload, wm_content_hash = blake3 payload,
              wm_origin = node_bytes (gn_local_id n)\<rparr>) = Some full"
    and i: "ser (IHave \<lparr>ih_topic = topic_bytes topic, ih_content_hash = blake3 payload,
              ih_origin = node_bytes (gn_local_id n)\<rparr>) = Some ihave"
    and p: "gossip_publish blake3 ser shuffle peers n topic payload = (n', out, res)"
  shows "res = Inr ()"
    and "n' = n\<lparr>gn_seen := insert (blake3 payload) (gn_seen n),
           gn_message_cache := (gn_message_cache n)(blake3 payload \<mapsto>
             \<lparr>wm_topic = topic_bytes topic, wm_payload = payload, wm_content_hash = blake3 payload,
              wm_origin = node_bytes (gn_local_id n)\<rparr>)\<rparr>"
    and "distinct (map fst (out_sends out))" and "fst ` set (out_sends out) = set peers"
    and "snd ` set (out_sends out) \<subseteq> {full, ihave}"
    and "full \<noteq> ihave \<Longrightarrow> length (filter (\<lambda>s. snd s = full) (out_sends out))
           = min (fc_eager_push_peers (gn_fanout_config n)) (length peers)"
proof -
  obtain eager lazy where s: "select_fanout shuffle peers (gn_fanout_config n) = (eager, lazy)" by fastforce
  note part = select_fanout_partition [where shuffle = shuffle, OF sh s]
  have dd: "distinct (eager @ lazy)" and sub: "set eager \<union> set lazy \<subseteq> set peers"
    using distinct_submset [of "eager @ lazy" peers] part(3) d by auto
  let ?over = "if length eager + length lazy < length peers
               then filter (\<lambda>p. p \<notin> set eager \<union> set lazy) peers else []"
  have out: "out_sends out = map (\<lambda>p. (p, full)) eager @ map (\<lambda>p. (p, ihave)) lazy @ map (\<lambda>p. (p, ihave)) ?over"
    using p by (auto simp: gossip_publish_def Let_def f i s)
  have all: "set eager \<union> set lazy \<union> set ?over = set peers"
  proof (cases "length eager + length lazy < length peers")
    case False
    then have "card (set peers) \<le> card (set (eager @ lazy))"
      using d dd by (simp only: distinct_card) simp
    then have "set (eager @ lazy) = set peers" using sub by (intro card_subset_eq) (auto intro: le_antisym card_mono)
    then show ?thesis using False by auto
  qed (use sub in auto)
  have m: "map fst (out_sends out) = eager @ lazy @ ?over" by (simp add: out comp_def)
  show "distinct (map fst (out_sends out))" unfolding m using dd d by auto
  show "fst ` set (out_sends out) = set peers" using all by (simp only: m flip: set_map) auto
  show "snd ` set (out_sends out) \<subseteq> {full, ihave}" by (auto simp: out)
  show "res = Inr ()" using p by (auto simp: gossip_publish_def Let_def f i s)
  show "n' = n\<lparr>gn_seen := insert (blake3 payload) (gn_seen n),
           gn_message_cache := (gn_message_cache n)(blake3 payload \<mapsto>
             \<lparr>wm_topic = topic_bytes topic, wm_payload = payload, wm_content_hash = blake3 payload,
              wm_origin = node_bytes (gn_local_id n)\<rparr>)\<rparr>"
    using p by (auto simp: gossip_publish_def Let_def f i s)
  show "length (filter (\<lambda>s. snd s = full) (out_sends out)) = min (fc_eager_push_peers (gn_fanout_config n)) (length peers)"
    if "full \<noteq> ihave"
    using that part(1) by (simp add: out filter_map comp_def)
qed

section \<open>A network of nodes\<close>

text \<open>
  A network is the state of every node and the packets in flight (sender, receiver, bytes). \<open>peers n\<close> are the nodes
  \<open>n\<close> is connected to. A step is a publication, the arrival of any packet in flight, a timeout tick of some node or
  a change of subscription: packets may be reordered arbitrarily, but are not lost.
\<close>

record gossip_net =
  net_nodes :: "NodeId \<Rightarrow> GossipNode"
  net_flight :: "(NodeId \<times> NodeId \<times> bytes) multiset"

definition packets :: "NodeId \<Rightarrow> gossip_output \<Rightarrow> (NodeId \<times> NodeId \<times> bytes) multiset" where
  "packets n out = mset (map (\<lambda>(to, data). (n, to, data)) (out_sends out))"

definition net_init :: "FanoutConfig \<Rightarrow> gossip_net" where
  "net_init config = \<lparr>net_nodes = (\<lambda>n. EagerGossipService_new n config), net_flight = {#}\<rparr>"

inductive net_step ::
    "(bytes \<Rightarrow> bytes) \<Rightarrow> (GossipEnvelope \<Rightarrow> bytes option) \<Rightarrow> (bytes \<Rightarrow> GossipEnvelope option)
      \<Rightarrow> (bytes \<Rightarrow> GossipWireMessage option) \<Rightarrow> (NodeId \<Rightarrow> NodeId list) \<Rightarrow> gossip_net \<Rightarrow> gossip_net \<Rightarrow> bool"
  for blake3 ser parse parse_wire peers where
  publish: "mset (shuffle (peers n)) = mset (peers n) \<Longrightarrow>
      gossip_publish blake3 ser shuffle (peers n) (net_nodes s n) topic payload = (n', out, res) \<Longrightarrow>
      net_step blake3 ser parse parse_wire peers s
        (s\<lparr>net_nodes := (net_nodes s)(n := n'), net_flight := net_flight s + packets n out\<rparr>)"
| receive: "(f, t, data) \<in># net_flight s \<Longrightarrow>
      receive_data ser parse parse_wire (peers t) (net_nodes s t) f data now = (n', out) \<Longrightarrow>
      net_step blake3 ser parse parse_wire peers s
        (s\<lparr>net_nodes := (net_nodes s)(t := n'), net_flight := net_flight s - {#(f, t, data)#} + packets t out\<rparr>)"
| tick: "lazy_timeout_tick ser now (net_nodes s n) = (n', out) \<Longrightarrow>
      net_step blake3 ser parse parse_wire peers s
        (s\<lparr>net_nodes := (net_nodes s)(n := n'), net_flight := net_flight s + packets n out\<rparr>)"
| subscribe: "net_step blake3 ser parse parse_wire peers s
        (s\<lparr>net_nodes := (net_nodes s)(n := gossip_subscribe (net_nodes s n) topic)\<rparr>)"
| unsubscribe: "net_step blake3 ser parse parse_wire peers s
        (s\<lparr>net_nodes := (net_nodes s)(n := fst (gossip_unsubscribe (net_nodes s n) topic))\<rparr>)"

text \<open>A codec that never fails and decodes what it encoded.\<close>

definition codec :: "(GossipEnvelope \<Rightarrow> bytes option) \<Rightarrow> (bytes \<Rightarrow> GossipEnvelope option) \<Rightarrow> (GossipEnvelope \<Rightarrow> bytes) \<Rightarrow> bool" where
  "codec ser parse enc \<longleftrightarrow> (\<forall>e. ser e = Some (enc e) \<and> parse (enc e) = Some e)"

subsection \<open>The coverage invariant of one content hash\<close>

definition has_seen :: "bytes \<Rightarrow> (NodeId \<Rightarrow> GossipNode) \<Rightarrow> NodeId \<Rightarrow> bool" where
  "has_seen h nodes n \<longleftrightarrow> h \<in> gn_seen (nodes n)"

definition wire_ok :: "bytes \<Rightarrow> (NodeId \<Rightarrow> GossipNode) \<Rightarrow> GossipWireMessage \<Rightarrow> bool" where
  "wire_ok h nodes w \<longleftrightarrow> wm_content_hash w = h \<longrightarrow> has_seen h nodes (NodeId (wm_origin w))"

text \<open>A node is as the code can leave it: what it has seen it has cached, and whoever announced a pending hash has
  seen it.\<close>

definition node_good :: "bytes \<Rightarrow> (NodeId \<Rightarrow> GossipNode) \<Rightarrow> NodeId \<Rightarrow> GossipNode \<Rightarrow> bool" where
  "node_good h nodes n s \<longleftrightarrow> gn_local_id s = n \<and> hm_ok (gn_pending_ihaves s)
     \<and> (\<forall>k w. gn_message_cache s k = Some w \<longrightarrow> wm_content_hash w = k)
     \<and> (h \<in> gn_seen s \<longrightarrow> (\<exists>w. gn_message_cache s h = Some w \<and> wire_ok h nodes w))
     \<and> (\<forall>p. hm_get (gn_pending_ihaves s) h = Some p \<longrightarrow> has_seen h nodes (pi_from p))"

fun packet_good :: "bytes \<Rightarrow> (NodeId \<Rightarrow> GossipNode) \<Rightarrow> NodeId \<Rightarrow> NodeId \<Rightarrow> GossipEnvelope \<Rightarrow> bool" where
  "packet_good h nodes f t (FullMessage w) \<longleftrightarrow> wire_ok h nodes w \<and> (wm_content_hash w = h \<longrightarrow> has_seen h nodes f)"
| "packet_good h nodes f t (IHave i) \<longleftrightarrow> (ih_content_hash i = h \<longrightarrow> has_seen h nodes f)"
| "packet_good h nodes f t (IWant i) \<longleftrightarrow> (iw_content_hash i = h \<longrightarrow> has_seen h nodes t)"

text \<open>A node is covered when it has seen the hash or something in the network will still make it see it.\<close>

definition covered :: "bytes \<Rightarrow> (GossipEnvelope \<Rightarrow> bytes) \<Rightarrow> gossip_net \<Rightarrow> NodeId \<Rightarrow> bool" where
  "covered h enc s m \<longleftrightarrow> has_seen h (net_nodes s) m
     \<or> (\<exists>f w. (f, m, enc (FullMessage w)) \<in># net_flight s \<and> wm_content_hash w = h)
     \<or> (\<exists>f i. (f, m, enc (IHave i)) \<in># net_flight s \<and> ih_content_hash i = h)
     \<or> (\<exists>k i. (m, k, enc (IWant i)) \<in># net_flight s \<and> iw_content_hash i = h)
     \<or> hm_contains (gn_pending_ihaves (net_nodes s m)) h"

definition net_inv :: "bytes \<Rightarrow> (GossipEnvelope \<Rightarrow> bytes) \<Rightarrow> (NodeId \<Rightarrow> NodeId list) \<Rightarrow> gossip_net \<Rightarrow> bool" where
  "net_inv h enc peers s \<longleftrightarrow>
     (\<forall>n. node_good h (net_nodes s) n (net_nodes s n))
     \<and> (\<forall>(f, t, data) \<in># net_flight s. \<exists>e. data = enc e \<and> packet_good h (net_nodes s) f t e)
     \<and> (\<forall>n m. has_seen h (net_nodes s) n \<longrightarrow> m \<in> set (peers n) \<longrightarrow> covered h enc s m)"

lemma wire_ok_mono:
  "(\<And>n. has_seen h nodes n \<Longrightarrow> has_seen h nodes' n) \<Longrightarrow> wire_ok h nodes w \<Longrightarrow> wire_ok h nodes' w"
  by (simp add: wire_ok_def)

lemma node_good_mono:
  "(\<And>n. has_seen h nodes n \<Longrightarrow> has_seen h nodes' n) \<Longrightarrow> node_good h nodes n s \<Longrightarrow> node_good h nodes' n s"
  unfolding node_good_def using wire_ok_mono by blast

lemma packet_good_mono:
  "(\<And>n. has_seen h nodes n \<Longrightarrow> has_seen h nodes' n) \<Longrightarrow> packet_good h nodes f t e \<Longrightarrow> packet_good h nodes' f t e"
  by (cases e) (auto simp: wire_ok_def)

lemma has_seen_upd: "has_seen h (nodes(x := s)) n \<longleftrightarrow> (if n = x then h \<in> gn_seen s else has_seen h nodes n)"
  by (simp add: has_seen_def)

text \<open>
  The common shape of a step: node \<open>x\<close> moves to state \<open>n'\<close>, a set of packets disappears and \<open>x\<close> sends \<open>out\<close>.
  The invariant is kept when the new node and the new packets are good and what the step touched stays covered.
\<close>

lemma net_inv_update:
  assumes inv: "net_inv h enc peers s"
    and seen: "gn_seen (net_nodes s x) \<subseteq> gn_seen n'"
    and s': "s' = s\<lparr>net_nodes := (net_nodes s)(x := n'), net_flight := net_flight s - gone + packets x out\<rparr>"
    and node: "node_good h (net_nodes s') x n'"
    and sent: "\<And>t data. (t, data) \<in> set (out_sends out) \<Longrightarrow> \<exists>e. data = enc e \<and> packet_good h (net_nodes s') x t e"
    and new: "\<And>m. h \<notin> gn_seen (net_nodes s x) \<Longrightarrow> h \<in> gn_seen n' \<Longrightarrow> m \<in> set (peers x) \<Longrightarrow> covered h enc s' m"
    and kept: "\<And>m. covered h enc s m \<Longrightarrow> covered h enc s' m"
  shows "net_inv h enc peers s'"
proof -
  have mono: "has_seen h (net_nodes s') n" if "has_seen h (net_nodes s) n" for n
    using that seen by (auto simp: s' has_seen_def)
  have "node_good h (net_nodes s') n (net_nodes s' n)" for n
    using node node_good_mono [of h "net_nodes s" "net_nodes s'", OF mono] inv
    by (cases "n = x") (auto simp: net_inv_def s')
  moreover have "\<exists>e. data = enc e \<and> packet_good h (net_nodes s') f t e" if "(f, t, data) \<in># net_flight s'" for f t data
  proof (cases "(f, t, data) \<in># net_flight s")
    case True
    with inv obtain e where "data = enc e" "packet_good h (net_nodes s) f t e" by (fastforce simp: net_inv_def)
    then show ?thesis using packet_good_mono [of h "net_nodes s" "net_nodes s'", OF mono] by blast
  next
    case False
    with that have "f = x" and "(t, data) \<in> set (out_sends out)"
      by (auto simp: s' packets_def dest: in_diffD)
    then show ?thesis using sent by blast
  qed
  moreover have "covered h enc s' m" if "has_seen h (net_nodes s') n" and "m \<in> set (peers n)" for n m
  proof (cases "has_seen h (net_nodes s) n")
    case True
    with inv that(2) kept show ?thesis by (auto simp: net_inv_def)
  next
    case False
    with that new show ?thesis by (cases "n = x") (auto simp: s' has_seen_def)
  qed
  ultimately show ?thesis by (auto simp: net_inv_def)
qed

lemma codecD:
  assumes "codec ser parse enc"
  shows "ser e = Some (enc e)" and "parse (enc e) = Some e" and "enc e = enc e' \<longleftrightarrow> e = e'"
  using assms unfolding codec_def by (blast, blast, metis option.inject)

lemma covered_intros:
  "has_seen h (net_nodes s) m \<Longrightarrow> covered h enc s m"
  "(f, m, enc (FullMessage w)) \<in># net_flight s \<Longrightarrow> wm_content_hash w = h \<Longrightarrow> covered h enc s m"
  "(f, m, enc (IHave i)) \<in># net_flight s \<Longrightarrow> ih_content_hash i = h \<Longrightarrow> covered h enc s m"
  "(m, k, enc (IWant j)) \<in># net_flight s \<Longrightarrow> iw_content_hash j = h \<Longrightarrow> covered h enc s m"
  "hm_contains (gn_pending_ihaves (net_nodes s m)) h \<Longrightarrow> covered h enc s m"
  unfolding covered_def by blast+

lemma covered_cases:
  assumes "covered h enc s m"
  obtains (seen) "has_seen h (net_nodes s) m"
  | (full) f w where "(f, m, enc (FullMessage w)) \<in># net_flight s" and "wm_content_hash w = h"
  | (ihave) f i where "(f, m, enc (IHave i)) \<in># net_flight s" and "ih_content_hash i = h"
  | (iwant) k j where "(m, k, enc (IWant j)) \<in># net_flight s" and "iw_content_hash j = h"
  | (pending) "hm_contains (gn_pending_ihaves (net_nodes s m)) h"
  using assms unfolding covered_def by blast

text \<open>Coverage survives a step that removes at most one packet, provided the addressee of that packet and the nodes
  with a pending announcement stay covered.\<close>

lemma covered_keep:
  assumes "codec ser parse enc" and "covered h enc s m"
    and "\<And>n. has_seen h (net_nodes s) n \<Longrightarrow> has_seen h (net_nodes s') n"
    and "\<And>p. p \<in># net_flight s \<Longrightarrow> p = (f, t, enc e) \<or> p \<in># net_flight s'"
    and "\<And>n. hm_contains (gn_pending_ihaves (net_nodes s n)) h \<Longrightarrow> covered h enc s' n"
    and "case e of FullMessage w \<Rightarrow> wm_content_hash w = h \<longrightarrow> covered h enc s' t
         | IHave i \<Rightarrow> ih_content_hash i = h \<longrightarrow> covered h enc s' t
         | IWant i \<Rightarrow> iw_content_hash i = h \<longrightarrow> covered h enc s' f"
  shows "covered h enc s' m"
  using assms(2)
proof (cases rule: covered_cases)
  case (full g w)
  from assms(4) [OF full(1)] show ?thesis
  proof
    assume "(g, m, enc (FullMessage w)) = (f, t, enc e)"
    then show ?thesis using assms(6) full(2) codecD(3) [OF assms(1), of e "FullMessage w"] by auto
  qed (use full(2) covered_intros(2) in blast)
next
  case (ihave g i)
  from assms(4) [OF ihave(1)] show ?thesis
  proof
    assume "(g, m, enc (IHave i)) = (f, t, enc e)"
    then show ?thesis using assms(6) ihave(2) codecD(3) [OF assms(1), of e "IHave i"] by auto
  qed (use ihave(2) covered_intros(3) in blast)
next
  case (iwant k j)
  from assms(4) [OF iwant(1)] show ?thesis
  proof
    assume "(m, k, enc (IWant j)) = (f, t, enc e)"
    then show ?thesis using assms(6) iwant(2) codecD(3) [OF assms(1), of e "IWant j"] by auto
  qed (use iwant(2) covered_intros(4) in blast)
qed (use assms(3,5) covered_intros(1) in blast)+

text \<open>The same when no packet is removed.\<close>

lemma covered_grow:
  assumes "covered h enc s m"
    and "\<And>n. has_seen h (net_nodes s) n \<Longrightarrow> has_seen h (net_nodes s') n"
    and "net_flight s \<subseteq># net_flight s'"
    and "\<And>n. hm_contains (gn_pending_ihaves (net_nodes s n)) h \<Longrightarrow> covered h enc s' n"
  shows "covered h enc s' m"
  using assms(1)
proof (cases rule: covered_cases)
  case (full f w)
  from covered_intros(2) [where enc = enc, OF mset_subset_eqD [OF assms(3) full(1)] full(2)] show ?thesis .
next
  case (ihave f i)
  from covered_intros(3) [where enc = enc, OF mset_subset_eqD [OF assms(3) ihave(1)] ihave(2)] show ?thesis .
next
  case (iwant k j)
  from covered_intros(4) [where enc = enc, OF mset_subset_eqD [OF assms(3) iwant(1)] iwant(2)] show ?thesis .
qed (use assms(2,4) covered_intros(1) in blast)+

lemma covered_update:
  assumes "n = x \<Longrightarrow> hm_contains (gn_pending_ihaves n') h \<or> h \<in> gn_seen n'"
    and "net_nodes s' = (net_nodes s)(x := n')" and "hm_contains (gn_pending_ihaves (net_nodes s n)) h"
  shows "covered h enc s' n"
proof (cases "n = x")
  case True
  from assms True have "hm_contains (gn_pending_ihaves n') h \<or> h \<in> gn_seen n'" by blast
  then show ?thesis
    using covered_intros(1,5) [where s = s' and m = n and h = h and enc = enc] True assms(2)
    by (auto simp: has_seen_def)
next
  case False
  then show ?thesis using covered_intros(5) [of s' n h enc] assms(2,3) by simp
qed

lemma mem_diff_single: "p \<in># A \<Longrightarrow> p = q \<or> p \<in># A - {#q#} + B"
  by (cases "p = q") (auto simp: in_diff_count)

lemma net_inv_node:
  assumes "net_inv h enc peers s"
  shows "node_good h (net_nodes s) n (net_nodes s n)"
  using assms by (simp add: net_inv_def)

lemma net_inv_publish:
  assumes c: "codec ser parse enc" and d: "distinct (peers x)" and inv: "net_inv h enc peers s"
    and sh: "mset (shuffle (peers x)) = mset (peers x)"
    and p: "gossip_publish blake3 ser shuffle (peers x) (net_nodes s x) topic payload = (n', out, res)"
  shows "net_inv h enc peers (s\<lparr>net_nodes := (net_nodes s)(x := n'), net_flight := net_flight s + packets x out\<rparr>)"
    (is "net_inv h enc peers ?s")
proof -
  let ?w = "\<lparr>wm_topic = topic_bytes topic, wm_payload = payload, wm_content_hash = blake3 payload,
              wm_origin = node_bytes (gn_local_id (net_nodes s x))\<rparr>"
  let ?i = "\<lparr>ih_topic = topic_bytes topic, ih_content_hash = blake3 payload,
              ih_origin = node_bytes (gn_local_id (net_nodes s x))\<rparr>"
  note pub = publish_sends [OF sh d codecD(1) [OF c] codecD(1) [OF c] p]
  have x: "gn_local_id (net_nodes s x) = x" using net_inv_node [OF inv, of x] by (simp add: node_good_def)
  have mono: "has_seen h (net_nodes s) n \<Longrightarrow> has_seen h (net_nodes ?s) n" for n by (auto simp: has_seen_def pub(2))
  have wire: "wire_ok h (net_nodes ?s) ?w" by (simp add: wire_ok_def has_seen_def pub(2) x)
  show ?thesis
  proof (rule net_inv_update [OF inv, of x n' _ "{#}" out])
    show "gn_seen (net_nodes s x) \<subseteq> gn_seen n'" by (auto simp: pub(2))
    show "node_good h (net_nodes ?s) x n'"
      using wire node_good_mono [of h "net_nodes s" "net_nodes ?s", OF mono net_inv_node [OF inv, of x]]
      by (auto simp: node_good_def pub(2))
    show "\<exists>e. data = enc e \<and> packet_good h (net_nodes ?s) x t e" if "(t, data) \<in> set (out_sends out)" for t data
    proof -
      have "data = enc (FullMessage ?w) \<or> data = enc (IHave ?i)" using that pub(5) by force
      then show ?thesis
      proof
        assume "data = enc (FullMessage ?w)"
        then show ?thesis using wire by (intro exI [of _ "FullMessage ?w"]) (simp add: has_seen_def pub(2))
      next
        assume "data = enc (IHave ?i)"
        then show ?thesis by (intro exI [of _ "IHave ?i"]) (simp add: has_seen_def pub(2))
      qed
    qed
    show "covered h enc ?s m" if a: "h \<notin> gn_seen (net_nodes s x)" "h \<in> gn_seen n'" "m \<in> set (peers x)" for m
    proof -
      have h: "h = blake3 payload" using a(1,2) by (auto simp: pub(2))
      obtain data where "(m, data) \<in> set (out_sends out)" using a(3) pub(4) by force
      moreover from this have "data = enc (FullMessage ?w) \<or> data = enc (IHave ?i)" using pub(5) by force
      ultimately have "(x, m, enc (FullMessage ?w)) \<in># packets x out \<or> (x, m, enc (IHave ?i)) \<in># packets x out"
        by (force simp: packets_def)
      then show ?thesis
      proof
        assume "(x, m, enc (FullMessage ?w)) \<in># packets x out"
        then have "(x, m, enc (FullMessage ?w)) \<in># net_flight ?s" by simp
        then show ?thesis by (rule covered_intros(2)) (simp add: h)
      next
        assume "(x, m, enc (IHave ?i)) \<in># packets x out"
        then have "(x, m, enc (IHave ?i)) \<in># net_flight ?s" by simp
        then show ?thesis by (rule covered_intros(3)) (simp add: h)
      qed
    qed
    show "covered h enc ?s m" if "covered h enc s m" for m
    proof (rule covered_grow [OF that mono])
      show "covered h enc ?s n" if "hm_contains (gn_pending_ihaves (net_nodes s n)) h" for n
        by (rule covered_update [where s = s and x = x and n' = n']) (use that in \<open>auto simp: pub(2)\<close>)
    qed simp_all
  qed simp
qed

lemma net_inv_full:
  assumes c: "codec ser parse enc" and inv: "net_inv h enc peers s" and mem: "(f, t, enc (FullMessage w)) \<in># net_flight s"
    and r: "handle_full_message (peers t) (net_nodes s t) w f (enc (FullMessage w)) = (n', out)"
  shows "net_inv h enc peers (s\<lparr>net_nodes := (net_nodes s)(t := n'),
           net_flight := net_flight s - {#(f, t, enc (FullMessage w))#} + packets t out\<rparr>)"
    (is "net_inv h enc peers ?s")
proof -
  let ?p = "(f, t, enc (FullMessage w))"
  obtain e where "enc (FullMessage w) = enc e" "packet_good h (net_nodes s) f t e"
    using inv mem by (fastforce simp: net_inv_def)
  then have good: "wire_ok h (net_nodes s) w" "wm_content_hash w = h \<Longrightarrow> has_seen h (net_nodes s) f"
    by (auto simp: codecD(3) [OF c])
  have t: "gn_local_id (net_nodes s t) = t" using net_inv_node [OF inv, of t] by (simp add: node_good_def)
  have seen': "gn_seen n' = insert (wm_content_hash w) (gn_seen (net_nodes s t))"
    using r by (auto simp: handle_full_message_def Let_def split: if_splits)
  have mono: "has_seen h (net_nodes s) n \<Longrightarrow> has_seen h (net_nodes ?s) n" for n by (auto simp: has_seen_def seen')
  have sends: "out_sends out = [] \<or> out_sends out = map (\<lambda>p. (p, enc (FullMessage w)))
      (filter (\<lambda>p. \<not> (p = f \<or> node_bytes p = wm_origin w \<or> p = t)) (peers t))"
    using r by (auto simp: handle_full_message_def Let_def t split: if_splits)
  show ?thesis
  proof (rule net_inv_update [OF inv, of t n' _ "{#?p#}" out])
    show "gn_seen (net_nodes s t) \<subseteq> gn_seen n'" by (auto simp: seen')
    show "node_good h (net_nodes ?s) t n'"
      using r wire_ok_mono [of h "net_nodes s" "net_nodes ?s", OF mono good(1)]
        node_good_mono [of h "net_nodes s" "net_nodes ?s", OF mono net_inv_node [OF inv, of t]]
      by (auto simp: handle_full_message_def Let_def node_good_def split: if_splits)
    show "\<exists>e. data = enc e \<and> packet_good h (net_nodes ?s) t m e" if "(m, data) \<in> set (out_sends out)" for m data
    proof -
      have "data = enc (FullMessage w)" using that sends by auto
      then show ?thesis
        using wire_ok_mono [of h "net_nodes s" "net_nodes ?s", OF mono good(1)]
        by (intro exI [of _ "FullMessage w"]) (simp add: has_seen_def seen')
    qed
    show "covered h enc ?s m" if a: "h \<notin> gn_seen (net_nodes s t)" "h \<in> gn_seen n'" "m \<in> set (peers t)" for m
    proof (cases "m = f \<or> node_bytes m = wm_origin w \<or> m = t")
      case True
      have h: "wm_content_hash w = h" using a(1,2) by (simp add: seen')
      have "has_seen h (net_nodes s) (NodeId (wm_origin w))" using good(1) h by (simp add: wire_ok_def)
      then have "has_seen h (net_nodes ?s) m"
        using True mono good(2) [OF h] a(2) by (auto simp: has_seen_def) (metis NodeId.collapse)
      then show ?thesis by (rule covered_intros(1))
    next
      case False
      have h: "wm_content_hash w = h" using a(1,2) by (simp add: seen')
      have "(m, enc (FullMessage w)) \<in> set (out_sends out)"
        using r a(1,3) False h by (auto simp: handle_full_message_def Let_def t)
      then have "(t, m, enc (FullMessage w)) \<in># net_flight ?s" by (force simp: packets_def)
      then show ?thesis using h by (rule covered_intros(2))
    qed
    show "covered h enc ?s m" if a: "covered h enc s m" for m
    proof (rule covered_keep [OF c a mono, where f = f and t = t and e = "FullMessage w"])
      show "p = ?p \<or> p \<in># net_flight ?s" if "p \<in># net_flight s" for p
        using mem_diff_single [OF that, of ?p "packets t out"] by simp
      show "covered h enc ?s n" if "hm_contains (gn_pending_ihaves (net_nodes s n)) h" for n
        by (rule covered_update [where s = s and x = t and n' = n'])
          (use that r in \<open>auto simp: handle_full_message_def Let_def split: if_splits\<close>)
      show "case FullMessage w of FullMessage w \<Rightarrow> wm_content_hash w = h \<longrightarrow> covered h enc ?s t
         | IHave i \<Rightarrow> ih_content_hash i = h \<longrightarrow> covered h enc ?s t
         | IWant i \<Rightarrow> iw_content_hash i = h \<longrightarrow> covered h enc ?s f"
        using covered_intros(1) [of h ?s t enc] by (simp add: has_seen_def seen')
    qed
  qed simp
qed

lemma net_inv_ihave:
  assumes c: "codec ser parse enc" and inv: "net_inv h enc peers s" and mem: "(f, t, enc (IHave i)) \<in># net_flight s"
  shows "net_inv h enc peers (s\<lparr>net_nodes := (net_nodes s)(t := handle_ihave (net_nodes s t) i f now),
           net_flight := net_flight s - {#(f, t, enc (IHave i))#} + packets t no_output\<rparr>)"
    (is "net_inv h enc peers ?s")
proof -
  let ?p = "(f, t, enc (IHave i))" and ?n = "handle_ihave (net_nodes s t) i f now"
  obtain e where "enc (IHave i) = enc e" "packet_good h (net_nodes s) f t e"
    using inv mem by (fastforce simp: net_inv_def)
  then have good: "ih_content_hash i = h \<Longrightarrow> has_seen h (net_nodes s) f" by (auto simp: codecD(3) [OF c])
  have seen': "gn_seen ?n = gn_seen (net_nodes s t)" by (simp add: handle_ihave_def)
  have mono: "has_seen h (net_nodes s) n \<Longrightarrow> has_seen h (net_nodes ?s) n" for n by (auto simp: has_seen_def seen')
  show ?thesis
  proof (rule net_inv_update [OF inv, of t ?n _ "{#?p#}" no_output])
    have "node_good h N t ?n" if "node_good h N t (net_nodes s t)" and "ih_content_hash i = h \<Longrightarrow> has_seen h N f" for N
      using that by (auto simp: handle_ihave_def node_good_def dest!: hm_set_insert [THEN subsetD])
    then show "node_good h (net_nodes ?s) t ?n"
      using mono [OF good] node_good_mono [of h "net_nodes s" "net_nodes ?s", OF mono net_inv_node [OF inv, of t]]
      by blast
    show "covered h enc ?s m" if a: "covered h enc s m" for m
    proof (rule covered_keep [OF c a mono, where f = f and t = t and e = "IHave i"])
      show "p = ?p \<or> p \<in># net_flight ?s" if "p \<in># net_flight s" for p
        using mem_diff_single [OF that, of ?p "packets t no_output"] by simp
      show "covered h enc ?s n" if "hm_contains (gn_pending_ihaves (net_nodes s n)) h" for n
        by (rule covered_update [where s = s and x = t and n' = ?n]) (use that in \<open>auto simp: handle_ihave_def\<close>)
      have "h \<in> gn_seen ?n \<or> hm_contains (gn_pending_ihaves ?n) h" if "ih_content_hash i = h"
        using that by (auto simp: handle_ihave_def)
      then have "ih_content_hash i = h \<Longrightarrow> covered h enc ?s t"
        using covered_intros(1) [of h ?s t enc] covered_intros(5) [of ?s t h enc] by (auto simp: has_seen_def)
      then show "case IHave i of FullMessage w \<Rightarrow> wm_content_hash w = h \<longrightarrow> covered h enc ?s t
         | IHave i \<Rightarrow> ih_content_hash i = h \<longrightarrow> covered h enc ?s t
         | IWant i \<Rightarrow> iw_content_hash i = h \<longrightarrow> covered h enc ?s f" by simp
    qed
  qed (simp_all add: seen')
qed

lemma net_inv_iwant:
  assumes c: "codec ser parse enc" and inv: "net_inv h enc peers s" and mem: "(f, t, enc (IWant j)) \<in># net_flight s"
  shows "net_inv h enc peers (s\<lparr>net_nodes := (net_nodes s)(t := net_nodes s t),
           net_flight := net_flight s - {#(f, t, enc (IWant j))#} + packets t (handle_iwant ser (net_nodes s t) j f)\<rparr>)"
    (is "net_inv h enc peers ?s")
proof -
  let ?p = "(f, t, enc (IWant j))" and ?out = "handle_iwant ser (net_nodes s t) j f"
  obtain e where "enc (IWant j) = enc e" "packet_good h (net_nodes s) f t e"
    using inv mem by (fastforce simp: net_inv_def)
  then have good: "iw_content_hash j = h \<Longrightarrow> h \<in> gn_seen (net_nodes s t)"
    by (auto simp: codecD(3) [OF c] has_seen_def)
  have nodes: "net_nodes ?s = net_nodes s" by simp
  note nd = net_inv_node [OF inv, of t]
  have sends: "\<exists>w. data = enc (FullMessage w) \<and> m = f \<and> gn_message_cache (net_nodes s t) (iw_content_hash j) = Some w"
    if "(m, data) \<in> set (out_sends ?out)" for m data
    using that by (auto simp: handle_iwant_def codecD(1) [OF c] split: option.splits)
  have cached: "\<exists>w. gn_message_cache (net_nodes s t) h = Some w \<and> wire_ok h (net_nodes s) w \<and> wm_content_hash w = h"
    if "iw_content_hash j = h"
    using good [OF that] nd by (auto simp: node_good_def)
  show ?thesis
  proof (rule net_inv_update [OF inv, of t "net_nodes s t" _ "{#?p#}" ?out])
    show "\<exists>e. data = enc e \<and> packet_good h (net_nodes ?s) t m e" if a: "(m, data) \<in> set (out_sends ?out)" for m data
    proof -
      obtain w where w: "data = enc (FullMessage w)" "gn_message_cache (net_nodes s t) (iw_content_hash j) = Some w"
        using sends [OF a] by blast
      have k: "wm_content_hash w = iw_content_hash j" using nd w(2) by (auto simp: node_good_def)
      have "packet_good h (net_nodes s) t m (FullMessage w)"
        using k w(2) cached good by (auto simp: wire_ok_def has_seen_def)
      then show ?thesis using w(1) by auto
    qed
    show "covered h enc ?s m" if a: "covered h enc s m" for m
    proof (rule covered_keep [OF c a, where f = f and t = t and e = "IWant j"])
      show "p = ?p \<or> p \<in># net_flight ?s" if "p \<in># net_flight s" for p
        using mem_diff_single [OF that, of ?p "packets t ?out"] by simp
      have "covered h enc ?s f" if j: "iw_content_hash j = h"
      proof -
        obtain w where w: "gn_message_cache (net_nodes s t) h = Some w" "wm_content_hash w = h"
          using cached [OF j] by blast
        then have "(t, f, enc (FullMessage w)) \<in># net_flight ?s"
          by (simp add: packets_def handle_iwant_def j codecD(1) [OF c])
        then show ?thesis using w(2) by (rule covered_intros(2))
      qed
      then show "case IWant j of FullMessage w \<Rightarrow> wm_content_hash w = h \<longrightarrow> covered h enc ?s t
         | IHave i \<Rightarrow> ih_content_hash i = h \<longrightarrow> covered h enc ?s t
         | IWant i \<Rightarrow> iw_content_hash i = h \<longrightarrow> covered h enc ?s f" by simp
    qed (use covered_intros(5) [where s = ?s and h = h and enc = enc] in \<open>simp_all add: nodes\<close>)
  qed (use nd in simp_all)
qed

lemma net_inv_tick:
  assumes c: "codec ser parse enc" and inv: "net_inv h enc peers s"
    and r: "lazy_timeout_tick ser now (net_nodes s x) = (n', out)"
  shows "net_inv h enc peers (s\<lparr>net_nodes := (net_nodes s)(x := n'), net_flight := net_flight s + packets x out\<rparr>)"
    (is "net_inv h enc peers ?s")
proof -
  note nd = net_inv_node [OF inv, of x]
  let ?due = "\<lambda>(hash, entry). hash \<notin> gn_seen (net_nodes s x)
      \<and> now - pi_received_at entry \<ge> fc_lazy_timeout (gn_fanout_config (net_nodes s x))"
  have n': "n' = (net_nodes s x)\<lparr>gn_pending_ihaves := filter (\<lambda>(hash, entry).
      \<not> (hash \<in> gn_seen (net_nodes s x) \<or> ?due (hash, entry))) (gn_pending_ihaves (net_nodes s x))\<rparr>"
    using r by (auto simp: lazy_timeout_tick_def Let_def)
  have out: "out_sends out = map (\<lambda>(hash, entry). (pi_from entry, enc (IWant \<lparr>iw_content_hash = hash\<rparr>)))
      (filter ?due (gn_pending_ihaves (net_nodes s x)))"
    using r by (auto simp: lazy_timeout_tick_def Let_def codecD(1) [OF c] comp_def case_prod_beta concat_map_singleton)
  have ok: "hm_ok (gn_pending_ihaves (net_nodes s x))" using nd by (simp add: node_good_def)
  have mono: "has_seen h (net_nodes s) n \<Longrightarrow> has_seen h (net_nodes ?s) n" for n by (auto simp: has_seen_def n')
  show ?thesis
  proof (rule net_inv_update [OF inv, of x n' _ "{#}" out])
    show "node_good h (net_nodes ?s) x n'"
      using node_good_mono [of h "net_nodes s" "net_nodes ?s", OF mono nd]
      by (auto simp: node_good_def n' hm_get_filter [OF ok] split: option.splits if_splits)
    show "\<exists>e. data = enc e \<and> packet_good h (net_nodes ?s) x t e" if a: "(t, data) \<in> set (out_sends out)" for t data
    proof -
      obtain hash entry where e: "(hash, entry) \<in> set (gn_pending_ihaves (net_nodes s x))" "t = pi_from entry"
          "data = enc (IWant \<lparr>iw_content_hash = hash\<rparr>)"
        using a unfolding out by auto
      then have "hash = h \<Longrightarrow> has_seen h (net_nodes s) t"
        using nd map_of_is_SomeI [OF ok e(1)] by (auto simp: node_good_def)
      then show ?thesis using e(3) mono by (intro exI [of _ "IWant \<lparr>iw_content_hash = hash\<rparr>"]) auto
    qed
    show "covered h enc ?s m" if a: "covered h enc s m" for m
    proof (rule covered_grow [OF a mono])
      show "covered h enc ?s n" if p: "hm_contains (gn_pending_ihaves (net_nodes s n)) h" for n
      proof (cases "n = x \<and> h \<notin> gn_seen (net_nodes s x) \<and> \<not> hm_contains (gn_pending_ihaves n') h")
        case True
        with p obtain entry where e: "hm_get (gn_pending_ihaves (net_nodes s x)) h = Some entry" by auto
        with True have "?due (h, entry)" by (auto simp: n' hm_get_filter [OF ok] split: if_splits)
        with map_of_SomeD [OF e] have "(pi_from entry, enc (IWant \<lparr>iw_content_hash = h\<rparr>)) \<in> set (out_sends out)"
          unfolding out by (force simp: image_iff)
        then have "(x, pi_from entry, enc (IWant \<lparr>iw_content_hash = h\<rparr>)) \<in># net_flight ?s"
          by (force simp: packets_def)
        then show ?thesis using True covered_intros(4) [where m = x and s = ?s and h = h] by auto
      next
        case False
        show ?thesis
          by (rule covered_update [where s = s and x = x and n' = n', OF _ _ p])
            (use False p in \<open>auto simp: n'\<close>)
      qed
    qed simp_all
  qed (simp_all add: n')
qed

lemma net_inv_topics:
  assumes inv: "net_inv h enc peers s" and n': "\<exists>ts. n' = (net_nodes s x)\<lparr>gn_topics := ts\<rparr>"
  shows "net_inv h enc peers
    (s\<lparr>net_nodes := (net_nodes s)(x := n'), net_flight := net_flight s - {#} + packets x no_output\<rparr>)"
    (is "net_inv h enc peers ?s")
proof -
  obtain ts where t: "n' = (net_nodes s x)\<lparr>gn_topics := ts\<rparr>" using n' by blast
  have mono: "has_seen h (net_nodes s) n \<Longrightarrow> has_seen h (net_nodes ?s) n" for n by (auto simp: has_seen_def t)
  show ?thesis
  proof (rule net_inv_update [OF inv, of x n' _ "{#}" no_output])
    have "node_good h N x n'" if "node_good h N x (net_nodes s x)" for N using that by (simp add: node_good_def t)
    then show "node_good h (net_nodes ?s) x n'"
      using node_good_mono [of h "net_nodes s" "net_nodes ?s", OF mono net_inv_node [OF inv, of x]] by blast
    show "covered h enc ?s m" if a: "covered h enc s m" for m
    proof (rule covered_grow [OF a mono])
      show "covered h enc ?s n" if "hm_contains (gn_pending_ihaves (net_nodes s n)) h" for n
        by (rule covered_update [where s = s and x = x and n' = n']) (use that in \<open>auto simp: t\<close>)
    qed simp_all
  qed (simp_all add: t)
qed

lemma net_inv_step:
  assumes c: "codec ser parse enc" and d: "\<And>n. distinct (peers n)" and inv: "net_inv h enc peers s"
    and step: "net_step blake3 ser parse parse_wire peers s s'"
  shows "net_inv h enc peers s'"
  using step
proof cases
  case (publish shuffle n topic payload n' out res)
  then show ?thesis using net_inv_publish [OF c d inv] by simp
next
  case (receive f t data now n' out)
  then obtain e where e: "data = enc e" using inv by (fastforce simp: net_inv_def)
  have r: "receive_data ser parse parse_wire (peers t) (net_nodes s t) f (enc e) now = (n', out)"
    using receive(3) by (simp add: e)
  show ?thesis
  proof (cases e)
    case (FullMessage w)
    then show ?thesis
      using net_inv_full [OF c inv, of f t w n' out] receive r by (simp add: e receive_data_def codecD(2) [OF c])
  next
    case (IHave i)
    then show ?thesis
      using net_inv_ihave [OF c inv, of f t i now] receive r by (auto simp: e receive_data_def codecD(2) [OF c])
  next
    case (IWant j)
    then show ?thesis
      using net_inv_iwant [OF c inv, of f t j] receive r by (auto simp: e receive_data_def codecD(2) [OF c])
  qed
next
  case (tick now n n' out)
  then show ?thesis using net_inv_tick [OF c inv] by simp
next
  case (subscribe n topic)
  have "net_inv h enc peers (s\<lparr>net_nodes := (net_nodes s)(n := gossip_subscribe (net_nodes s n) topic),
      net_flight := net_flight s - {#} + packets n no_output\<rparr>)"
    by (rule net_inv_topics [OF inv]) (unfold gossip_subscribe_def, rule exI, rule refl)
  then show ?thesis by (simp add: subscribe packets_def)
next
  case (unsubscribe n topic)
  have "net_inv h enc peers (s\<lparr>net_nodes := (net_nodes s)(n := fst (gossip_unsubscribe (net_nodes s n) topic)),
      net_flight := net_flight s - {#} + packets n no_output\<rparr>)"
    by (rule net_inv_topics [OF inv])
      (auto simp: gossip_unsubscribe_def intro: exI [of _ "gn_topics (net_nodes s n)"]
        exI [of _ "gn_topics (net_nodes s n) - {topic}"])
  then show ?thesis by (simp add: unsubscribe packets_def)
qed

lemma net_inv_init: "net_inv h enc peers (net_init config)"
  by (simp add: net_inv_def net_init_def EagerGossipService_new_def node_good_def has_seen_def)

lemma net_inv_reachable:
  assumes "codec ser parse enc" and "\<And>n. distinct (peers n)"
    and "(net_step blake3 ser parse parse_wire peers)\<^sup>*\<^sup>* (net_init config) s"
  shows "net_inv h enc peers s"
  using assms(3) by (induction rule: rtranclp_induct) (simp_all add: net_inv_init net_inv_step [OF assms(1,2)])

lemma quiet_spreads:
  assumes "net_inv h enc peers s" and "net_flight s = {#}" and "\<And>n. gn_pending_ihaves (net_nodes s n) = []"
    and "has_seen h (net_nodes s) n" and "(n, m) \<in> {(a, b). b \<in> set (peers a)}\<^sup>*"
  shows "has_seen h (net_nodes s) m"
  using assms(5,4)
proof (induction rule: rtrancl_induct)
  case (step y z)
  then have "covered h enc s z" using assms(1) by (auto simp: net_inv_def)
  then show ?case by (cases rule: covered_cases) (use assms(2,3) in auto)
qed

section \<open>Theorems\<close>

text \<open>C1: gossip reaches everyone. In every network reachable by publications, deliveries in any order, timeouts and
  subscription changes, once no packet is in flight and no announcement is pending, a content hash seen by one
  node has been seen (and is cached) by every node connected to it through any chain of peers.\<close>

theorem gossip_reaches_everyone:
  assumes "codec ser parse enc" and "\<And>n. distinct (peers n)"
    and "(net_step blake3 ser parse parse_wire peers)\<^sup>*\<^sup>* (net_init config) s"
    and "net_flight s = {#}" and "\<And>n. gn_pending_ihaves (net_nodes s n) = []"
    and "h \<in> gn_seen (net_nodes s n)" and "(n, m) \<in> {(a, b). b \<in> set (peers a)}\<^sup>*"
  shows "h \<in> gn_seen (net_nodes s m) \<and> (\<exists>w. gn_message_cache (net_nodes s m) h = Some w \<and> wm_content_hash w = h)"
proof -
  note inv = net_inv_reachable [OF assms(1-3), of h]
  have "has_seen h (net_nodes s) m"
    by (rule quiet_spreads [OF inv assms(4,5) _ assms(7)]) (simp add: has_seen_def assms(6))
  then show ?thesis using net_inv_node [OF inv, of m] by (auto simp: has_seen_def node_good_def)
qed


subsection \<open>One node and an arbitrary environment\<close>

text \<open>Datagrams \<open>(sender, data, time, connected peers)\<close> arriving at a node, and the messages it delivers to its
  subscribers in response.\<close>

fun receive_all ::
    "(GossipEnvelope \<Rightarrow> bytes option) \<Rightarrow> (bytes \<Rightarrow> GossipEnvelope option) \<Rightarrow> (bytes \<Rightarrow> GossipWireMessage option)
       \<Rightarrow> GossipNode \<Rightarrow> (NodeId \<times> bytes \<times> nat \<times> NodeId list) list \<Rightarrow> GossipNode \<times> GossipMessage list" where
  "receive_all ser parse parse_wire n [] = (n, [])"
| "receive_all ser parse parse_wire n ((sender_id, data, now, peers) # es) =
     (let (n, out) = receive_data ser parse parse_wire peers n sender_id data now;
          (n, ms) = receive_all ser parse parse_wire n es
      in (n, out_delivered out @ ms))"

lemma receive_data_seen:
  assumes "receive_data ser parse parse_wire peers n sender_id data now = (n', out)"
  shows "gn_seen n \<subseteq> gn_seen n' \<and> (out_delivered out = []
    \<or> (\<exists>m. out_delivered out = [m] \<and> gm_content_hash m \<in> gn_seen n' - gn_seen n))"
  using assms
  by (auto simp: receive_data_def handle_full_message_def handle_ihave_def handle_iwant_def Let_def
      split: option.splits GossipEnvelope.splits if_splits)

lemma receive_all_seen:
  assumes "receive_all ser parse parse_wire n es = (n', ms)"
  shows "distinct (map gm_content_hash ms) \<and> gn_seen n \<subseteq> gn_seen n' \<and> gm_content_hash ` set ms \<subseteq> gn_seen n' - gn_seen n"
  using assms
proof (induction es arbitrary: n n' ms)
  case (Cons e es)
  obtain sender_id data now peers where e: "e = (sender_id, data, now, peers)" by (cases e)
  obtain n1 out where r: "receive_data ser parse parse_wire peers n sender_id data now = (n1, out)" by fastforce
  obtain n2 ms' where a: "receive_all ser parse parse_wire n1 es = (n2, ms')" by fastforce
  have "n' = n2" and ms: "ms = out_delivered out @ ms'" using Cons.prems by (simp_all add: e r a)
  then show ?case using Cons.IH [OF a] receive_data_seen [OF r] by auto
qed simp


text \<open>C39: the content hash of a received message is not compared with its payload, so a forged message claiming the hash of
  another one is delivered in its place, and the genuine message is then dropped without delivery or forwarding.\<close>

theorem forged_hash_suppresses_message:
  assumes "wm_content_hash forged = wm_content_hash genuine" and "wm_content_hash genuine \<notin> gn_seen n"
    and "GossipTopic (wm_topic forged) \<in> gn_topics n"
  shows "map gm_payload (out_delivered (snd (handle_full_message peers n forged attacker raw))) = [wm_payload forged]
    \<and> handle_full_message peers' (fst (handle_full_message peers n forged attacker raw)) genuine sender raw'
      = (fst (handle_full_message peers n forged attacker raw), no_output)"
  using assms by (simp add: handle_full_message_def Let_def)

section \<open>Witnesses\<close>

text \<open>A codec for the examples: a tag byte and the fields, each byte of a field preceded by 1 and the field ended by 0.\<close>

definition ex_field :: "bytes \<Rightarrow> bytes" where
  "ex_field bs = concat (map (\<lambda>b. [1, b]) bs) @ [0]"

fun ex_unfield :: "bytes \<Rightarrow> (bytes \<times> bytes) option" where
  "ex_unfield [] = None"
| "ex_unfield [c] = (if c = 0 then Some ([], []) else None)"
| "ex_unfield (c # b # r) =
     (if c = 0 then Some ([], b # r) else map_option (\<lambda>(bs, rest). (b # bs, rest)) (ex_unfield r))"

fun ex_enc :: "GossipEnvelope \<Rightarrow> bytes" where
  "ex_enc (FullMessage w) =
     1 # ex_field (wm_topic w) @ ex_field (wm_payload w) @ ex_field (wm_content_hash w) @ ex_field (wm_origin w)"
| "ex_enc (IHave i) = 2 # ex_field (ih_topic i) @ ex_field (ih_content_hash i) @ ex_field (ih_origin i)"
| "ex_enc (IWant j) = 3 # ex_field (iw_content_hash j)"

fun ex_unfields :: "nat \<Rightarrow> bytes \<Rightarrow> bytes list option" where
  "ex_unfields 0 r = (if r = [] then Some [] else None)"
| "ex_unfields (Suc n) r =
     (case ex_unfield r of None \<Rightarrow> None | Some (bs, rest) \<Rightarrow> map_option ((#) bs) (ex_unfields n rest))"

fun ex_dec :: "bytes \<Rightarrow> GossipEnvelope option" where
  "ex_dec [] = None"
| "ex_dec (tag # r) =
     (if tag = 1 then map_option (\<lambda>fs. FullMessage \<lparr>wm_topic = fs ! 0, wm_payload = fs ! 1, wm_content_hash = fs ! 2,
                                                wm_origin = fs ! 3\<rparr>) (ex_unfields 4 r)
      else if tag = 2 then map_option (\<lambda>fs. IHave \<lparr>ih_topic = fs ! 0, ih_content_hash = fs ! 1, ih_origin = fs ! 2\<rparr>)
             (ex_unfields 3 r)
      else map_option (\<lambda>fs. IWant \<lparr>iw_content_hash = fs ! 0\<rparr>) (ex_unfields 1 r))"

lemma ex_unfield_field: "ex_unfield (ex_field bs @ r) = Some (bs, r)"
proof (induction bs)
  case Nil
  show ?case by (cases r) (simp_all add: ex_field_def)
next
  case (Cons b bs)
  then show ?case by (cases "ex_field bs @ r") (simp_all add: ex_field_def)
qed

lemma ex_unfield_field_end: "ex_unfield (ex_field bs) = Some (bs, [])"
  using ex_unfield_field [of bs "[]"] by simp

lemma ex_codec: "codec (\<lambda>e. Some (ex_enc e)) ex_dec ex_enc"
  unfolding codec_def
proof
  show "Some (ex_enc e) = Some (ex_enc e) \<and> ex_dec (ex_enc e) = Some e" for e
    by (cases e) (simp_all add: numeral_eq_Suc ex_unfield_field ex_unfield_field_end)
qed

definition ex_peers :: "NodeId \<Rightarrow> NodeId list" where
  "ex_peers n = (if n = NodeId [1] then [NodeId [2]] else if n = NodeId [2] then [NodeId [1]] else [])"

definition ex_pub :: "GossipNode \<times> gossip_output \<times> (GossipError + unit)" where
  "ex_pub = gossip_publish id (\<lambda>e. Some (ex_enc e)) id (ex_peers (NodeId [1]))
     (net_nodes (net_init FanoutConfig_default) (NodeId [1])) (GossipTopic [9]) [7]"

definition ex_msg :: GossipWireMessage where
  "ex_msg = \<lparr>wm_topic = [9], wm_payload = [7], wm_content_hash = [7], wm_origin = [1]\<rparr>"

definition ex_s1 :: gossip_net where
  "ex_s1 = (net_init FanoutConfig_default)\<lparr>net_nodes := (net_nodes (net_init FanoutConfig_default))(NodeId [1] := fst ex_pub),
     net_flight := net_flight (net_init FanoutConfig_default) + packets (NodeId [1]) (fst (snd ex_pub))\<rparr>"

definition ex_s2 :: gossip_net where
  "ex_s2 = ex_s1\<lparr>net_nodes := (net_nodes ex_s1)(NodeId [2] := fst (handle_full_message [NodeId [1]]
       (net_nodes ex_s1 (NodeId [2])) ex_msg (NodeId [1]) (ex_enc (FullMessage ex_msg)))),
     net_flight := {#}\<rparr>"

lemma ex_flight: "net_flight ex_s1 = {#(NodeId [1], NodeId [2], ex_enc (FullMessage ex_msg))#}"
  by (simp add: ex_s1_def ex_pub_def net_init_def EagerGossipService_new_def gossip_publish_def select_fanout_def
      ex_peers_def FanoutConfig_default_def packets_def Let_def ex_msg_def)

lemma ex_run: "(net_step id (\<lambda>e. Some (ex_enc e)) ex_dec (\<lambda>_. None) ex_peers)\<^sup>*\<^sup>* (net_init FanoutConfig_default) ex_s2"
proof -
  let ?step = "net_step id (\<lambda>e. Some (ex_enc e)) ex_dec (\<lambda>_. None) ex_peers"
  have "?step (net_init FanoutConfig_default) ex_s1"
    unfolding ex_s1_def by (rule net_step.publish [where shuffle = id and topic = "GossipTopic [9]" and payload = "[7]"
        and res = "snd (snd ex_pub)"]) (simp_all add: ex_pub_def)
  moreover have "?step ex_s1 ex_s2"
  proof -
    let ?r = "handle_full_message [NodeId [1]] (net_nodes ex_s1 (NodeId [2])) ex_msg (NodeId [1]) (ex_enc (FullMessage ex_msg))"
    have "receive_data (\<lambda>e. Some (ex_enc e)) ex_dec (\<lambda>_. None) (ex_peers (NodeId [2])) (net_nodes ex_s1 (NodeId [2]))
        (NodeId [1]) (ex_enc (FullMessage ex_msg)) 0 = (fst ?r, snd ?r)"
      by (simp add: receive_data_def codecD(2) [OF ex_codec] ex_peers_def del: ex_enc.simps ex_dec.simps)
    from net_step.receive [where s = ex_s1 and peers = ex_peers and t = "NodeId [2]", OF _ this] have "?step ex_s1 (ex_s1\<lparr>net_nodes := (net_nodes ex_s1)(NodeId [2] := fst ?r),
        net_flight := net_flight ex_s1 - {#(NodeId [1], NodeId [2], ex_enc (FullMessage ex_msg))#} + packets (NodeId [2]) (snd ?r)\<rparr>)"
      by (simp add: ex_flight)
    moreover have "out_sends (snd ?r) = []" by (simp add: handle_full_message_def Let_def)
    ultimately show ?thesis by (simp add: ex_s2_def ex_flight packets_def)
  qed
  ultimately show ?thesis by simp
qed

lemma ex_nodes: "gn_seen (net_nodes ex_s2 (NodeId [1])) = {[7]}" "gn_pending_ihaves (net_nodes ex_s2 n) = []"
  by (simp_all add: ex_s2_def ex_s1_def ex_pub_def net_init_def EagerGossipService_new_def gossip_publish_def
      handle_full_message_def select_fanout_def ex_peers_def Let_def)

theorem gossip_reaches_everyone_witness: "[7] \<in> gn_seen (net_nodes ex_s2 (NodeId [2]))"
proof -
  have "(NodeId [1], NodeId [2]) \<in> {(a, b). b \<in> set (ex_peers a)}\<^sup>*" by (rule r_into_rtrancl) (simp add: ex_peers_def)
  moreover have "distinct (ex_peers n)" for n by (simp add: ex_peers_def)
  moreover have "net_flight ex_s2 = {#}" by (simp add: ex_s2_def)
  moreover have "[7] \<in> gn_seen (net_nodes ex_s2 (NodeId [1]))" by (simp add: ex_nodes)
  ultimately show ?thesis using gossip_reaches_everyone [OF ex_codec _ ex_run _ ex_nodes(2)] by blast
qed



theorem forged_hash_suppresses_message_witness:
  "\<exists>n forged. wm_payload forged \<noteq> wm_payload ex_msg
     \<and> handle_full_message [] (fst (handle_full_message [] n forged (NodeId [3]) [])) ex_msg (NodeId [1]) []
       = (fst (handle_full_message [] n forged (NodeId [3]) []), no_output)"
  using forged_hash_suppresses_message [of "ex_msg\<lparr>wm_payload := [8]\<rparr>" ex_msg
      "gossip_subscribe (EagerGossipService_new (NodeId [2]) FanoutConfig_default) (GossipTopic [9])"
      "[]" "NodeId [3]" "[]" "[]" "NodeId [1]" "[]"]
  by (intro exI [of _ "gossip_subscribe (EagerGossipService_new (NodeId [2]) FanoutConfig_default) (GossipTopic [9])"]
      exI [of _ "ex_msg\<lparr>wm_payload := [8]\<rparr>"])
    (simp add: ex_msg_def gossip_subscribe_def EagerGossipService_new_def)

end
