(* ===== verification/Message_Crypto.thy ===== *)
theory Message_Crypto
  imports Time_Types Identity Gossip
begin

text \<open>
  The cryptographic layer under direct messages: \<^verbatim>\<open>ephemera-crypto\<close> (\<^verbatim>\<open>dh.rs\<close>, \<^verbatim>\<open>encryption.rs\<close>,
  \<^verbatim>\<open>error.rs\<close>, the key derivation of \<^verbatim>\<open>keys.rs\<close>) and \<^verbatim>\<open>ephemera-message\<close> (\<^verbatim>\<open>error.rs\<close>,
  \<^verbatim>\<open>encryption.rs\<close>). The primitives of the external libraries (X25519, XChaCha20-Poly1305, HKDF-SHA256, keyed
  BLAKE3, Ed25519) are the fields of a record \<open>prims\<close> that every definition takes; random nonces and key pairs are
  arguments. An error text keeps the part the code writes and leaves out the text of the library's own error.
\<close>

record prims =
  p_hkdf :: "bytes \<Rightarrow> bytes option \<Rightarrow> bytes \<Rightarrow> bytes option"
  p_x25519_public :: "bytes \<Rightarrow> bytes"
  p_x25519_dh :: "bytes \<Rightarrow> bytes \<Rightarrow> bytes"
  p_aead_encrypt :: "bytes \<Rightarrow> bytes \<Rightarrow> bytes \<Rightarrow> bytes option"
  p_aead_decrypt :: "bytes \<Rightarrow> bytes \<Rightarrow> bytes \<Rightarrow> bytes option"
  p_blake3_keyed :: "bytes \<Rightarrow> bytes \<Rightarrow> bytes"
  p_ed25519_sign :: "bytes \<Rightarrow> bytes \<Rightarrow> bytes"
  p_ed25519_verify :: "bytes \<Rightarrow> bytes \<Rightarrow> bytes \<Rightarrow> bool"
  p_ed25519_public :: "bytes \<Rightarrow> bytes"
  p_ed25519_key_ok :: "bytes \<Rightarrow> bool"

text \<open>What the code relies on of the primitives: key derivation does not fail and gives 32 bytes, Diffie-Hellman is symmetric,
  public keys have 32 bytes, authenticated encryption adds a 16-byte tag and decrypts under its own key and nonce, a
  signature has 64 bytes and verifies under the public key of its signer.\<close>

definition prims_ok :: "prims \<Rightarrow> bool" where
  "prims_ok P \<longleftrightarrow>
     (\<forall>ikm salt info. \<exists>okm. p_hkdf P ikm salt info = Some okm \<and> length okm = 32)
     \<and> (\<forall>s t. p_x25519_dh P s (p_x25519_public P t) = p_x25519_dh P t (p_x25519_public P s))
     \<and> (\<forall>s. length (p_x25519_public P s) = 32)
     \<and> (\<forall>k n p. \<exists>c. p_aead_encrypt P k n p = Some c \<and> length c = length p + 16 \<and> p_aead_decrypt P k n c = Some p)
     \<and> (\<forall>seed m. p_ed25519_key_ok P (p_ed25519_public P seed) \<and> length (p_ed25519_sign P seed m) = 64
          \<and> p_ed25519_verify P (p_ed25519_public P seed) m (p_ed25519_sign P seed m))"

section \<open>\<^verbatim>\<open>ephemera-crypto\<close>\<close>

datatype CryptoError =
    CryptoSignatureInvalid
  | EncryptionFailed string
  | DecryptionFailed string
  | CryptoInvalidKey string

fun EphemeraError_from_CryptoError :: "CryptoError \<Rightarrow> EphemeraError" where
  "EphemeraError_from_CryptoError CryptoSignatureInvalid = SignatureInvalid ''signature verification failed''"
| "EphemeraError_from_CryptoError (EncryptionFailed reason) = EncryptionError reason"
| "EphemeraError_from_CryptoError (DecryptionFailed reason) = EncryptionError reason"
| "EphemeraError_from_CryptoError (CryptoInvalidKey reason) = InvalidKey reason"

datatype X25519PublicKey = X25519PublicKey (x25519_public_bytes: bytes)
datatype X25519SecretKey = X25519SecretKey (x25519_secret_bytes: bytes)

record X25519KeyPair =
  kp_secret :: X25519SecretKey
  kp_public :: X25519PublicKey

text \<open>\<^verbatim>\<open>generate\<close> draws the secret from the system's random source; here it is the argument.\<close>

definition KeyPair_generate :: "prims \<Rightarrow> bytes \<Rightarrow> X25519KeyPair" where
  "KeyPair_generate P secret =
     \<lparr>kp_secret = X25519SecretKey secret, kp_public = X25519PublicKey (p_x25519_public P secret)\<rparr>"

definition KeyPair_from_secret_bytes :: "prims \<Rightarrow> bytes \<Rightarrow> X25519KeyPair" where
  "KeyPair_from_secret_bytes P bs =
     \<lparr>kp_secret = X25519SecretKey bs, kp_public = X25519PublicKey (p_x25519_public P bs)\<rparr>"

definition x25519_diffie_hellman :: "prims \<Rightarrow> X25519SecretKey \<Rightarrow> X25519PublicKey \<Rightarrow> bytes" where
  "x25519_diffie_hellman P our_secret their_public =
     p_x25519_dh P (x25519_secret_bytes our_secret) (x25519_public_bytes their_public)"

definition NONCE_LEN :: nat where "NONCE_LEN = 24"
definition KEY_LEN :: nat where "KEY_LEN = 32"
definition TAG_LEN :: nat where "TAG_LEN = 16"

definition aead_encrypt :: "prims \<Rightarrow> bytes \<Rightarrow> bytes \<Rightarrow> bytes \<Rightarrow> EphemeraError + bytes" where
  "aead_encrypt P key nonce plaintext =
     (case p_aead_encrypt P key nonce plaintext of
        Some c \<Rightarrow> Inr c | None \<Rightarrow> Inl (EncryptionError ''XChaCha20-Poly1305 encryption failed''))"

definition aead_decrypt :: "prims \<Rightarrow> bytes \<Rightarrow> bytes \<Rightarrow> bytes \<Rightarrow> EphemeraError + bytes" where
  "aead_decrypt P key nonce ciphertext =
     (case p_aead_decrypt P key nonce ciphertext of
        Some p \<Rightarrow> Inr p | None \<Rightarrow> Inl (EncryptionError ''XChaCha20-Poly1305 decryption failed''))"

definition seal :: "prims \<Rightarrow> bytes \<Rightarrow> bytes \<Rightarrow> bytes \<Rightarrow> EphemeraError + bytes" where
  "seal P nonce key plaintext =
     (case aead_encrypt P key nonce plaintext of
        Inl e \<Rightarrow> Inl e
      | Inr ciphertext \<Rightarrow> Inr (nonce @ ciphertext))"

definition open_sealed :: "prims \<Rightarrow> bytes \<Rightarrow> bytes \<Rightarrow> EphemeraError + bytes" where
  "open_sealed P key sealed =
     (if length sealed < NONCE_LEN + TAG_LEN
      then Inl (EncryptionError (''sealed message too short: '' @ show_nat (length sealed) @ '' bytes (minimum ''
                  @ show_nat (NONCE_LEN + TAG_LEN) @ '')''))
      else aead_decrypt P key (take NONCE_LEN sealed) (drop NONCE_LEN sealed))"

definition hkdf_derive :: "prims \<Rightarrow> bytes \<Rightarrow> bytes option \<Rightarrow> bytes \<Rightarrow> EphemeraError + bytes" where
  "hkdf_derive P ikm salt info =
     (case p_hkdf P ikm salt info of
        Some okm \<Rightarrow> Inr okm | None \<Rightarrow> Inl (KeyDerivationError ''HKDF expansion failed''))"

text \<open>The Ed25519 key pair of \<^verbatim>\<open>keys.rs\<close> keeps its seed.\<close>

datatype KeyPair = KeyPair (kp_seed: bytes)

definition SigningKeyPair_from_secret_bytes :: "bytes \<Rightarrow> EphemeraError + KeyPair" where
  "SigningKeyPair_from_secret_bytes bs = Inr (KeyPair bs)"

definition public_bytes :: "prims \<Rightarrow> KeyPair \<Rightarrow> bytes" where
  "public_bytes P kp = p_ed25519_public P (kp_seed kp)"

definition to_node_id :: "prims \<Rightarrow> KeyPair \<Rightarrow> NodeId" where
  "to_node_id P kp = NodeId (public_bytes P kp)"

definition to_identity_key :: "prims \<Rightarrow> KeyPair \<Rightarrow> IdentityKey" where
  "to_identity_key P kp = IdentityKey (public_bytes P kp)"

definition derive_pseudonym_key :: "prims \<Rightarrow> bytes \<Rightarrow> u32 \<Rightarrow> EphemeraError + KeyPair" where
  "derive_pseudonym_key P master_secret index =
     (case hkdf_derive P master_secret None (ascii_bytes ''ephemera-pseudonym'' @ to_le_bytes 4 index) of
        Inl e \<Rightarrow> Inl e
      | Inr seed \<Rightarrow> SigningKeyPair_from_secret_bytes seed)"

definition derive_epoch_key :: "prims \<Rightarrow> bytes \<Rightarrow> u64 \<Rightarrow> EphemeraError + bytes" where
  "derive_epoch_key P master_secret epoch =
     hkdf_derive P master_secret None (ascii_bytes ''ephemera-epoch'' @ to_le_bytes 8 epoch)"

text \<open>\<^verbatim>\<open>signing.rs\<close> and \<^verbatim>\<open>identity.rs\<close>.\<close>

datatype SigningKeyPair = SigningKeyPair (skp_seed: bytes)

definition SigningKeyPair_public_key :: "prims \<Rightarrow> SigningKeyPair \<Rightarrow> IdentityKey" where
  "SigningKeyPair_public_key P kp = IdentityKey (p_ed25519_public P (skp_seed kp))"

definition SigningKeyPair_sign :: "prims \<Rightarrow> SigningKeyPair \<Rightarrow> bytes \<Rightarrow> Signature" where
  "SigningKeyPair_sign P kp m = Signature (p_ed25519_sign P (skp_seed kp) m)"

definition verify_signature :: "prims \<Rightarrow> IdentityKey \<Rightarrow> bytes \<Rightarrow> Signature \<Rightarrow> CryptoError + unit" where
  "verify_signature P public_key m signature =
     (if \<not> p_ed25519_key_ok P (identity_bytes public_key) then Inl (CryptoInvalidKey ''invalid Ed25519 public key'')
      else if p_ed25519_verify P (identity_bytes public_key) m (signature_bytes signature) then Inr ()
      else Inl CryptoSignatureInvalid)"

record PseudonymIdentity =
  pi_key_pair :: KeyPair
  pi_index :: u32

definition PseudonymIdentity_derive :: "prims \<Rightarrow> bytes \<Rightarrow> u32 \<Rightarrow> EphemeraError + PseudonymIdentity" where
  "PseudonymIdentity_derive P master index =
     (case derive_pseudonym_key P master index of
        Inl e \<Rightarrow> Inl e
      | Inr key_pair \<Rightarrow> Inr \<lparr>pi_key_pair = key_pair, pi_index = index\<rparr>)"

definition pseudonym_identity_key :: "prims \<Rightarrow> PseudonymIdentity \<Rightarrow> IdentityKey" where
  "pseudonym_identity_key P i = to_identity_key P (pi_key_pair i)"

definition PseudonymIdentity_sign :: "prims \<Rightarrow> PseudonymIdentity \<Rightarrow> bytes \<Rightarrow> EphemeraError + bytes" where
  "PseudonymIdentity_sign P i m = Inr (p_ed25519_sign P (kp_seed (pi_key_pair i)) m)"

section \<open>\<^verbatim>\<open>ephemera-message\<close>: errors and single-exchange encryption\<close>

datatype MessageError =
    BodyTooLarge nat nat
  | Encryption CryptoError
  | InvalidRequestState string string
  | MessageInvalidTtl EphemeraError
  | ConversationNotFound string
  | NotAllowed string
  | MessageStore string
  | MessageDatabase string
  | Deserialization string
  | MessageExpired
  | InvalidPrekeyBundle string
  | X3dhFailed string
  | RatchetError string

definition HKDF_INFO :: bytes where "HKDF_INFO = ascii_bytes ''ephemera-message-v1''"

definition MIN_CIPHERTEXT_LEN :: nat where "MIN_CIPHERTEXT_LEN = 32 + 24 + 16"

definition derive_key :: "prims \<Rightarrow> bytes \<Rightarrow> bytes" where
  "derive_key P shared_secret = p_blake3_keyed P shared_secret HKDF_INFO"

definition MessageEncryption_encrypt ::
    "prims \<Rightarrow> X25519KeyPair \<Rightarrow> bytes \<Rightarrow> bytes \<Rightarrow> X25519PublicKey \<Rightarrow> MessageError + bytes" where
  "MessageEncryption_encrypt P ephemeral nonce plaintext recipient_pubkey =
     (let shared_secret = x25519_diffie_hellman P (kp_secret ephemeral) recipient_pubkey;
          encryption_key = derive_key P shared_secret
      in case seal P nonce encryption_key plaintext of
           Inl e \<Rightarrow> Inl (Encryption (EncryptionFailed ''encryption failed''))
         | Inr sealed \<Rightarrow> Inr (x25519_public_bytes (kp_public ephemeral) @ sealed))"

definition MessageEncryption_decrypt :: "prims \<Rightarrow> bytes \<Rightarrow> X25519SecretKey \<Rightarrow> MessageError + bytes" where
  "MessageEncryption_decrypt P ciphertext our_secret =
     (if length ciphertext < MIN_CIPHERTEXT_LEN
      then Inl (Encryption (DecryptionFailed ''ciphertext too short''))
      else
        let ephemeral_pub = X25519PublicKey (take 32 ciphertext);
            shared_secret = x25519_diffie_hellman P our_secret ephemeral_pub;
            encryption_key = derive_key P shared_secret
        in case open_sealed P encryption_key (drop 32 ciphertext) of
             Inl e \<Rightarrow> Inl (Encryption (DecryptionFailed ''decryption failed''))
           | Inr plaintext \<Rightarrow> Inr plaintext)"

section \<open>Laws\<close>

lemma prims_okD:
  assumes "prims_ok P"
  shows "\<exists>okm. p_hkdf P ikm salt info = Some okm \<and> length okm = 32"
    and "p_x25519_dh P s (p_x25519_public P t) = p_x25519_dh P t (p_x25519_public P s)"
    and "length (p_x25519_public P s) = 32"
    and "\<exists>c. p_aead_encrypt P k n p = Some c \<and> length c = length p + 16 \<and> p_aead_decrypt P k n c = Some p"
    and "p_ed25519_key_ok P (p_ed25519_public P seed)" and "length (p_ed25519_sign P seed m) = 64"
    and "p_ed25519_verify P (p_ed25519_public P seed) m (p_ed25519_sign P seed m)"
  using assms by (auto simp: prims_ok_def)

lemma seal_open:
  assumes "prims_ok P" and "length nonce = 24"
  obtains c where "seal P nonce key plaintext = Inr c" and "open_sealed P key c = Inr plaintext"
    and "length c = 24 + length plaintext + 16"
proof -
  obtain c where c: "p_aead_encrypt P key nonce plaintext = Some c" "length c = length plaintext + 16"
      "p_aead_decrypt P key nonce c = Some plaintext"
    using prims_okD(4) [OF assms(1)] by blast
  show ?thesis
    by (rule that [of "nonce @ c"])
      (simp_all add: seal_def aead_encrypt_def open_sealed_def aead_decrypt_def c assms(2) NONCE_LEN_def TAG_LEN_def)
qed

lemma pseudonym_signature_verifies:
  assumes "prims_ok P"
  obtains sig where "PseudonymIdentity_sign P i m = Inr sig" and "Signature_from_slice sig = Some (Signature sig)"
    and "verify_signature P (pseudonym_identity_key P i) m (Signature sig) = Inr ()"
  using prims_okD(5-7) [OF assms]
  by (simp add: PseudonymIdentity_sign_def Signature_from_slice_def ED25519_SIGNATURE_LEN_def verify_signature_def
      pseudonym_identity_key_def to_identity_key_def public_bytes_def)

lemma encrypt_decrypt:
  assumes "prims_ok P" and "length nonce = 24"
  shows "\<exists>c. MessageEncryption_encrypt P (KeyPair_generate P e) nonce plaintext (kp_public (KeyPair_generate P s)) = Inr c
     \<and> MessageEncryption_decrypt P c (kp_secret (KeyPair_generate P s)) = Inr plaintext"
proof -
  let ?key = "derive_key P (p_x25519_dh P e (p_x25519_public P s))"
  obtain c where c: "seal P nonce ?key plaintext = Inr c" "open_sealed P ?key c = Inr plaintext"
      "length c = 24 + length plaintext + 16"
    using seal_open [OF assms] by blast
  have "p_x25519_dh P s (p_x25519_public P e) = p_x25519_dh P e (p_x25519_public P s)"
    by (rule prims_okD(2) [OF assms(1)])
  then show ?thesis
    using c prims_okD(3) [OF assms(1), of e]
    by (intro exI [of _ "p_x25519_public P e @ c"])
      (simp add: MessageEncryption_encrypt_def MessageEncryption_decrypt_def KeyPair_generate_def
        x25519_diffie_hellman_def Let_def MIN_CIPHERTEXT_LEN_def)
qed

text \<open>C40: what one side encrypts to a public key, the owner of the key decrypts: for every plaintext, ephemeral key
  and nonce, decryption with the recipient's secret returns the plaintext.\<close>

theorem message_encryption_roundtrip:
  assumes "prims_ok P" and "length nonce = 24"
  shows "\<exists>c. MessageEncryption_encrypt P (KeyPair_generate P e) nonce plaintext (kp_public (KeyPair_generate P s)) = Inr c
     \<and> MessageEncryption_decrypt P c (kp_secret (KeyPair_generate P s)) = Inr plaintext"
  using assms by (rule encrypt_decrypt)

section \<open>A concrete set of primitives\<close>

text \<open>Toy primitives that satisfy the laws, for examples: sums of bytes as Diffie-Hellman, a constant tag.\<close>

definition toy_pad :: "bytes \<Rightarrow> bytes" where
  "toy_pad bs = take 32 (bs @ replicate 32 0)"

definition toy_prims :: prims where
  "toy_prims =
     \<lparr>p_hkdf = (\<lambda>ikm salt info. Some (toy_pad (info @ ikm))),
      p_x25519_public = toy_pad,
      p_x25519_dh = (\<lambda>s p. map2 (+) (toy_pad s) p),
      p_aead_encrypt = (\<lambda>k n p. Some (p @ replicate 16 0)),
      p_aead_decrypt = (\<lambda>k n c. Some (take (length c - 16) c)),
      p_blake3_keyed = (\<lambda>k m. toy_pad (k @ m)),
      p_ed25519_sign = (\<lambda>s m. take 64 (s @ m @ replicate 64 0)),
      p_ed25519_verify = (\<lambda>p m sig. sig = take 64 (p @ m @ replicate 64 0)),
      p_ed25519_public = (\<lambda>s. s),
      p_ed25519_key_ok = (\<lambda>p. True)\<rparr>"

lemma map2_add_commute: "map2 (+) xs ys = map2 (+) ys (xs :: bytes)"
  by (induction xs ys rule: list_induct2') (simp_all add: add.commute)

lemma toy_prims_ok: "prims_ok toy_prims"
  by (auto simp: prims_ok_def toy_prims_def toy_pad_def intro: map2_add_commute)

theorem message_encryption_roundtrip_witness:
  "\<exists>c. MessageEncryption_encrypt toy_prims (KeyPair_generate toy_prims [5]) (replicate 24 0) [1, 2, 3]
         (kp_public (KeyPair_generate toy_prims [9])) = Inr c
     \<and> MessageEncryption_decrypt toy_prims c (kp_secret (KeyPair_generate toy_prims [9])) = Inr [1, 2, 3]"
  by (rule message_encryption_roundtrip [OF toy_prims_ok]) simp

end
