(* ===== verification/Message_Ratchet.thy ===== *)
theory Message_Ratchet
  imports Message_Crypto
begin

text \<open>
  Crate \<^verbatim>\<open>ephemera-message\<close>, files \<^verbatim>\<open>prekey.rs\<close>, \<^verbatim>\<open>x3dh.rs\<close>, \<^verbatim>\<open>ratchet.rs\<close> and \<^verbatim>\<open>session.rs\<close>: the
  asynchronous key agreement, the double ratchet and the persisted sessions. Fresh key pairs and nonces are arguments.
  The table \<^verbatim>\<open>ratchet_sessions\<close> is a map from conversation identifiers to rows; database failures are not modelled.
\<close>

section \<open>Prekey bundles\<close>

record PrekeyBundle =
  pb_identity_key :: IdentityKey
  pb_identity_x25519 :: X25519PublicKey
  pb_signed_prekey :: X25519PublicKey
  pb_signed_prekey_signature :: Signature
  pb_one_time_prekey :: "X25519PublicKey option"

definition generate_prekey_bundle ::
    "prims \<Rightarrow> X25519KeyPair \<Rightarrow> X25519KeyPair \<Rightarrow> SigningKeyPair \<Rightarrow> X25519PublicKey \<Rightarrow> bool \<Rightarrow> PrekeyBundle" where
  "generate_prekey_bundle P signed_prekey_pair one_time_pair signing_key identity_x25519_pub include_one_time =
     (let identity_key = SigningKeyPair_public_key P signing_key;
          signed_prekey = kp_public signed_prekey_pair;
          signature = SigningKeyPair_sign P signing_key (x25519_public_bytes signed_prekey);
          one_time_prekey = (if include_one_time then Some (kp_public one_time_pair) else None)
      in \<lparr>pb_identity_key = identity_key, pb_identity_x25519 = identity_x25519_pub, pb_signed_prekey = signed_prekey,
          pb_signed_prekey_signature = signature, pb_one_time_prekey = one_time_prekey\<rparr>)"

definition validate_prekey_bundle :: "prims \<Rightarrow> PrekeyBundle \<Rightarrow> MessageError + unit" where
  "validate_prekey_bundle P bundle =
     (case verify_signature P (pb_identity_key bundle) (x25519_public_bytes (pb_signed_prekey bundle))
             (pb_signed_prekey_signature bundle) of
        Inl _ \<Rightarrow> Inl (InvalidPrekeyBundle ''signed prekey signature verification failed'')
      | Inr _ \<Rightarrow> Inr ())"

lemma generated_bundle_validates:
  assumes "prims_ok P"
  shows "validate_prekey_bundle P (generate_prekey_bundle P signed_prekey one_time signing_key identity_x25519_pub include) = Inr ()"
  using prims_okD(5,7) [OF assms]
  by (simp add: validate_prekey_bundle_def generate_prekey_bundle_def verify_signature_def SigningKeyPair_public_key_def
      SigningKeyPair_sign_def Let_def)

section \<open>X3DH\<close>

definition X3DH_INFO :: bytes where "X3DH_INFO = ascii_bytes ''ephemera-x3dh-v1''"
definition X3DH_SALT :: bytes where "X3DH_SALT = replicate 32 0"

record X3dhInitialMessage =
  xi_identity_key :: IdentityKey
  xi_identity_x25519 :: X25519PublicKey
  xi_ephemeral_key :: X25519PublicKey
  xi_signed_prekey_used :: X25519PublicKey
  xi_one_time_prekey_used :: "X25519PublicKey option"

record X3dhInitiatorResult =
  xr_shared_secret :: bytes
  xr_initial_message :: X3dhInitialMessage

definition x3dh_initiate ::
    "prims \<Rightarrow> X25519KeyPair \<Rightarrow> X25519SecretKey \<Rightarrow> X25519PublicKey \<Rightarrow> IdentityKey \<Rightarrow> PrekeyBundle
       \<Rightarrow> MessageError + X3dhInitiatorResult" where
  "x3dh_initiate P ephemeral our_identity_x25519 our_identity_x25519_pub our_identity_ed25519 their_bundle =
     (let dh1 = x25519_diffie_hellman P our_identity_x25519 (pb_signed_prekey their_bundle);
          dh2 = x25519_diffie_hellman P (kp_secret ephemeral) (pb_identity_x25519 their_bundle);
          dh3 = x25519_diffie_hellman P (kp_secret ephemeral) (pb_signed_prekey their_bundle);
          dh_concat = dh1 @ dh2 @ dh3;
          dh_concat = (case pb_one_time_prekey their_bundle of
                         Some otpk \<Rightarrow> dh_concat @ x25519_diffie_hellman P (kp_secret ephemeral) otpk
                       | None \<Rightarrow> dh_concat)
      in case hkdf_derive P dh_concat (Some X3DH_SALT) X3DH_INFO of
           Inl e \<Rightarrow> Inl (X3dhFailed ''HKDF derivation failed'')
         | Inr shared_secret \<Rightarrow>
             Inr \<lparr>xr_shared_secret = shared_secret,
                  xr_initial_message =
                    \<lparr>xi_identity_key = our_identity_ed25519, xi_identity_x25519 = our_identity_x25519_pub,
                     xi_ephemeral_key = kp_public ephemeral, xi_signed_prekey_used = pb_signed_prekey their_bundle,
                     xi_one_time_prekey_used = pb_one_time_prekey their_bundle\<rparr>\<rparr>)"

definition x3dh_respond ::
    "prims \<Rightarrow> X25519SecretKey \<Rightarrow> X25519SecretKey \<Rightarrow> X25519SecretKey option \<Rightarrow> X3dhInitialMessage \<Rightarrow> MessageError + bytes" where
  "x3dh_respond P our_identity_x25519 our_signed_prekey_secret our_one_time_prekey_secret initial_msg =
     (let dh1 = x25519_diffie_hellman P our_signed_prekey_secret (xi_identity_x25519 initial_msg);
          dh2 = x25519_diffie_hellman P our_identity_x25519 (xi_ephemeral_key initial_msg);
          dh3 = x25519_diffie_hellman P our_signed_prekey_secret (xi_ephemeral_key initial_msg);
          dh_concat = dh1 @ dh2 @ dh3;
          finish = (\<lambda>dh_concat.
            case hkdf_derive P dh_concat (Some X3DH_SALT) X3DH_INFO of
              Inl e \<Rightarrow> Inl (X3dhFailed ''HKDF derivation failed'')
            | Inr shared_secret \<Rightarrow> Inr shared_secret)
      in if xi_one_time_prekey_used initial_msg \<noteq> None
         then case our_one_time_prekey_secret of
                None \<Rightarrow> Inl (X3dhFailed ''initiator used one-time prekey but no matching secret'')
              | Some otp_secret \<Rightarrow>
                  finish (dh_concat @ x25519_diffie_hellman P otp_secret (xi_ephemeral_key initial_msg))
         else finish dh_concat)"

section \<open>The ratchet\<close>

definition CHAIN_INFO :: bytes where "CHAIN_INFO = ascii_bytes ''ephemera-chain-v1''"
definition MSG_KEY_INFO :: bytes where "MSG_KEY_INFO = ascii_bytes ''ephemera-msg-v1''"
definition RATCHET_INFO :: bytes where "RATCHET_INFO = ascii_bytes ''ephemera-ratchet-v1''"

record MessageHeader =
  mh_ratchet_key :: X25519PublicKey
  mh_message_number :: u32
  mh_previous_chain_length :: u32

record RatchetState =
  ra_root_key :: bytes
  ra_send_chain_key :: bytes
  ra_recv_chain_key :: bytes
  ra_send_ratchet_key :: X25519KeyPair
  ra_recv_ratchet_pubkey :: "X25519PublicKey option"
  ra_send_count :: u32
  ra_recv_count :: u32
  ra_previous_send_count :: u32

definition kdf_rk :: "prims \<Rightarrow> bytes \<Rightarrow> bytes \<Rightarrow> MessageError + bytes \<times> bytes" where
  "kdf_rk P root_key dh_output =
     (let ikm = root_key @ dh_output
      in case hkdf_derive P ikm None RATCHET_INFO of
           Inl e \<Rightarrow> Inl (RatchetError ''root KDF failed'')
         | Inr new_root \<Rightarrow>
             (case hkdf_derive P ikm None CHAIN_INFO of
                Inl e \<Rightarrow> Inl (RatchetError ''chain KDF failed'')
              | Inr chain_key \<Rightarrow> Inr (new_root, chain_key)))"

definition kdf_ck :: "prims \<Rightarrow> bytes \<Rightarrow> MessageError + bytes \<times> bytes" where
  "kdf_ck P chain_key =
     (case hkdf_derive P chain_key None CHAIN_INFO of
        Inl e \<Rightarrow> Inl (RatchetError ''chain advance failed'')
      | Inr new_chain \<Rightarrow>
          (case hkdf_derive P chain_key None MSG_KEY_INFO of
             Inl e \<Rightarrow> Inl (RatchetError ''message key derivation failed'')
           | Inr message_key \<Rightarrow> Inr (new_chain, message_key)))"

definition init_sender :: "prims \<Rightarrow> X25519KeyPair \<Rightarrow> bytes \<Rightarrow> X25519PublicKey \<Rightarrow> MessageError + RatchetState" where
  "init_sender P our_ratchet shared_secret their_ratchet_key =
     (let dh_out = x25519_diffie_hellman P (kp_secret our_ratchet) their_ratchet_key
      in case kdf_rk P shared_secret dh_out of
           Inl e \<Rightarrow> Inl e
         | Inr (root_key, send_chain_key) \<Rightarrow>
             Inr \<lparr>ra_root_key = root_key, ra_send_chain_key = send_chain_key, ra_recv_chain_key = replicate 32 0,
                  ra_send_ratchet_key = our_ratchet, ra_recv_ratchet_pubkey = Some their_ratchet_key,
                  ra_send_count = 0, ra_recv_count = 0, ra_previous_send_count = 0\<rparr>)"

definition init_receiver :: "bytes \<Rightarrow> X25519KeyPair \<Rightarrow> RatchetState" where
  "init_receiver shared_secret our_ratchet_key =
     \<lparr>ra_root_key = shared_secret, ra_send_chain_key = replicate 32 0, ra_recv_chain_key = replicate 32 0,
      ra_send_ratchet_key = our_ratchet_key, ra_recv_ratchet_pubkey = None,
      ra_send_count = 0, ra_recv_count = 0, ra_previous_send_count = 0\<rparr>"

definition RatchetState_from_persisted ::
    "prims \<Rightarrow> bytes \<Rightarrow> bytes \<Rightarrow> bytes \<Rightarrow> bytes \<Rightarrow> X25519PublicKey option \<Rightarrow> u32 \<Rightarrow> u32 \<Rightarrow> u32 \<Rightarrow> RatchetState" where
  "RatchetState_from_persisted P root_key send_chain_key recv_chain_key send_ratchet_secret recv_ratchet_pubkey
     send_count recv_count previous_send_count =
     \<lparr>ra_root_key = root_key, ra_send_chain_key = send_chain_key, ra_recv_chain_key = recv_chain_key,
      ra_send_ratchet_key = KeyPair_from_secret_bytes P send_ratchet_secret,
      ra_recv_ratchet_pubkey = recv_ratchet_pubkey, ra_send_count = send_count, ra_recv_count = recv_count,
      ra_previous_send_count = previous_send_count\<rparr>"

text \<open>The state is returned as the code leaves it on every path, errors included.\<close>

definition ratchet_encrypt :: "prims \<Rightarrow> bytes \<Rightarrow> RatchetState \<Rightarrow> bytes \<Rightarrow> RatchetState \<times> (MessageError + MessageHeader \<times> bytes)" where
  "ratchet_encrypt P nonce s plaintext =
     (case kdf_ck P (ra_send_chain_key s) of
        Inl e \<Rightarrow> (s, Inl e)
      | Inr (new_chain_key, message_key) \<Rightarrow>
          let s = s\<lparr>ra_send_chain_key := new_chain_key\<rparr>;
              header = \<lparr>mh_ratchet_key = kp_public (ra_send_ratchet_key s), mh_message_number = ra_send_count s,
                        mh_previous_chain_length = ra_previous_send_count s\<rparr>
          in case seal P nonce message_key plaintext of
               Inl e \<Rightarrow> (s, Inl (RatchetError ''encryption failed''))
             | Inr ciphertext \<Rightarrow> (s\<lparr>ra_send_count := ra_send_count s + 1\<rparr>, Inr (header, ciphertext)))"

definition dh_ratchet_step :: "prims \<Rightarrow> X25519KeyPair \<Rightarrow> RatchetState \<Rightarrow> X25519PublicKey \<Rightarrow> RatchetState \<times> (MessageError + unit)" where
  "dh_ratchet_step P new_pair s their_new_ratchet_key =
     (let s = s\<lparr>ra_previous_send_count := ra_send_count s, ra_send_count := 0, ra_recv_count := 0,
                ra_recv_ratchet_pubkey := Some their_new_ratchet_key\<rparr>;
          dh_recv = x25519_diffie_hellman P (kp_secret (ra_send_ratchet_key s)) their_new_ratchet_key
      in case kdf_rk P (ra_root_key s) dh_recv of
           Inl e \<Rightarrow> (s, Inl e)
         | Inr (new_root, recv_chain_key) \<Rightarrow>
             let s = s\<lparr>ra_root_key := new_root, ra_recv_chain_key := recv_chain_key, ra_send_ratchet_key := new_pair\<rparr>;
                 dh_send = x25519_diffie_hellman P (kp_secret (ra_send_ratchet_key s)) their_new_ratchet_key
             in case kdf_rk P (ra_root_key s) dh_send of
                  Inl e \<Rightarrow> (s, Inl e)
                | Inr (new_root2, send_chain_key) \<Rightarrow>
                    (s\<lparr>ra_root_key := new_root2, ra_send_chain_key := send_chain_key\<rparr>, Inr ()))"

text \<open>The loop that skips to the message number of the header.\<close>

function skip_messages :: "prims \<Rightarrow> RatchetState \<Rightarrow> u32 \<Rightarrow> RatchetState \<times> (MessageError + unit)" where
  "skip_messages P s message_number =
     (if ra_recv_count s < message_number
      then case kdf_ck P (ra_recv_chain_key s) of
             Inl e \<Rightarrow> (s, Inl e)
           | Inr (new_ck, _) \<Rightarrow>
               skip_messages P (s\<lparr>ra_recv_chain_key := new_ck, ra_recv_count := ra_recv_count s + 1\<rparr>) message_number
      else (s, Inr ()))"
  by pat_completeness auto

termination
proof (relation "measure (\<lambda>(P, s, n). unat n - unat (ra_recv_count s))", goal_cases)
  case (2 P s n x new_ck y)
  then have "unat (ra_recv_count s + 1) = unat (ra_recv_count s) + 1"
    using unat_bound [of n] by (intro unat_add_exact [THEN trans]) (simp_all add: word_less_nat_alt)
  then show ?case using 2 by (simp add: word_less_nat_alt)
qed simp

declare skip_messages.simps [simp del]

definition ratchet_decrypt ::
    "prims \<Rightarrow> X25519KeyPair \<Rightarrow> RatchetState \<Rightarrow> MessageHeader \<Rightarrow> bytes \<Rightarrow> RatchetState \<times> (MessageError + bytes)" where
  "ratchet_decrypt P new_pair s header ciphertext =
     (let need_dh_step = (case ra_recv_ratchet_pubkey s of
                            Some existing \<Rightarrow> existing \<noteq> mh_ratchet_key header
                          | None \<Rightarrow> True);
          (s, r) = (if need_dh_step then dh_ratchet_step P new_pair s (mh_ratchet_key header) else (s, Inr ()))
      in case r of
           Inl e \<Rightarrow> (s, Inl e)
         | Inr _ \<Rightarrow>
         (case skip_messages P s (mh_message_number header) of
            (s, Inl e) \<Rightarrow> (s, Inl e)
          | (s, Inr _) \<Rightarrow>
              (case kdf_ck P (ra_recv_chain_key s) of
                 Inl e \<Rightarrow> (s, Inl e)
               | Inr (new_chain_key, message_key) \<Rightarrow>
                   let s = s\<lparr>ra_recv_chain_key := new_chain_key, ra_recv_count := ra_recv_count s + 1\<rparr>
                   in case open_sealed P message_key ciphertext of
                        Inl e \<Rightarrow> (s, Inl (RatchetError ''decryption failed''))
                      | Inr plaintext \<Rightarrow> (s, Inr plaintext))))"

section \<open>Sessions\<close>

record SessionRow =
  row_peer_pubkey :: bytes
  row_root_key :: bytes
  row_send_chain_key :: bytes
  row_recv_chain_key :: bytes
  row_send_ratchet_secret :: bytes
  row_send_ratchet_pubkey :: bytes
  row_recv_ratchet_pubkey :: "bytes option"
  row_send_count :: u32
  row_recv_count :: u32
  row_prev_send_count :: u32
  row_created_at :: int
  row_updated_at :: int

type_synonym session_db = "string \<rightharpoonup> SessionRow"

record EncryptedMessage =
  em_header :: MessageHeader
  em_ciphertext :: bytes
  em_x3dh_header :: "X3dhInitialMessage option"

definition to_array32 :: "bytes \<Rightarrow> MessageError + bytes" where
  "to_array32 bs =
     (if length bs \<noteq> 32 then Inl (RatchetError (''expected 32 bytes, got '' @ show_nat (length bs))) else Inr bs)"

definition load_session :: "prims \<Rightarrow> session_db \<Rightarrow> string \<Rightarrow> MessageError + RatchetState option" where
  "load_session P db conversation_id =
     (case db conversation_id of
        None \<Rightarrow> Inr None
      | Some row \<Rightarrow>
      (case to_array32 (row_root_key row) of
         Inl e \<Rightarrow> Inl e
       | Inr rk \<Rightarrow>
      (case to_array32 (row_send_chain_key row) of
         Inl e \<Rightarrow> Inl e
       | Inr sck \<Rightarrow>
      (case to_array32 (row_recv_chain_key row) of
         Inl e \<Rightarrow> Inl e
       | Inr rck \<Rightarrow>
      (case to_array32 (row_send_ratchet_secret row) of
         Inl e \<Rightarrow> Inl e
       | Inr ss \<Rightarrow>
      (case (case row_recv_ratchet_pubkey row of
               None \<Rightarrow> Inr None
             | Some bs \<Rightarrow> (case to_array32 bs of Inl e \<Rightarrow> Inl e | Inr k \<Rightarrow> Inr (Some (X25519PublicKey k)))) of
         Inl e \<Rightarrow> Inl e
       | Inr rpk \<Rightarrow>
           Inr (Some (RatchetState_from_persisted P rk sck rck ss rpk (row_send_count row) (row_recv_count row)
                        (row_prev_send_count row)))))))))"

text \<open>The upsert keeps the peer and the creation time of an existing row.\<close>

definition save_session :: "session_db \<Rightarrow> string \<Rightarrow> bytes \<Rightarrow> RatchetState \<Rightarrow> int \<Rightarrow> session_db" where
  "save_session db conversation_id peer_pubkey state now =
     db(conversation_id \<mapsto>
       \<lparr>row_peer_pubkey = (case db conversation_id of Some old \<Rightarrow> row_peer_pubkey old | None \<Rightarrow> peer_pubkey),
        row_root_key = ra_root_key state,
        row_send_chain_key = ra_send_chain_key state,
        row_recv_chain_key = ra_recv_chain_key state,
        row_send_ratchet_secret = x25519_secret_bytes (kp_secret (ra_send_ratchet_key state)),
        row_send_ratchet_pubkey = x25519_public_bytes (kp_public (ra_send_ratchet_key state)),
        row_recv_ratchet_pubkey = map_option x25519_public_bytes (ra_recv_ratchet_pubkey state),
        row_send_count = ra_send_count state,
        row_recv_count = ra_recv_count state,
        row_prev_send_count = ra_previous_send_count state,
        row_created_at = (case db conversation_id of Some old \<Rightarrow> row_created_at old | None \<Rightarrow> now),
        row_updated_at = now\<rparr>)"

definition encrypt_for_peer ::
    "prims \<Rightarrow> X25519KeyPair \<Rightarrow> X25519KeyPair \<Rightarrow> bytes \<Rightarrow> int \<Rightarrow> session_db \<Rightarrow> string \<Rightarrow> bytes \<Rightarrow> X25519KeyPair
       \<Rightarrow> IdentityKey \<Rightarrow> PrekeyBundle option \<Rightarrow> bytes \<Rightarrow> session_db \<times> (MessageError + EncryptedMessage)" where
  "encrypt_for_peer P ephemeral new_ratchet nonce now db conversation_id peer_pubkey our_x25519 our_identity
     their_bundle plaintext =
     (case load_session P db conversation_id of
        Inl e \<Rightarrow> (db, Inl e)
      | Inr existing \<Rightarrow>
      (case (case existing of
               Some state \<Rightarrow> Inr (state, None)
             | None \<Rightarrow>
                 (case their_bundle of
                    None \<Rightarrow> Inl (X3dhFailed ''no prekey bundle for new session'')
                  | Some bundle \<Rightarrow>
                      (case x3dh_initiate P ephemeral (kp_secret our_x25519) (kp_public our_x25519) our_identity bundle of
                         Inl e \<Rightarrow> Inl e
                       | Inr result \<Rightarrow>
                           (case init_sender P new_ratchet (xr_shared_secret result) (pb_signed_prekey bundle) of
                              Inl e \<Rightarrow> Inl e
                            | Inr ratchet \<Rightarrow> Inr (ratchet, Some (xr_initial_message result)))))) of
         Inl e \<Rightarrow> (db, Inl e)
       | Inr (state, x3dh_header) \<Rightarrow>
           (case ratchet_encrypt P nonce state plaintext of
              (state, Inl e) \<Rightarrow> (db, Inl e)
            | (state, Inr (header, ciphertext)) \<Rightarrow>
                (save_session db conversation_id peer_pubkey state now,
                 Inr \<lparr>em_header = header, em_ciphertext = ciphertext, em_x3dh_header = x3dh_header\<rparr>))))"

definition decrypt_from_peer ::
    "prims \<Rightarrow> X25519KeyPair \<Rightarrow> int \<Rightarrow> session_db \<Rightarrow> string \<Rightarrow> bytes \<Rightarrow> X25519KeyPair option \<Rightarrow> bytes option
       \<Rightarrow> MessageHeader \<Rightarrow> bytes \<Rightarrow> session_db \<times> (MessageError + bytes)" where
  "decrypt_from_peer P new_pair now db conversation_id peer_pubkey our_ratchet_key shared_secret header ciphertext =
     (case load_session P db conversation_id of
        Inl e \<Rightarrow> (db, Inl e)
      | Inr existing \<Rightarrow>
      (case (case existing of
               Some state \<Rightarrow> Inr state
             | None \<Rightarrow>
                 (case shared_secret of
                    None \<Rightarrow> Inl (RatchetError ''no session and no shared secret for init'')
                  | Some secret \<Rightarrow>
                      (case our_ratchet_key of
                         None \<Rightarrow> Inl (RatchetError ''no ratchet key for receiver init'')
                       | Some ratchet_key \<Rightarrow> Inr (init_receiver secret ratchet_key)))) of
         Inl e \<Rightarrow> (db, Inl e)
       | Inr state \<Rightarrow>
           (case ratchet_decrypt P new_pair state header ciphertext of
              (state, Inl e) \<Rightarrow> (db, Inl e)
            | (state, Inr plaintext) \<Rightarrow>
                (save_session db conversation_id peer_pubkey state now, Inr plaintext))))"

definition has_session :: "session_db \<Rightarrow> string \<Rightarrow> bool" where
  "has_session db conversation_id \<longleftrightarrow> db conversation_id \<noteq> None"

section \<open>Key schedule\<close>

text \<open>The derived keys as functions, for primitives whose key derivation does not fail.\<close>

definition root_of :: "prims \<Rightarrow> bytes \<Rightarrow> bytes \<Rightarrow> bytes" where
  "root_of P root dh = the (p_hkdf P (root @ dh) None RATCHET_INFO)"

definition chain_of :: "prims \<Rightarrow> bytes \<Rightarrow> bytes \<Rightarrow> bytes" where
  "chain_of P root dh = the (p_hkdf P (root @ dh) None CHAIN_INFO)"

definition next_chain :: "prims \<Rightarrow> bytes \<Rightarrow> bytes" where
  "next_chain P ck = the (p_hkdf P ck None CHAIN_INFO)"

definition message_key :: "prims \<Rightarrow> bytes \<Rightarrow> bytes" where
  "message_key P ck = the (p_hkdf P ck None MSG_KEY_INFO)"

lemma hkdf_ok: "prims_ok P \<Longrightarrow> hkdf_derive P ikm salt info = Inr (the (p_hkdf P ikm salt info))"
  using prims_okD(1) [of P ikm salt info] by (auto simp: hkdf_derive_def)

lemma kdf_ok:
  assumes "prims_ok P"
  shows "kdf_rk P root dh = Inr (root_of P root dh, chain_of P root dh)"
    and "kdf_ck P ck = Inr (next_chain P ck, message_key P ck)"
  using assms by (simp_all add: kdf_rk_def kdf_ck_def hkdf_ok Let_def root_of_def chain_of_def next_chain_def message_key_def)

definition pair_ok :: "prims \<Rightarrow> X25519KeyPair \<Rightarrow> bool" where
  "pair_ok P k \<longleftrightarrow> x25519_public_bytes (kp_public k) = p_x25519_public P (x25519_secret_bytes (kp_secret k))"

abbreviation dh :: "prims \<Rightarrow> X25519KeyPair \<Rightarrow> X25519KeyPair \<Rightarrow> bytes" where
  "dh P k l \<equiv> x25519_diffie_hellman P (kp_secret k) (kp_public l)"

lemma dh_sym: "prims_ok P \<Longrightarrow> pair_ok P k \<Longrightarrow> pair_ok P l \<Longrightarrow> dh P k l = dh P l k"
  using prims_okD(2) by (simp add: x25519_diffie_hellman_def pair_ok_def)

lemma pair_ok_generate: "pair_ok P (KeyPair_generate P secret)"
  by (simp add: pair_ok_def KeyPair_generate_def)

text \<open>One message on an established chain, encrypted and decrypted.\<close>

lemma ratchet_encrypt_ok:
  assumes "prims_ok P" and "length nonce = 24"
  obtains c where "ratchet_encrypt P nonce s plaintext =
      (s\<lparr>ra_send_chain_key := next_chain P (ra_send_chain_key s), ra_send_count := ra_send_count s + 1\<rparr>,
       Inr (\<lparr>mh_ratchet_key = kp_public (ra_send_ratchet_key s), mh_message_number = ra_send_count s,
             mh_previous_chain_length = ra_previous_send_count s\<rparr>, c))"
    and "open_sealed P (message_key P (ra_send_chain_key s)) c = Inr plaintext"
proof -
  obtain c where "seal P nonce (message_key P (ra_send_chain_key s)) plaintext = Inr c"
      "open_sealed P (message_key P (ra_send_chain_key s)) c = Inr plaintext"
    using seal_open [OF assms] by blast
  then show ?thesis
    by (intro that [of c]) (simp_all add: ratchet_encrypt_def kdf_ok [OF assms(1)] Let_def)
qed

abbreviation adv :: "prims \<Rightarrow> nat \<Rightarrow> bytes \<Rightarrow> bytes" where
  "adv P k \<equiv> next_chain P ^^ k"

lemma adv_adv: "adv P j (adv P k ck) = adv P (j + k) ck"
  by (simp add: funpow_add)

lemma adv_next: "next_chain P (adv P k ck) = adv P (Suc k) ck"
  by simp

text \<open>The skipping loop advances the chain to the number of the message.\<close>

lemma skip_messages_ok:
  assumes "prims_ok P" and "ra_recv_count s \<le> m"
  shows "skip_messages P s m =
    (s\<lparr>ra_recv_chain_key := adv P (unat m - unat (ra_recv_count s)) (ra_recv_chain_key s), ra_recv_count := m\<rparr>, Inr ())"
  using assms
proof (induction P s m rule: skip_messages.induct)
  case (1 P s m)
  show ?case
  proof (cases "ra_recv_count s < m")
    case True
    let ?s = "s\<lparr>ra_recv_chain_key := next_chain P (ra_recv_chain_key s), ra_recv_count := ra_recv_count s + 1\<rparr>"
    have u: "unat (ra_recv_count s + 1) = unat (ra_recv_count s) + 1"
      using True unat_bound [of m] by (intro unat_add_exact [THEN trans]) (simp_all add: word_less_nat_alt)
    have le: "ra_recv_count s + 1 \<le> m" using True u by (simp add: word_le_nat_alt word_less_nat_alt)
    have d: "Suc (unat m - unat (ra_recv_count s + 1)) = unat m - unat (ra_recv_count s)"
      using True u by (simp add: word_less_nat_alt)
    have "skip_messages P ?s m = (?s\<lparr>ra_recv_chain_key := adv P (unat m - unat (ra_recv_count s + 1))
          (next_chain P (ra_recv_chain_key s)), ra_recv_count := m\<rparr>, Inr ())"
      using "1.IH" [OF True kdf_ok(2) [OF "1.prems"(1)] refl] "1.prems"(1) le by simp
    then show ?thesis
      using True by (simp add: skip_messages.simps [of P s] kdf_ok [OF "1.prems"(1)] funpow_swap1 flip: d)
  next
    case False
    then have "ra_recv_count s = m" using "1.prems"(2) by simp
    then show ?thesis by (simp add: skip_messages.simps [of P s])
  qed
qed

lemma ratchet_decrypt_same_chain:
  assumes "prims_ok P" and "ra_recv_ratchet_pubkey s = Some (mh_ratchet_key h)" and "ra_recv_count s \<le> mh_message_number h"
    and "k = unat (mh_message_number h) - unat (ra_recv_count s)"
    and "open_sealed P (message_key P (adv P k (ra_recv_chain_key s))) c = Inr plaintext"
  shows "ratchet_decrypt P new_pair s h c =
    (s\<lparr>ra_recv_chain_key := adv P (Suc k) (ra_recv_chain_key s), ra_recv_count := mh_message_number h + 1\<rparr>, Inr plaintext)"
  using assms(2,5) by (simp add: ratchet_decrypt_def skip_messages_ok [OF assms(1,3)] kdf_ok [OF assms(1)] Let_def flip: assms(4))

lemma ratchet_decrypt_new_chain:
  assumes "prims_ok P" and "ra_recv_ratchet_pubkey s \<noteq> Some (mh_ratchet_key h)"
    and "ck = chain_of P (ra_root_key s) (x25519_diffie_hellman P (kp_secret (ra_send_ratchet_key s)) (mh_ratchet_key h))"
    and "root = root_of P (ra_root_key s) (x25519_diffie_hellman P (kp_secret (ra_send_ratchet_key s)) (mh_ratchet_key h))"
    and "open_sealed P (message_key P (adv P (unat (mh_message_number h)) ck)) c = Inr plaintext"
  shows "ratchet_decrypt P new_pair s h c =
    (\<lparr>ra_root_key = root_of P root (x25519_diffie_hellman P (kp_secret new_pair) (mh_ratchet_key h)),
      ra_send_chain_key = chain_of P root (x25519_diffie_hellman P (kp_secret new_pair) (mh_ratchet_key h)),
      ra_recv_chain_key = adv P (Suc (unat (mh_message_number h))) ck, ra_send_ratchet_key = new_pair,
      ra_recv_ratchet_pubkey = Some (mh_ratchet_key h), ra_send_count = 0, ra_recv_count = mh_message_number h + 1,
      ra_previous_send_count = ra_send_count s\<rparr>, Inr plaintext)"
proof -
  have n: "(case ra_recv_ratchet_pubkey s of Some existing \<Rightarrow> existing \<noteq> mh_ratchet_key h | None \<Rightarrow> True)"
    using assms(2) by (auto split: option.split)
  show ?thesis
    using assms(5)
    by (simp add: ratchet_decrypt_def n dh_ratchet_step_def skip_messages_ok [OF assms(1)] kdf_ok [OF assms(1)] Let_def
        flip: assms(3,4))
qed

section \<open>A conversation\<close>

text \<open>A message in flight is its header, its ciphertext and the plaintext it was made from. Messages on one sending
  chain, in the order they were sent but with gaps where some were lost: \<open>chain_msgs P pub ck n ms ck' n'\<close> says that
  \<open>ms\<close> are messages with numbers from \<open>n\<close> up to \<open>n'\<close> (exclusive) on the chain of the ratchet key \<open>pub\<close> that leads from
  chain key \<open>ck\<close> to \<open>ck'\<close>.\<close>

type_synonym flight = "(MessageHeader \<times> bytes \<times> bytes) list"

fun chain_msgs :: "prims \<Rightarrow> X25519PublicKey \<Rightarrow> bytes \<Rightarrow> nat \<Rightarrow> flight \<Rightarrow> bytes \<Rightarrow> nat \<Rightarrow> bool" where
  "chain_msgs P pub ck n [] ck' n' \<longleftrightarrow> n \<le> n' \<and> n' < 2 ^ 32 \<and> ck' = adv P (n' - n) ck"
| "chain_msgs P pub ck n ((h, c, p) # ms) ck' n' \<longleftrightarrow>
     mh_ratchet_key h = pub \<and> n \<le> unat (mh_message_number h)
     \<and> open_sealed P (message_key P (adv P (unat (mh_message_number h) - n) ck)) c = Inr p
     \<and> chain_msgs P pub (adv P (Suc (unat (mh_message_number h)) - n) ck) (Suc (unat (mh_message_number h))) ms ck' n'"

lemma chain_msgs_end: "chain_msgs P pub ck n ms ck' n' \<Longrightarrow> n \<le> n' \<and> n' < 2 ^ 32 \<and> ck' = adv P (n' - n) ck"
proof (induction P pub ck n ms ck' n' rule: chain_msgs.induct)
  case (2 P pub ck n h c p ms ck' n')
  then show ?case by (auto simp: adv_adv simp del: funpow.simps)
qed simp

lemma chain_msgs_snoc:
  assumes "chain_msgs P pub ck n ms ck' n'" and "mh_ratchet_key h = pub" and "unat (mh_message_number h) = n'"
    and "Suc n' < 2 ^ 32" and "open_sealed P (message_key P ck') c = Inr p"
  shows "chain_msgs P pub ck n (ms @ [(h, c, p)]) (next_chain P ck') (Suc n')"
  using assms by (induction P pub ck n ms ck' n' rule: chain_msgs.induct) (auto simp: Suc_diff_le)

lemma chain_msgs_weaken:
  assumes "chain_msgs P pub (adv P k ck) (n + k) ms ck' n'"
  shows "chain_msgs P pub ck n ms ck' n'"
proof (cases "(P, pub, ck, n, ms, ck', n')" rule: chain_msgs.cases)
  case 1
  with assms show ?thesis by (auto simp: adv_adv)
next
  case 2
  with assms show ?thesis by (auto simp: adv_adv)
qed

lemma chain_msgs_lose: "chain_msgs P pub ck n (ms @ m # ms') ck' n' \<Longrightarrow> chain_msgs P pub ck n (ms @ ms') ck' n'"
proof (induction P pub ck n ms ck' n' rule: chain_msgs.induct)
  case (1 P pub ck n ck' n')
  obtain h c p where m: "m = (h, c, p)" by (cases m)
  let ?k = "Suc (unat (mh_message_number h)) - n"
  have "n + ?k = Suc (unat (mh_message_number h))" using 1 m by simp
  then show ?case
    using 1 m chain_msgs_weaken [of P pub ?k ck n ms' ck' n'] by simp
qed simp

text \<open>
  The two ends in agreement, with \<open>x\<close> ahead: \<open>x\<close> knows the current ratchet key of \<open>y\<close>, \<open>y\<close> does not yet know that of
  \<open>x\<close>. The messages on their way to \<open>y\<close> are the rest of the chain \<open>y\<close> is receiving, followed by the chain \<open>y\<close> will
  derive from the new key; the messages on their way to \<open>x\<close> continue the chain \<open>x\<close> is receiving.
\<close>

definition first_chain :: "prims \<Rightarrow> RatchetState \<Rightarrow> RatchetState \<Rightarrow> bytes" where
  "first_chain P x y = chain_of P (ra_root_key y) (dh P (ra_send_ratchet_key y) (ra_send_ratchet_key x))"

definition recv_chain :: "prims \<Rightarrow> RatchetState \<Rightarrow> flight \<Rightarrow> bool" where
  "recv_chain P y old \<longleftrightarrow>
     (case ra_recv_ratchet_pubkey y of None \<Rightarrow> old = []
      | Some pub \<Rightarrow> (\<exists>ck n. chain_msgs P pub (ra_recv_chain_key y) (unat (ra_recv_count y)) old ck n))"

definition to_behind :: "prims \<Rightarrow> RatchetState \<Rightarrow> RatchetState \<Rightarrow> flight \<Rightarrow> bool" where
  "to_behind P x y to_y \<longleftrightarrow>
     (\<exists>old new. to_y = old @ new \<and> recv_chain P y old
        \<and> chain_msgs P (kp_public (ra_send_ratchet_key x)) (first_chain P x y) 0 new
             (ra_send_chain_key x) (unat (ra_send_count x)))"

definition to_ahead :: "prims \<Rightarrow> RatchetState \<Rightarrow> RatchetState \<Rightarrow> flight \<Rightarrow> bool" where
  "to_ahead P x y to_x \<longleftrightarrow>
     chain_msgs P (kp_public (ra_send_ratchet_key y)) (ra_recv_chain_key x) (unat (ra_recv_count x)) to_x
       (ra_send_chain_key y) (unat (ra_send_count y))"

definition linked :: "prims \<Rightarrow> RatchetState \<Rightarrow> RatchetState \<Rightarrow> bool" where
  "linked P x y \<longleftrightarrow>
     pair_ok P (ra_send_ratchet_key x) \<and> pair_ok P (ra_send_ratchet_key y)
     \<and> ra_recv_ratchet_pubkey x = Some (kp_public (ra_send_ratchet_key y))
     \<and> ra_recv_ratchet_pubkey y \<noteq> Some (kp_public (ra_send_ratchet_key x))
     \<and> ra_root_key x = root_of P (ra_root_key y) (dh P (ra_send_ratchet_key y) (ra_send_ratchet_key x))"

definition in_step :: "prims \<Rightarrow> RatchetState \<Rightarrow> RatchetState \<Rightarrow> flight \<Rightarrow> flight \<Rightarrow> bool" where
  "in_step P x y to_y to_x \<longleftrightarrow> linked P x y \<and> to_behind P x y to_y \<and> to_ahead P x y to_x"

definition in_sync :: "prims \<Rightarrow> RatchetState \<Rightarrow> RatchetState \<Rightarrow> flight \<Rightarrow> flight \<Rightarrow> bool" where
  "in_sync P a b to_b to_a \<longleftrightarrow> in_step P a b to_b to_a \<or> in_step P b a to_a to_b"

lemma to_behindE:
  assumes "to_behind P x y to_y"
  obtains old new where "to_y = old @ new" and "recv_chain P y old"
    and "chain_msgs P (kp_public (ra_send_ratchet_key x)) (first_chain P x y) 0 new
           (ra_send_chain_key x) (unat (ra_send_count x))"
  using assms by (auto simp: to_behind_def)

lemma to_behindI:
  assumes "to_y = old @ new" and "recv_chain P y old"
    and "chain_msgs P (kp_public (ra_send_ratchet_key x)) (first_chain P x y) 0 new
           (ra_send_chain_key x) (unat (ra_send_count x))"
  shows "to_behind P x y to_y"
  using assms by (auto simp: to_behind_def)

text \<open>Sending, by either end.\<close>

definition sent :: "RatchetState \<Rightarrow> prims \<Rightarrow> RatchetState" where
  "sent s P = s\<lparr>ra_send_chain_key := next_chain P (ra_send_chain_key s), ra_send_count := ra_send_count s + 1\<rparr>"

lemma sent_sel [simp]:
  "ra_root_key (sent s P) = ra_root_key s" "ra_recv_chain_key (sent s P) = ra_recv_chain_key s"
  "ra_send_ratchet_key (sent s P) = ra_send_ratchet_key s" "ra_recv_ratchet_pubkey (sent s P) = ra_recv_ratchet_pubkey s"
  "ra_recv_count (sent s P) = ra_recv_count s" "ra_send_chain_key (sent s P) = next_chain P (ra_send_chain_key s)"
  "ra_send_count (sent s P) = ra_send_count s + 1"
  by (simp_all add: sent_def)

definition can_send :: "RatchetState \<Rightarrow> bool" where
  "can_send s \<longleftrightarrow> Suc (unat (ra_send_count s)) < 2 ^ 32"

lemma ratchet_encrypt_sent:
  assumes "prims_ok P" and "length nonce = 24" and "ratchet_encrypt P nonce s p = (s', Inr (h, c))" and "can_send s"
  shows "s' = sent s P" and "mh_ratchet_key h = kp_public (ra_send_ratchet_key s)" and "mh_message_number h = ra_send_count s"
    and "open_sealed P (message_key P (ra_send_chain_key s)) c = Inr p"
    and "unat (ra_send_count s + 1) = Suc (unat (ra_send_count s))"
proof -
  obtain c' where "ratchet_encrypt P nonce s p = (sent s P,
       Inr (\<lparr>mh_ratchet_key = kp_public (ra_send_ratchet_key s), mh_message_number = ra_send_count s,
             mh_previous_chain_length = ra_previous_send_count s\<rparr>, c'))"
    and "open_sealed P (message_key P (ra_send_chain_key s)) c' = Inr p"
    using ratchet_encrypt_ok [OF assms(1,2)] unfolding sent_def by blast
  then show "s' = sent s P" and "mh_ratchet_key h = kp_public (ra_send_ratchet_key s)"
    and "mh_message_number h = ra_send_count s" and "open_sealed P (message_key P (ra_send_chain_key s)) c = Inr p"
    using assms(3) by simp_all
  show "unat (ra_send_count s + 1) = Suc (unat (ra_send_count s))"
    using assms(4) by (simp add: can_send_def unat_add_exact)
qed

lemma linked_sent [simp]: "linked P (sent x P) y = linked P x y" "linked P x (sent y P) = linked P x y"
  by (simp_all add: linked_def)

lemma recv_chain_sent [simp]: "recv_chain P (sent y P) old = recv_chain P y old"
  by (cases "ra_recv_ratchet_pubkey y") (simp_all add: recv_chain_def)

lemma first_chain_sent [simp]: "first_chain P (sent x P) y = first_chain P x y" "first_chain P x (sent y P) = first_chain P x y"
  by (simp_all add: first_chain_def)

lemma in_step_send:
  assumes "prims_ok P" and "length nonce = 24" and "in_step P x y to_y to_x"
    and e: "ratchet_encrypt P nonce x p = (x', Inr (h, c))" and "can_send x"
  shows "in_step P x' y (to_y @ [(h, c, p)]) to_x"
proof -
  note s = ratchet_encrypt_sent [OF assms(1,2) e assms(5)]
  from assms(3) obtain old new where q: "to_y = old @ new" "recv_chain P y old"
      "chain_msgs P (kp_public (ra_send_ratchet_key x)) (first_chain P x y) 0 new (ra_send_chain_key x)
        (unat (ra_send_count x))"
    by (auto simp: in_step_def elim: to_behindE)
  have "to_behind P x' y (to_y @ [(h, c, p)])"
    by (rule to_behindI [of _ old "new @ [(h, c, p)]"])
      (use q assms(5) s chain_msgs_snoc [OF q(3), of h c p] in \<open>simp_all add: can_send_def\<close>)
  then show ?thesis using assms(3) by (simp add: in_step_def s(1) to_ahead_def)
qed

lemma in_step_reply:
  assumes "prims_ok P" and "length nonce = 24" and "in_step P x y to_y to_x"
    and e: "ratchet_encrypt P nonce y p = (y', Inr (h, c))" and "can_send y"
  shows "in_step P x y' to_y (to_x @ [(h, c, p)])"
proof -
  note s = ratchet_encrypt_sent [OF assms(1,2) e assms(5)]
  have "to_ahead P x y to_x" using assms(3) by (simp add: in_step_def)
  from chain_msgs_snoc [OF this [unfolded to_ahead_def], of h c p]
  have "to_ahead P x y' (to_x @ [(h, c, p)])"
    using s assms(5) by (simp add: to_ahead_def can_send_def)
  then show ?thesis using assms(3) by (simp add: in_step_def s(1) to_behind_def)
qed

text \<open>Loss of any message in flight.\<close>

lemma in_step_lose_behind:
  assumes "in_step P x y (ms @ m # ms') to_x"
  shows "in_step P x y (ms @ ms') to_x"
proof -
  from assms obtain old new where q: "ms @ m # ms' = old @ new" "recv_chain P y old"
      "chain_msgs P (kp_public (ra_send_ratchet_key x)) (first_chain P x y) 0 new (ra_send_chain_key x)
        (unat (ra_send_count x))"
    by (auto simp: in_step_def elim: to_behindE)
  from q(1) consider us where "old = ms @ m # us" "ms' = us @ new" | us where "ms = old @ us" "new = us @ m # ms'"
    by (auto simp: append_eq_append_conv2 Cons_eq_append_conv)
  then have "to_behind P x y (ms @ ms')"
  proof cases
    case 1
    have "recv_chain P y (ms @ us)"
      using q(2) unfolding 1 recv_chain_def by (auto split: option.splits intro: chain_msgs_lose)
    then show ?thesis using q(3) 1 by (intro to_behindI [of _ "ms @ us" new]) auto
  next
    case 2
    then show ?thesis using q(2) chain_msgs_lose [OF q(3) [unfolded 2]] by (intro to_behindI [of _ old "us @ ms'"]) auto
  qed
  then show ?thesis using assms by (simp add: in_step_def)
qed

lemma in_step_lose_ahead: "in_step P x y to_y (ms @ m # ms') \<Longrightarrow> in_step P x y to_y (ms @ ms')"
  by (auto simp: in_step_def to_ahead_def intro: chain_msgs_lose)

lemmas in_sync_send = in_step_send in_step_reply
lemmas in_sync_lose = in_step_lose_behind in_step_lose_ahead

text \<open>Delivery to the end that is ahead stays on the chain it knows.\<close>

lemma in_step_deliver_ahead:
  assumes "prims_ok P" and "in_step P x y to_y ((h, c, p) # to_x)"
  shows "snd (ratchet_decrypt P k x h c) = Inr p"
    and "in_step P (fst (ratchet_decrypt P k x h c)) y to_y to_x"
proof -
  let ?n = "unat (mh_message_number h)"
  have l: "linked P x y" "to_behind P x y to_y"
    and ch: "chain_msgs P (kp_public (ra_send_ratchet_key y)) (ra_recv_chain_key x) (unat (ra_recv_count x)) ((h, c, p) # to_x)
      (ra_send_chain_key y) (unat (ra_send_count y))"
    using assms(2) by (simp_all add: in_step_def to_ahead_def)
  let ?x = "x\<lparr>ra_recv_chain_key := adv P (Suc (?n - unat (ra_recv_count x))) (ra_recv_chain_key x),
      ra_recv_count := mh_message_number h + 1\<rparr>"
  have d: "ratchet_decrypt P k x h c = (?x, Inr p)"
    by (rule ratchet_decrypt_same_chain [OF assms(1)])
      (use l ch in \<open>simp_all add: linked_def word_le_nat_alt\<close>)
  have "Suc ?n < 2 ^ 32" using ch chain_msgs_end [of P _ _ "Suc ?n" to_x] by fastforce
  then have "unat (mh_message_number h + 1) = Suc ?n" by (simp add: unat_add_exact)
  then have "to_ahead P ?x y to_x" using ch by (auto simp: to_ahead_def Suc_diff_le simp del: funpow.simps)
  moreover have "linked P ?x y" "to_behind P ?x y to_y"
    using l by (simp_all add: linked_def to_behind_def first_chain_def)
  ultimately show "snd (ratchet_decrypt P k x h c) = Inr p"
    and "in_step P (fst (ratchet_decrypt P k x h c)) y to_y to_x"
    by (simp_all add: d in_step_def)
qed

text \<open>Delivery to the other end: either the rest of its chain, or the first message of the new chain, after which it is
  the one ahead.\<close>

lemma in_step_deliver_old:
  assumes "prims_ok P" and "linked P x y" and "to_ahead P x y to_x" and "recv_chain P y ((h, c, p) # old)"
    and "chain_msgs P (kp_public (ra_send_ratchet_key x)) (first_chain P x y) 0 new (ra_send_chain_key x)
           (unat (ra_send_count x))"
  shows "snd (ratchet_decrypt P k y h c) = Inr p"
    and "in_step P x (fst (ratchet_decrypt P k y h c)) (old @ new) to_x"
proof -
  let ?n = "unat (mh_message_number h)"
  from assms(4) obtain pub ck n where pub: "ra_recv_ratchet_pubkey y = Some pub"
      "chain_msgs P pub (ra_recv_chain_key y) (unat (ra_recv_count y)) ((h, c, p) # old) ck n"
    by (auto simp: recv_chain_def split: option.splits)
  let ?y = "y\<lparr>ra_recv_chain_key := adv P (Suc (?n - unat (ra_recv_count y))) (ra_recv_chain_key y),
      ra_recv_count := mh_message_number h + 1\<rparr>"
  have d: "ratchet_decrypt P k y h c = (?y, Inr p)"
    by (rule ratchet_decrypt_same_chain [OF assms(1)]) (use pub in \<open>simp_all add: word_le_nat_alt\<close>)
  have "Suc ?n < 2 ^ 32" using pub chain_msgs_end [of P _ _ "Suc ?n" old] by fastforce
  then have u: "unat (mh_message_number h + 1) = Suc ?n" by (simp add: unat_add_exact)
  have "recv_chain P ?y old"
    using pub unfolding recv_chain_def
    by (auto simp: u Suc_diff_le simp del: funpow.simps intro!: exI [of _ ck] exI [of _ n])
  then have "to_behind P x ?y (old @ new)"
    using assms(5) by (intro to_behindI [of _ old new]) (simp_all add: first_chain_def)
  then show "snd (ratchet_decrypt P k y h c) = Inr p" and "in_step P x (fst (ratchet_decrypt P k y h c)) (old @ new) to_x"
    using assms(2,3) by (simp_all add: d in_step_def linked_def to_ahead_def)
qed

lemma in_step_deliver_new:
  assumes "prims_ok P" and "linked P x y" and "to_ahead P x y to_x"
    and ch: "chain_msgs P (kp_public (ra_send_ratchet_key x)) (first_chain P x y) 0 ((h, c, p) # to_y) (ra_send_chain_key x)
           (unat (ra_send_count x))"
    and "pair_ok P k" and "kp_public k \<noteq> kp_public (ra_send_ratchet_key y)"
  shows "snd (ratchet_decrypt P k y h c) = Inr p"
    and "in_step P (fst (ratchet_decrypt P k y h c)) x to_x to_y"
proof -
  let ?n = "unat (mh_message_number h)"
  note l = assms(2) [unfolded linked_def]
  let ?y = "\<lparr>ra_root_key = root_of P (ra_root_key x) (dh P k (ra_send_ratchet_key x)),
        ra_send_chain_key = chain_of P (ra_root_key x) (dh P k (ra_send_ratchet_key x)),
        ra_recv_chain_key = adv P (Suc ?n) (first_chain P x y), ra_send_ratchet_key = k,
        ra_recv_ratchet_pubkey = Some (kp_public (ra_send_ratchet_key x)), ra_send_count = 0,
        ra_recv_count = mh_message_number h + 1, ra_previous_send_count = ra_send_count y\<rparr>"
  have d: "ratchet_decrypt P k y h c = (?y, Inr p)"
    using ratchet_decrypt_new_chain [OF assms(1), of y h "first_chain P x y" "ra_root_key x" c p k] ch l
    by (simp add: first_chain_def)
  have sym: "dh P (ra_send_ratchet_key x) k = dh P k (ra_send_ratchet_key x)"
    using l by (intro dh_sym [OF assms(1) _ assms(5)]) simp
  have "Suc ?n < 2 ^ 32" using ch chain_msgs_end [of P _ _ "Suc ?n" to_y] by fastforce
  then have u: "unat (mh_message_number h + 1) = Suc ?n" by (simp add: unat_add_exact)
  have "recv_chain P x to_x" using l assms(3) by (auto simp: recv_chain_def to_ahead_def)
  then have "to_behind P ?y x to_x"
    by (intro to_behindI [of _ to_x "[]"]) (simp_all add: first_chain_def sym)
  moreover have "linked P ?y x" using l assms(5,6) by (auto simp: linked_def sym)
  moreover have "to_ahead P ?y x to_y" using ch by (simp add: to_ahead_def u)
  ultimately show "snd (ratchet_decrypt P k y h c) = Inr p" and "in_step P (fst (ratchet_decrypt P k y h c)) x to_x to_y"
    by (simp_all add: d in_step_def)
qed

lemma in_step_deliver_behind:
  assumes "prims_ok P" and "in_step P x y ((h, c, p) # to_y) to_x" and "pair_ok P k"
    and "kp_public k \<noteq> kp_public (ra_send_ratchet_key y)"
  shows "snd (ratchet_decrypt P k y h c) = Inr p \<and> in_sync P x (fst (ratchet_decrypt P k y h c)) to_y to_x"
proof -
  from assms(2) obtain old new where q: "(h, c, p) # to_y = old @ new" "recv_chain P y old"
      "chain_msgs P (kp_public (ra_send_ratchet_key x)) (first_chain P x y) 0 new (ra_send_chain_key x)
        (unat (ra_send_count x))"
    by (auto simp: in_step_def elim: to_behindE)
  note l = assms(2) [unfolded in_step_def]
  show ?thesis
  proof (cases old)
    case (Cons m old')
    then show ?thesis
      using in_step_deliver_old [OF assms(1), of x y to_x h c p old' new k] q l by (auto simp: in_sync_def)
  next
    case Nil
    then show ?thesis
      using in_step_deliver_new [OF assms(1), of x y to_x h c p to_y k] q l assms(3,4) by (auto simp: in_sync_def)
  qed
qed

lemma in_sync_deliver:
  assumes "prims_ok P" and "in_sync P a b to_b ((h, c, p) # to_a)" and "pair_ok P k"
    and "kp_public k \<noteq> kp_public (ra_send_ratchet_key a)"
  shows "snd (ratchet_decrypt P k a h c) = Inr p"
    and "in_sync P (fst (ratchet_decrypt P k a h c)) b to_b to_a"
proof -
  from assms(2) consider "in_step P a b to_b ((h, c, p) # to_a)" | "in_step P b a ((h, c, p) # to_a) to_b"
    by (auto simp: in_sync_def)
  then show "snd (ratchet_decrypt P k a h c) = Inr p"
    by cases (simp_all add: in_step_deliver_ahead [OF assms(1)] in_step_deliver_behind [OF assms(1) _ assms(3,4)])
  show "in_sync P (fst (ratchet_decrypt P k a h c)) b to_b to_a"
    using assms(2) in_step_deliver_ahead(2) [OF assms(1), of a b to_b h c p to_a k]
      in_step_deliver_behind [OF assms(1) _ assms(3,4), of b h c p to_a to_b]
    by (auto simp: in_sync_def)
qed

text \<open>
  Two parties and the messages on their way, oldest first. Either end may encrypt (with any nonce, while its message
  counter is below \<^verbatim>\<open>u32::MAX\<close>), any message may be lost, and the oldest message may be delivered, the receiver
  using a fresh key pair should the step need one.
\<close>

record conversation =
  cv_alice :: RatchetState
  cv_bob :: RatchetState
  cv_to_alice :: flight
  cv_to_bob :: flight

definition swap_ends :: "conversation \<Rightarrow> conversation" where
  "swap_ends v = \<lparr>cv_alice = cv_bob v, cv_bob = cv_alice v, cv_to_alice = cv_to_bob v, cv_to_bob = cv_to_alice v\<rparr>"

inductive alice_step :: "prims \<Rightarrow> conversation \<Rightarrow> conversation \<Rightarrow> bool" for P where
  alice_send: "ratchet_encrypt P nonce (cv_alice v) p = (a, Inr (h, c)) \<Longrightarrow> length nonce = 24 \<Longrightarrow> can_send (cv_alice v)
    \<Longrightarrow> alice_step P v (v\<lparr>cv_alice := a, cv_to_bob := cv_to_bob v @ [(h, c, p)]\<rparr>)"
| alice_receive: "cv_to_alice v = (h, c, p) # ms \<Longrightarrow> pair_ok P k
    \<Longrightarrow> kp_public k \<noteq> kp_public (ra_send_ratchet_key (cv_alice v))
    \<Longrightarrow> alice_step P v (v\<lparr>cv_alice := fst (ratchet_decrypt P k (cv_alice v) h c), cv_to_alice := ms\<rparr>)"
| alice_lose: "cv_to_alice v = ms @ m # ms' \<Longrightarrow> alice_step P v (v\<lparr>cv_to_alice := ms @ ms'\<rparr>)"

inductive conversation_steps :: "prims \<Rightarrow> conversation \<Rightarrow> conversation \<Rightarrow> bool" for P where
  steps_refl: "conversation_steps P v v"
| steps_alice: "conversation_steps P v w \<Longrightarrow> alice_step P w w' \<Longrightarrow> conversation_steps P v w'"
| steps_bob: "conversation_steps P v w \<Longrightarrow> alice_step P (swap_ends w) w' \<Longrightarrow> conversation_steps P v (swap_ends w')"

definition conv_sync :: "prims \<Rightarrow> conversation \<Rightarrow> bool" where
  "conv_sync P v \<longleftrightarrow> in_sync P (cv_alice v) (cv_bob v) (cv_to_bob v) (cv_to_alice v)"

lemma conv_sync_swap [simp]: "conv_sync P (swap_ends v) = conv_sync P v"
  by (auto simp: conv_sync_def swap_ends_def in_sync_def)

lemma alice_step_sync:
  assumes "prims_ok P" and "alice_step P v v'" and "conv_sync P v"
  shows "conv_sync P v'"
  using assms(2)
proof cases
  case (alice_send nonce p a h c)
  then show ?thesis
    using assms(3) in_sync_send [OF assms(1) alice_send(3)] by (auto simp: conv_sync_def in_sync_def)
next
  case (alice_receive h c p ms k)
  then show ?thesis
    using assms(3) in_sync_deliver(2) [OF assms(1), of "cv_alice v" "cv_bob v" "cv_to_bob v" h c p ms k]
    by (simp add: conv_sync_def)
next
  case (alice_lose ms m ms')
  then show ?thesis using assms(3) by (auto simp: conv_sync_def in_sync_def intro: in_sync_lose)
qed

lemma conversation_steps_sync:
  assumes "prims_ok P"
  shows "conversation_steps P v w \<Longrightarrow> conv_sync P v \<Longrightarrow> conv_sync P w"
proof (induction rule: conversation_steps.induct)
  case (steps_alice v w w')
  then show ?case using alice_step_sync [OF assms] by blast
next
  case (steps_bob v w w')
  then have "conv_sync P (swap_ends w)" by simp
  with steps_bob(2) show ?case using alice_step_sync [OF assms] by simp
qed

definition start_conversation :: "RatchetState \<Rightarrow> RatchetState \<Rightarrow> conversation" where
  "start_conversation a b = \<lparr>cv_alice = a, cv_bob = b, cv_to_alice = [], cv_to_bob = []\<rparr>"

lemma init_sync:
  assumes "prims_ok P" and "pair_ok P k" and "pair_ok P bob_key"
    and "init_sender P k secret (kp_public bob_key) = Inr a"
  shows "conv_sync P (start_conversation a (init_receiver secret bob_key))"
proof -
  have d: "dh P k bob_key = dh P bob_key k" by (rule dh_sym [OF assms(1-3)])
  have a: "ra_root_key a = root_of P secret (dh P bob_key k)" "ra_send_chain_key a = chain_of P secret (dh P bob_key k)"
      "ra_recv_chain_key a = replicate 32 0" "ra_send_ratchet_key a = k" "ra_recv_ratchet_pubkey a = Some (kp_public bob_key)"
      "ra_send_count a = 0" "ra_recv_count a = 0"
    using assms(4) by (auto simp: init_sender_def kdf_ok [OF assms(1)] d Let_def)
  have "to_behind P a (init_receiver secret bob_key) []"
    by (rule to_behindI [of _ "[]" "[]"]) (simp_all add: a init_receiver_def recv_chain_def first_chain_def)
  then have "in_step P a (init_receiver secret bob_key) [] []"
    using assms(2,3) by (simp add: in_step_def linked_def to_ahead_def a init_receiver_def)
  then show ?thesis by (simp add: conv_sync_def in_sync_def start_conversation_def)
qed

text \<open>C2: two ends that start from one shared secret and the receiver's ratchet key stay in step: however sends,
  losses and in-order deliveries in both directions interleave, the next message for either end decrypts to the
  plaintext it was made from, whichever fresh key pair a ratchet step draws.\<close>

theorem ratchet_conversation:
  assumes "prims_ok P" and "pair_ok P alice_key" and "pair_ok P bob_key"
    and "init_sender P alice_key secret (kp_public bob_key) = Inr a"
    and "conversation_steps P (start_conversation a (init_receiver secret bob_key)) v"
    and "pair_ok P k"
  shows "(\<forall>h c p ms. cv_to_alice v = (h, c, p) # ms \<and> kp_public k \<noteq> kp_public (ra_send_ratchet_key (cv_alice v))
           \<longrightarrow> snd (ratchet_decrypt P k (cv_alice v) h c) = Inr p)
       \<and> (\<forall>h c p ms. cv_to_bob v = (h, c, p) # ms \<and> kp_public k \<noteq> kp_public (ra_send_ratchet_key (cv_bob v))
           \<longrightarrow> snd (ratchet_decrypt P k (cv_bob v) h c) = Inr p)"
proof -
  have "conv_sync P v"
    by (rule conversation_steps_sync [OF assms(1,5) init_sync [OF assms(1-4)]])
  then have "in_sync P (cv_alice v) (cv_bob v) (cv_to_bob v) (cv_to_alice v)"
    and "in_sync P (cv_bob v) (cv_alice v) (cv_to_alice v) (cv_to_bob v)"
    by (auto simp: conv_sync_def in_sync_def)
  then show ?thesis using in_sync_deliver(1) [OF assms(1) _ assms(6)] by metis
qed

text \<open>An initiator can send at once.\<close>

lemma first_send:
  assumes "prims_ok P" and "length nonce = 24" and "init_sender P k secret pub = Inr a"
  obtains h c a' where "ratchet_encrypt P nonce a p = (a', Inr (h, c))" and "ra_send_ratchet_key a' = k"
    and "conversation_steps P (start_conversation a b) (start_conversation a b\<lparr>cv_alice := a', cv_to_bob := [(h, c, p)]\<rparr>)"
proof -
  obtain h c where e: "ratchet_encrypt P nonce a p = (sent a P, Inr (h, c))"
    using ratchet_encrypt_ok [OF assms(1,2)] unfolding sent_def by metis
  have a: "ra_send_count a = 0" "ra_send_ratchet_key a = k"
    using assms(3) by (auto simp: init_sender_def kdf_ok [OF assms(1)] Let_def)
  have "alice_step P (start_conversation a b)
      (start_conversation a b\<lparr>cv_alice := sent a P, cv_to_bob := cv_to_bob (start_conversation a b) @ [(h, c, p)]\<rparr>)"
    by (rule alice_send [OF _ assms(2)]) (simp_all add: start_conversation_def e a can_send_def)
  from steps_alice [OF steps_refl this] show ?thesis
    using a(2) by (intro that [OF e]) (simp_all add: start_conversation_def)
qed

theorem ratchet_conversation_witness:
  "\<exists>a v h c. init_sender toy_prims (KeyPair_generate toy_prims [1]) (replicate 32 9) (kp_public (KeyPair_generate toy_prims [2]))
        = Inr a
     \<and> conversation_steps toy_prims
         (start_conversation a (init_receiver (replicate 32 9) (KeyPair_generate toy_prims [2]))) v
     \<and> cv_to_bob v = [(h, c, [104, 105])]
     \<and> snd (ratchet_decrypt toy_prims (KeyPair_generate toy_prims [3]) (cv_bob v) h c) = Inr [104, 105]"
proof -
  let ?k = "\<lambda>n. KeyPair_generate toy_prims [n]" and ?s = "replicate 32 9"
  let ?b = "init_receiver ?s (?k 2)"
  obtain a where a: "init_sender toy_prims (?k 1) ?s (kp_public (?k 2)) = Inr a"
    by (simp add: init_sender_def kdf_ok [OF toy_prims_ok] Let_def)
  obtain h c a' where s: "conversation_steps toy_prims (start_conversation a ?b)
      (start_conversation a ?b\<lparr>cv_alice := a', cv_to_bob := [(h, c, [104, 105])]\<rparr>)"
    using first_send [OF toy_prims_ok _ a, of "replicate 24 0" "[104, 105]" ?b] by (metis length_replicate)
  have n: "kp_public (?k 3) \<noteq> kp_public (?k 2)"
    by (simp add: KeyPair_generate_def toy_prims_def toy_pad_def)
  note ratchet_conversation [OF toy_prims_ok pair_ok_generate pair_ok_generate a s pair_ok_generate [of _ "[3]"]]
  then have "snd (ratchet_decrypt toy_prims (?k 3) ?b h c) = Inr [104, 105]"
    using n by (simp add: start_conversation_def init_receiver_def)
  then show ?thesis
    using a s by (intro exI [of _ a] exI [of _ "start_conversation a ?b\<lparr>cv_alice := a', cv_to_bob := [(h, c, [104, 105])]\<rparr>"]
        exI [of _ h] exI [of _ c]) (simp add: start_conversation_def)
qed

section \<open>Key agreement\<close>

lemma x3dh_agreement_cases:
  assumes "prims_ok P" and "pair_ok P our_id" and "pair_ok P ephemeral" and "pair_ok P their_id" and "pair_ok P spk"
    and "\<And>k. one_time = Some k \<Longrightarrow> pair_ok P k"
    and "pb_identity_x25519 bundle = kp_public their_id" and "pb_signed_prekey bundle = kp_public spk"
    and "pb_one_time_prekey bundle = map_option kp_public one_time"
  obtains r where "x3dh_initiate P ephemeral (kp_secret our_id) (kp_public our_id) ident bundle = Inr r"
    and "length (xr_shared_secret r) = 32"
    and "x3dh_respond P (kp_secret their_id) (kp_secret spk) (map_option kp_secret one_time) (xr_initial_message r)
           = Inr (xr_shared_secret r)"
proof -
  have d: "dh P spk our_id = dh P our_id spk" "dh P their_id ephemeral = dh P ephemeral their_id"
      "dh P spk ephemeral = dh P ephemeral spk"
    by (rule dh_sym [OF assms(1)]; fact)+
  have o: "dh P k ephemeral = dh P ephemeral k" if "one_time = Some k" for k
    by (rule dh_sym [OF assms(1) assms(6) [OF that] assms(3)])
  have len: "length (the (p_hkdf P ikm salt info)) = 32" for ikm salt info
    using prims_okD(1) [OF assms(1), of ikm salt info] by auto
  show ?thesis
    by (cases one_time;
        (rule that, simp add: x3dh_initiate_def Let_def assms(7-9) hkdf_ok [OF assms(1)],
         simp_all add: x3dh_respond_def Let_def hkdf_ok [OF assms(1)] d o len))
qed

text \<open>C26: X3DH agrees: the secret the responder computes from the initial message is the secret the initiator has, for
  any keys, with or without a one-time prekey; a responder that lacks the secret of the one-time prekey that was used
  gets an error, not a different secret.\<close>

theorem x3dh_agreement:
  assumes "prims_ok P" and "pair_ok P our_id" and "pair_ok P ephemeral" and "pair_ok P their_id" and "pair_ok P spk"
    and "\<forall>k. one_time = Some k \<longrightarrow> pair_ok P k"
    and "pb_identity_x25519 bundle = kp_public their_id" and "pb_signed_prekey bundle = kp_public spk"
    and "pb_one_time_prekey bundle = map_option kp_public one_time"
  shows "\<exists>r. x3dh_initiate P ephemeral (kp_secret our_id) (kp_public our_id) ident bundle = Inr r
     \<and> x3dh_respond P (kp_secret their_id) (kp_secret spk) (map_option kp_secret one_time) (xr_initial_message r)
           = Inr (xr_shared_secret r)
     \<and> (one_time \<noteq> None \<longrightarrow> x3dh_respond P (kp_secret their_id) (kp_secret spk) None (xr_initial_message r)
           = Inl (X3dhFailed ''initiator used one-time prekey but no matching secret''))"
proof -
  obtain r where r: "x3dh_initiate P ephemeral (kp_secret our_id) (kp_public our_id) ident bundle = Inr r"
      "x3dh_respond P (kp_secret their_id) (kp_secret spk) (map_option kp_secret one_time) (xr_initial_message r)
           = Inr (xr_shared_secret r)"
    by (rule x3dh_agreement_cases [of P our_id ephemeral their_id spk one_time "bundle" ident]) (use assms in auto)
  then have "xi_one_time_prekey_used (xr_initial_message r) = map_option kp_public one_time"
    using assms(9) by (auto simp: x3dh_initiate_def Let_def hkdf_ok [OF assms(1)])
  then show ?thesis using r by (intro exI [of _ r]) (auto simp: x3dh_respond_def Let_def)
qed

theorem x3dh_agreement_witness:
  "\<exists>r. x3dh_initiate toy_prims (KeyPair_generate toy_prims [2]) (kp_secret (KeyPair_generate toy_prims [1]))
          (kp_public (KeyPair_generate toy_prims [1])) (IdentityKey [])
          (generate_prekey_bundle toy_prims (KeyPair_generate toy_prims [4]) (KeyPair_generate toy_prims [5]) (SigningKeyPair [6])
             (kp_public (KeyPair_generate toy_prims [3])) True) = Inr r
     \<and> x3dh_respond toy_prims (kp_secret (KeyPair_generate toy_prims [3])) (kp_secret (KeyPair_generate toy_prims [4]))
          (Some (kp_secret (KeyPair_generate toy_prims [5]))) (xr_initial_message r) = Inr (xr_shared_secret r)"
  using x3dh_agreement [OF toy_prims_ok pair_ok_generate pair_ok_generate pair_ok_generate pair_ok_generate,
      of "Some (KeyPair_generate toy_prims [5])"
         "generate_prekey_bundle toy_prims (KeyPair_generate toy_prims [4]) (KeyPair_generate toy_prims [5]) (SigningKeyPair [6])
             (kp_public (KeyPair_generate toy_prims [3])) True" "[3]" "[4]" "[2]" "[1]" "IdentityKey []"]
  by (auto simp: generate_prekey_bundle_def Let_def pair_ok_generate)

section \<open>Persisted sessions\<close>

text \<open>What the array types of the code ensure of a state: keys have 32 bytes, the key pair is one.\<close>

definition state_ok :: "prims \<Rightarrow> RatchetState \<Rightarrow> bool" where
  "state_ok P s \<longleftrightarrow> length (ra_root_key s) = 32 \<and> length (ra_send_chain_key s) = 32 \<and> length (ra_recv_chain_key s) = 32
     \<and> length (x25519_secret_bytes (kp_secret (ra_send_ratchet_key s))) = 32 \<and> pair_ok P (ra_send_ratchet_key s)
     \<and> (\<forall>k. ra_recv_ratchet_pubkey s = Some k \<longrightarrow> length (x25519_public_bytes k) = 32)"

lemma KeyPair_persisted: "pair_ok P k \<Longrightarrow> KeyPair_from_secret_bytes P (x25519_secret_bytes (kp_secret k)) = k"
  by (cases k; cases "kp_secret k"; cases "kp_public k") (simp add: KeyPair_from_secret_bytes_def pair_ok_def)

lemma load_save:
  assumes "state_ok P s"
  shows "load_session P (save_session db cid peer s now) cid = Inr (Some s)"
proof -
  have "RatchetState_from_persisted P (ra_root_key s) (ra_send_chain_key s) (ra_recv_chain_key s)
      (x25519_secret_bytes (kp_secret (ra_send_ratchet_key s))) (ra_recv_ratchet_pubkey s) (ra_send_count s)
      (ra_recv_count s) (ra_previous_send_count s) = s"
    using assms by (simp add: RatchetState_from_persisted_def KeyPair_persisted state_ok_def)
  then show ?thesis
    using assms
    by (cases "ra_recv_ratchet_pubkey s") (auto simp: load_session_def save_session_def to_array32_def state_ok_def)
qed

lemma load_save_other: "cid' \<noteq> cid \<Longrightarrow> load_session P (save_session db cid peer s now) cid' = load_session P db cid'"
  by (simp add: load_session_def save_session_def)

lemma key_lengths:
  assumes "prims_ok P"
  shows "length (root_of P r d) = 32" "length (chain_of P r d) = 32" "length (next_chain P ck) = 32"
  using prims_okD(1) [OF assms, of "r @ d" None RATCHET_INFO] prims_okD(1) [OF assms, of "r @ d" None CHAIN_INFO]
    prims_okD(1) [OF assms, of ck None CHAIN_INFO]
  by (auto simp: root_of_def chain_of_def next_chain_def)

lemma state_ok_encrypt:
  assumes "prims_ok P" and "state_ok P s"
  shows "state_ok P (fst (ratchet_encrypt P nonce s p))"
  using assms(2) by (auto simp: ratchet_encrypt_def kdf_ok [OF assms(1)] state_ok_def key_lengths [OF assms(1)] Let_def
      split: sum.split)

lemma state_ok_skip:
  assumes "prims_ok P" and "state_ok P s"
  shows "state_ok P (fst (skip_messages P s m))"
proof (cases "ra_recv_count s \<le> m")
  case True
  have "length (adv P k (ra_recv_chain_key s)) = 32" for k
    using assms(2) by (cases k) (simp_all add: state_ok_def key_lengths [OF assms(1)])
  then show ?thesis using assms(2) by (simp add: skip_messages_ok [OF assms(1) True] state_ok_def)
next
  case False
  then show ?thesis using assms(2) by (subst skip_messages.simps) auto
qed

lemma skip_messages_Inr: "prims_ok P \<Longrightarrow> snd (skip_messages P s m) = Inr ()"
  by (cases "ra_recv_count s \<le> m") (simp add: skip_messages_ok, subst skip_messages.simps, auto)

lemma state_ok_step:
  assumes "prims_ok P" and "state_ok P s" and "pair_ok P k" and "length (x25519_secret_bytes (kp_secret k)) = 32"
    and "length (x25519_public_bytes pub) = 32"
  shows "state_ok P (fst (dh_ratchet_step P k s pub))" and "snd (dh_ratchet_step P k s pub) = Inr ()"
  using assms(2-) by (simp_all add: dh_ratchet_step_def kdf_ok [OF assms(1)] state_ok_def key_lengths [OF assms(1)] Let_def)

lemma state_ok_decrypt:
  assumes "prims_ok P" and "state_ok P s" and "pair_ok P k" and "length (x25519_secret_bytes (kp_secret k)) = 32"
    and "length (x25519_public_bytes (mh_ratchet_key h)) = 32"
  shows "state_ok P (fst (ratchet_decrypt P k s h c))"
proof -
  define need where "need \<longleftrightarrow> (case ra_recv_ratchet_pubkey s of Some existing \<Rightarrow> existing \<noteq> mh_ratchet_key h | None \<Rightarrow> True)"
  define s1 where "s1 = (if need then fst (dh_ratchet_step P k s (mh_ratchet_key h)) else s)"
  define s2 where "s2 = fst (skip_messages P s1 (mh_message_number h))"
  have 1: "(if need then dh_ratchet_step P k s (mh_ratchet_key h) else (s, Inr ())) = (s1, Inr ())"
    using state_ok_step(2) [OF assms] by (auto simp: s1_def intro: prod_eqI)
  have 2: "skip_messages P s1 (mh_message_number h) = (s2, Inr ())"
    using skip_messages_Inr [OF assms(1)] by (auto simp: s2_def intro: prod_eqI)
  have "state_ok P s1" using assms(2) state_ok_step(1) [OF assms] by (simp add: s1_def)
  then have "state_ok P s2" unfolding s2_def by (rule state_ok_skip [OF assms(1)])
  then show ?thesis
    unfolding ratchet_decrypt_def need_def [symmetric] Let_def 1
    by (auto simp: 2 kdf_ok [OF assms(1)] state_ok_def key_lengths [OF assms(1)] split: sum.split)
qed

text \<open>A session operation against the state it is about: the result is the ratchet's, an error leaves the table as it
  was, a success stores exactly the ratchet's new state, and other conversations are not touched.\<close>

definition session_op_ok ::
    "prims \<Rightarrow> session_db \<Rightarrow> string \<Rightarrow> RatchetState \<times> (MessageError + 'a) \<Rightarrow> session_db \<times> (MessageError + 'b) \<Rightarrow> ('a \<Rightarrow> 'b) \<Rightarrow> bool" where
  "session_op_ok P db cid ratchet op f \<longleftrightarrow>
     snd op = map_sum (\<lambda>e. e) f (snd ratchet)
     \<and> (case snd op of Inl _ \<Rightarrow> fst op = db | Inr _ \<Rightarrow> load_session P (fst op) cid = Inr (Some (fst ratchet)))
     \<and> (\<forall>cid'. cid' \<noteq> cid \<longrightarrow> fst op cid' = db cid')"

lemma session_op_okI:
  assumes "state_ok P (fst ratchet)"
  shows "session_op_ok P db cid ratchet
    (case ratchet of (s, Inl e) \<Rightarrow> (db, Inl e) | (s, Inr x) \<Rightarrow> (save_session db cid peer s now, Inr (f x))) f"
  using assms
  by (cases ratchet; cases "snd ratchet") (auto simp: session_op_ok_def load_save, auto simp: save_session_def)

text \<open>C13: an established session behaves as the ratchet it stores. Encrypting and decrypting give the ratchet's result;
  a failure (say a forged or replayed message) changes nothing in the table, although the ratchet itself had already
  moved on; a success stores the ratchet's new state so that loading returns it; other conversations stay untouched.\<close>

theorem session_refines_ratchet:
  assumes "prims_ok P" and "load_session P db cid = Inr (Some s)" and "state_ok P s"
    and "pair_ok P k" and "length (x25519_secret_bytes (kp_secret k)) = 32"
    and "length (x25519_public_bytes (mh_ratchet_key h)) = 32"
  shows "session_op_ok P db cid (ratchet_encrypt P nonce s p)
           (encrypt_for_peer P ephemeral new_ratchet nonce now db cid peer our_x25519 our_identity their_bundle p)
           (\<lambda>(header, ciphertext). \<lparr>em_header = header, em_ciphertext = ciphertext, em_x3dh_header = None\<rparr>)
       \<and> session_op_ok P db cid (ratchet_decrypt P k s h c)
           (decrypt_from_peer P k now db cid peer our_ratchet_key shared_secret h c) (\<lambda>x. x)"
proof
  have "encrypt_for_peer P ephemeral new_ratchet nonce now db cid peer our_x25519 our_identity their_bundle p =
      (case ratchet_encrypt P nonce s p of (s, Inl e) \<Rightarrow> (db, Inl e)
       | (s, Inr x) \<Rightarrow> (save_session db cid peer s now,
           Inr ((\<lambda>(header, ciphertext). \<lparr>em_header = header, em_ciphertext = ciphertext, em_x3dh_header = None\<rparr>) x)))"
    by (auto simp: encrypt_for_peer_def assms(2) split: sum.split prod.split)
  then show "session_op_ok P db cid (ratchet_encrypt P nonce s p)
           (encrypt_for_peer P ephemeral new_ratchet nonce now db cid peer our_x25519 our_identity their_bundle p)
           (\<lambda>(header, ciphertext). \<lparr>em_header = header, em_ciphertext = ciphertext, em_x3dh_header = None\<rparr>)"
    using session_op_okI [OF state_ok_encrypt [OF assms(1,3)], of db cid nonce p peer now] by simp
  have "decrypt_from_peer P k now db cid peer our_ratchet_key shared_secret h c =
      (case ratchet_decrypt P k s h c of (s, Inl e) \<Rightarrow> (db, Inl e) | (s, Inr x) \<Rightarrow> (save_session db cid peer s now, Inr x))"
    by (auto simp: decrypt_from_peer_def assms(2) split: sum.split prod.split)
  then show "session_op_ok P db cid (ratchet_decrypt P k s h c)
           (decrypt_from_peer P k now db cid peer our_ratchet_key shared_secret h c) (\<lambda>x. x)"
    using session_op_okI [OF state_ok_decrypt [OF assms(1,3-6)], of db cid c peer now "\<lambda>x. x"] by simp
qed

lemma toy_secret_ok:
  "pair_ok toy_prims (KeyPair_generate toy_prims (replicate 32 b))"
  "length (x25519_secret_bytes (kp_secret (KeyPair_generate toy_prims (replicate 32 b)))) = 32"
  "length (x25519_public_bytes (kp_public (KeyPair_generate toy_prims (replicate 32 b)))) = 32"
  by (rule pair_ok_generate) (simp_all add: KeyPair_generate_def toy_prims_def toy_pad_def)

theorem session_refines_ratchet_witness:
  "session_op_ok toy_prims
     (save_session Map.empty ''c'' [] (init_receiver (replicate 32 9) (KeyPair_generate toy_prims (replicate 32 2))) 0) ''c''
     (ratchet_decrypt toy_prims (KeyPair_generate toy_prims (replicate 32 3))
        (init_receiver (replicate 32 9) (KeyPair_generate toy_prims (replicate 32 2)))
        \<lparr>mh_ratchet_key = kp_public (KeyPair_generate toy_prims (replicate 32 4)), mh_message_number = 0,
         mh_previous_chain_length = 0\<rparr> [1, 2])
     (decrypt_from_peer toy_prims (KeyPair_generate toy_prims (replicate 32 3)) 1
        (save_session Map.empty ''c'' [] (init_receiver (replicate 32 9) (KeyPair_generate toy_prims (replicate 32 2))) 0)
        ''c'' [] None None
        \<lparr>mh_ratchet_key = kp_public (KeyPair_generate toy_prims (replicate 32 4)), mh_message_number = 0,
         mh_previous_chain_length = 0\<rparr> [1, 2]) (\<lambda>x. x)"
proof -
  let ?s = "init_receiver (replicate 32 9) (KeyPair_generate toy_prims (replicate 32 2))"
  have s: "state_ok toy_prims ?s"
    using toy_secret_ok [of 2] by (simp add: state_ok_def init_receiver_def)
  show ?thesis
    by (rule session_refines_ratchet [OF toy_prims_ok load_save [OF s] s toy_secret_ok(1,2) [of 3], THEN conjunct2])
      (simp add: toy_secret_ok)
qed

text \<open>C12: the first message of a conversation, end to end: with the responder's bundle and no session on either side,
  the initiator's \<^verbatim>\<open>encrypt_for_peer\<close> succeeds and carries the X3DH header; the secret the responder computes from that
  header lets its \<^verbatim>\<open>decrypt_from_peer\<close> recover the plaintext; both sides then hold a session.\<close>

theorem first_message_end_to_end:
  assumes "prims_ok P" and "length nonce = 24"
    and "pair_ok P our_id" and "pair_ok P ephemeral" and "pair_ok P their_id" and "pair_ok P spk" and "pair_ok P ratchet_key"
    and "pair_ok P k" and "kp_public k \<noteq> kp_public spk" and "\<forall>ot. one_time = Some ot \<longrightarrow> pair_ok P ot"
    and "pb_identity_x25519 b = kp_public their_id" and "pb_signed_prekey b = kp_public spk"
    and "pb_one_time_prekey b = map_option kp_public one_time"
    and "adb cid = None" and "bdb cid = None"
  shows "\<exists>adb' m x secret bdb'.
     encrypt_for_peer P ephemeral ratchet_key nonce now adb cid bob our_id ident (Some b) p = (adb', Inr m)
     \<and> em_x3dh_header m = Some x
     \<and> x3dh_respond P (kp_secret their_id) (kp_secret spk) (map_option kp_secret one_time) x = Inr secret
     \<and> decrypt_from_peer P k now bdb cid alice (Some spk) (Some secret) (em_header m) (em_ciphertext m) = (bdb', Inr p)
     \<and> has_session adb' cid \<and> has_session bdb' cid"
proof -
  obtain r where r: "x3dh_initiate P ephemeral (kp_secret our_id) (kp_public our_id) ident b = Inr r"
      "x3dh_respond P (kp_secret their_id) (kp_secret spk) (map_option kp_secret one_time) (xr_initial_message r)
           = Inr (xr_shared_secret r)"
    by (rule x3dh_agreement_cases [of P our_id ephemeral their_id spk one_time b ident]) (use assms in auto)
  let ?b = "init_receiver (xr_shared_secret r) spk"
  obtain a where a: "init_sender P ratchet_key (xr_shared_secret r) (kp_public spk) = Inr a"
    by (simp add: init_sender_def kdf_ok [OF assms(1)] Let_def)
  obtain h c a' where e: "ratchet_encrypt P nonce a p = (a', Inr (h, c))"
    and st: "conversation_steps P (start_conversation a ?b) (start_conversation a ?b\<lparr>cv_alice := a', cv_to_bob := [(h, c, p)]\<rparr>)"
    by (rule first_send [OF assms(1,2) a])
  have "conv_sync P (start_conversation a ?b\<lparr>cv_alice := a', cv_to_bob := [(h, c, p)]\<rparr>)"
    by (rule conversation_steps_sync [OF assms(1) st init_sync [OF assms(1,7,6) a]])
  then have "in_sync P ?b a' [] [(h, c, p)]"
    by (auto simp: conv_sync_def in_sync_def start_conversation_def)
  then have "snd (ratchet_decrypt P k ?b h c) = Inr p"
    using assms(9) by (intro in_sync_deliver(1) [OF assms(1) _ assms(8)]) (simp_all add: init_receiver_def)
  then obtain s' where d: "ratchet_decrypt P k ?b h c = (s', Inr p)" by (metis prod.collapse)
  have enc: "encrypt_for_peer P ephemeral ratchet_key nonce now adb cid bob our_id ident (Some b) p =
      (save_session adb cid bob a' now,
       Inr \<lparr>em_header = h, em_ciphertext = c, em_x3dh_header = Some (xr_initial_message r)\<rparr>)"
    using assms(12,14) r(1) a e by (simp add: encrypt_for_peer_def load_session_def)
  have dec: "decrypt_from_peer P k now bdb cid alice (Some spk) (Some (xr_shared_secret r)) h c =
      (save_session bdb cid alice s' now, Inr p)"
    using assms(15) d by (simp add: decrypt_from_peer_def load_session_def)
  show ?thesis
    by (intro exI conjI, rule enc, simp, rule r(2)) (simp_all add: dec, simp_all add: has_session_def save_session_def)
qed

theorem first_message_end_to_end_witness:
  "\<exists>adb' m x secret bdb'.
     encrypt_for_peer toy_prims (KeyPair_generate toy_prims [2]) (KeyPair_generate toy_prims [7]) (replicate 24 0) 10
       Map.empty ''c'' [8] (KeyPair_generate toy_prims [1]) (IdentityKey [])
       (Some (generate_prekey_bundle toy_prims (KeyPair_generate toy_prims [4]) (KeyPair_generate toy_prims [5]) (SigningKeyPair [6])
          (kp_public (KeyPair_generate toy_prims [3])) False)) [104, 105] = (adb', Inr m)
     \<and> em_x3dh_header m = Some x
     \<and> x3dh_respond toy_prims (kp_secret (KeyPair_generate toy_prims [3])) (kp_secret (KeyPair_generate toy_prims [4]))
          (map_option kp_secret (None :: X25519KeyPair option)) x = Inr secret
     \<and> decrypt_from_peer toy_prims (KeyPair_generate toy_prims [9]) 10 Map.empty ''c'' [11]
          (Some (KeyPair_generate toy_prims [4])) (Some secret) (em_header m) (em_ciphertext m) = (bdb', Inr [104, 105])
     \<and> has_session adb' ''c'' \<and> has_session bdb' ''c''"
  by (rule first_message_end_to_end [OF toy_prims_ok, where their_id = "KeyPair_generate toy_prims [3]"])
    (simp_all add: pair_ok_generate, simp_all add: generate_prekey_bundle_def Let_def KeyPair_generate_def toy_prims_def toy_pad_def)

text \<open>A party set up by \<^verbatim>\<open>init_receiver\<close> that encrypts before it has received anything uses the all-zero chain key: its
  first message opens with a key that depends on no secret. The session layer saves a receiver's state only after a
  decryption, which derives a proper chain, so it does not reach this case.\<close>

lemma receiver_first_send_public_key:
  assumes "prims_ok P" and "length nonce = 24"
  shows "\<exists>s' h c. ratchet_encrypt P nonce (init_receiver secret k) p = (s', Inr (h, c))
     \<and> open_sealed P (message_key P (replicate 32 0)) c = Inr p"
  using ratchet_encrypt_ok [OF assms, of "init_receiver secret k" p] by (fastforce simp: init_receiver_def)

end
