(* ===== verification/Epoch_Keys.thy ===== *)
theory Epoch_Keys
  imports Message_Crypto
begin

text \<open>
  Crate \<^verbatim>\<open>ephemera-crypto\<close>, files \<^verbatim>\<open>epoch.rs\<close> and \<^verbatim>\<open>epoch_crypto.rs\<close>: one symmetric key per day, derived from
  the master secret, destroyed after thirty days so that content encrypted under it cannot be read any more. Every
  reading of the system clock is an argument; the list \<^verbatim>\<open>destroyed_epochs\<close> and the cache are kept as in the code.
\<close>

definition EPOCH_SECS :: u64 where "EPOCH_SECS = 24 * 3600"
definition MAX_EPOCH_KEY_AGE_SECS :: u64 where "MAX_EPOCH_KEY_AGE_SECS = 30 * EPOCH_SECS"

definition epoch_id_for_timestamp :: "u64 \<Rightarrow> u64" where
  "epoch_id_for_timestamp unix_secs = unix_secs div EPOCH_SECS"

definition current_epoch_id :: "u64 \<Rightarrow> u64" where
  "current_epoch_id now = epoch_id_for_timestamp now"

record EpochKeyEntry =
  ek_key :: bytes
  ek_epoch_id :: u64
  ek_created_at :: u64
  ek_destroyed :: bool

record RotationResult =
  rr_new_epoch_id :: u64
  rr_marked_for_destruction :: "u64 list"

record DestructionResult =
  dr_destroyed_epoch_ids :: "u64 list"
  dr_count :: nat

record EpochKeyManager =
  em_master :: bytes
  em_keys :: "(u64, EpochKeyEntry) hash_map"
  em_destroyed_epochs :: "u64 list"

definition EpochKeyManager_new :: "bytes \<Rightarrow> EpochKeyManager" where
  "EpochKeyManager_new master = \<lparr>em_master = master, em_keys = [], em_destroyed_epochs = []\<rparr>"

definition destroyed_error :: "u64 \<Rightarrow> EphemeraError" where
  "destroyed_error epoch_id = EncryptionError (''epoch key '' @ show_nat (unat epoch_id) @ '' has been destroyed'')"

definition ensure_key :: "prims \<Rightarrow> u64 \<Rightarrow> EpochKeyManager \<Rightarrow> u64 \<Rightarrow> EpochKeyManager \<times> (EphemeraError + bytes)" where
  "ensure_key P now_secs m epoch_id =
     (case hm_get (em_keys m) epoch_id of
        Some entry \<Rightarrow> if ek_destroyed entry then (m, Inl (destroyed_error epoch_id)) else (m, Inr (ek_key entry))
      | None \<Rightarrow>
          if epoch_id \<in> set (em_destroyed_epochs m) then (m, Inl (destroyed_error epoch_id))
          else case derive_epoch_key P (em_master m) epoch_id of
                 Inl e \<Rightarrow> (m, Inl e)
               | Inr key \<Rightarrow>
                   (m\<lparr>em_keys := hm_insert epoch_id
                        \<lparr>ek_key = key, ek_epoch_id = epoch_id, ek_created_at = now_secs, ek_destroyed = False\<rparr> (em_keys m)\<rparr>,
                    Inr key))"

text \<open>The operations read the clock once for the current epoch and once more when they create an entry.\<close>

definition current_epoch_key :: "prims \<Rightarrow> u64 \<Rightarrow> u64 \<Rightarrow> EpochKeyManager \<Rightarrow> EpochKeyManager \<times> (EphemeraError + u64 \<times> bytes)" where
  "current_epoch_key P now now' m =
     (let epoch_id = current_epoch_id now
      in case ensure_key P now' m epoch_id of
           (m, Inl e) \<Rightarrow> (m, Inl e)
         | (m, Inr key) \<Rightarrow> (m, Inr (epoch_id, key)))"

definition epoch_key_for :: "prims \<Rightarrow> u64 \<Rightarrow> EpochKeyManager \<Rightarrow> u64 \<Rightarrow> EpochKeyManager \<times> (EphemeraError + bytes option)" where
  "epoch_key_for P now m epoch_id =
     (if epoch_id \<in> set (em_destroyed_epochs m) then (m, Inr None)
      else case ensure_key P now m epoch_id of
             (m, Inl e) \<Rightarrow> (m, Inl e)
           | (m, Inr key) \<Rightarrow> (m, Inr (Some key)))"

definition epoch_rotate :: "prims \<Rightarrow> u64 \<Rightarrow> u64 \<Rightarrow> EpochKeyManager \<Rightarrow> EpochKeyManager \<times> (EphemeraError + RotationResult)" where
  "epoch_rotate P now_secs now' m =
     (let current = epoch_id_for_timestamp now_secs
      in case ensure_key P now' m current of
           (m, Inl e) \<Rightarrow> (m, Inl e)
         | (m, Inr _) \<Rightarrow>
             let age = MAX_EPOCH_KEY_AGE_SECS div EPOCH_SECS;
                 cutoff_epoch = (if age \<le> current then current - age else 0);
                 marked = filter (\<lambda>eid. eid < cutoff_epoch \<and> eid \<notin> set (em_destroyed_epochs m)) (map fst (em_keys m))
             in (m, Inr \<lparr>rr_new_epoch_id = current, rr_marked_for_destruction = marked\<rparr>))"

definition destroy_key :: "EpochKeyManager \<Rightarrow> u64 \<Rightarrow> EpochKeyManager \<times> bool" where
  "destroy_key m epoch_id =
     (m\<lparr>em_keys := hm_remove epoch_id (em_keys m),
        em_destroyed_epochs := (if epoch_id \<in> set (em_destroyed_epochs m) then em_destroyed_epochs m
                                else em_destroyed_epochs m @ [epoch_id])\<rparr>,
      hm_contains (em_keys m) epoch_id)"

text \<open>The body of the destruction loop is what \<^verbatim>\<open>destroy_key\<close> does to the state.\<close>

definition destroy_expired_keys_at :: "EpochKeyManager \<Rightarrow> u64 \<Rightarrow> EpochKeyManager \<times> DestructionResult" where
  "destroy_expired_keys_at m now_secs =
     (let current_epoch = epoch_id_for_timestamp now_secs;
          age = MAX_EPOCH_KEY_AGE_SECS div EPOCH_SECS
      in if current_epoch > age
         then let cutoff_epoch = current_epoch - age;
                  to_destroy = filter (\<lambda>eid. eid < cutoff_epoch) (map fst (em_keys m))
              in (foldl (\<lambda>m eid. fst (destroy_key m eid)) m to_destroy,
                  \<lparr>dr_destroyed_epoch_ids = to_destroy, dr_count = length to_destroy\<rparr>)
         else (m, \<lparr>dr_destroyed_epoch_ids = [], dr_count = 0\<rparr>))"

definition destroy_expired_keys :: "u64 \<Rightarrow> EpochKeyManager \<Rightarrow> EpochKeyManager \<times> DestructionResult" where
  "destroy_expired_keys now m = destroy_expired_keys_at m now"

definition epoch_is_destroyed :: "EpochKeyManager \<Rightarrow> u64 \<Rightarrow> bool" where
  "epoch_is_destroyed m epoch_id \<longleftrightarrow> epoch_id \<in> set (em_destroyed_epochs m)"

definition active_key_count :: "EpochKeyManager \<Rightarrow> nat" where
  "active_key_count m = length (em_keys m)"

definition encrypt_with_current_epoch ::
    "prims \<Rightarrow> u64 \<Rightarrow> u64 \<Rightarrow> bytes \<Rightarrow> EpochKeyManager \<Rightarrow> bytes \<Rightarrow> EpochKeyManager \<times> (EphemeraError + u64 \<times> bytes)" where
  "encrypt_with_current_epoch P now now' nonce m plaintext =
     (case current_epoch_key P now now' m of
        (m, Inl e) \<Rightarrow> (m, Inl e)
      | (m, Inr (epoch_id, key)) \<Rightarrow>
          (case seal P nonce key plaintext of Inl e \<Rightarrow> (m, Inl e) | Inr sealed \<Rightarrow> (m, Inr (epoch_id, sealed))))"

definition decrypt_with_epoch_key ::
    "prims \<Rightarrow> u64 \<Rightarrow> EpochKeyManager \<Rightarrow> u64 \<Rightarrow> bytes \<Rightarrow> EpochKeyManager \<times> (EphemeraError + bytes option)" where
  "decrypt_with_epoch_key P now m epoch_id sealed =
     (case epoch_key_for P now m epoch_id of
        (m, Inl e) \<Rightarrow> (m, Inl e)
      | (m, Inr None) \<Rightarrow> (m, Inr None)
      | (m, Inr (Some k)) \<Rightarrow>
          (case open_sealed P k sealed of Inl e \<Rightarrow> (m, Inl e) | Inr plaintext \<Rightarrow> (m, Inr (Some plaintext))))"

section \<open>The life of a key\<close>

text \<open>Every call a client can make, with the clock readings and the nonce it happens to get.\<close>

datatype epoch_op =
    OpCurrent u64 u64
  | OpKeyFor u64 u64
  | OpRotate u64 u64
  | OpDestroyExpired u64
  | OpDestroy u64
  | OpEncrypt u64 u64 bytes bytes
  | OpDecrypt u64 u64 bytes

fun epoch_run :: "prims \<Rightarrow> EpochKeyManager \<Rightarrow> epoch_op \<Rightarrow> EpochKeyManager" where
  "epoch_run P m (OpCurrent now now') = fst (current_epoch_key P now now' m)"
| "epoch_run P m (OpKeyFor now eid) = fst (epoch_key_for P now m eid)"
| "epoch_run P m (OpRotate now now') = fst (epoch_rotate P now now' m)"
| "epoch_run P m (OpDestroyExpired now) = fst (destroy_expired_keys now m)"
| "epoch_run P m (OpDestroy eid) = fst (destroy_key m eid)"
| "epoch_run P m (OpEncrypt now now' nonce p) = fst (encrypt_with_current_epoch P now now' nonce m p)"
| "epoch_run P m (OpDecrypt now eid sealed) = fst (decrypt_with_epoch_key P now m eid sealed)"

text \<open>Cached keys are the derived ones, are not flagged as destroyed, and do not belong to a destroyed epoch.\<close>

definition epoch_inv :: "prims \<Rightarrow> EpochKeyManager \<Rightarrow> bool" where
  "epoch_inv P m \<longleftrightarrow>
     hm_ok (em_keys m)
     \<and> (\<forall>eid e. hm_get (em_keys m) eid = Some e \<longrightarrow>
          \<not> ek_destroyed e \<and> eid \<notin> set (em_destroyed_epochs m) \<and> derive_epoch_key P (em_master m) eid = Inr (ek_key e))"

lemma epoch_inv_new: "epoch_inv P (EpochKeyManager_new master)"
  by (simp add: epoch_inv_def EpochKeyManager_new_def)

text \<open>Creating a key is the only way to grow the cache, destroying one the only way to shrink it.\<close>

lemma ensure_key_inv [inv_intro]: "epoch_inv P m \<Longrightarrow> epoch_inv P (fst (ensure_key P now m eid))"
  by (auto simp: ensure_key_def epoch_inv_def simp del: map_of_eq_Some_iff split: option.splits sum.splits if_splits)

lemma destroy_key_inv [inv_intro]: "epoch_inv P m \<Longrightarrow> epoch_inv P (fst (destroy_key m eid))"
  by (auto simp: destroy_key_def epoch_inv_def simp del: map_of_eq_Some_iff split: if_splits)

lemma destroy_keys_inv: "epoch_inv P m \<Longrightarrow> epoch_inv P (foldl (\<lambda>m eid. fst (destroy_key m eid)) m eids)"
  by (induction eids arbitrary: m) (simp_all add: destroy_key_inv)

lemma epoch_ops_fst:
  "fst (current_epoch_key P now now' m) = fst (ensure_key P now' m (current_epoch_id now))"
  "fst (epoch_key_for P now m eid) = (if eid \<in> set (em_destroyed_epochs m) then m else fst (ensure_key P now m eid))"
  "fst (epoch_rotate P now now' m) = fst (ensure_key P now' m (epoch_id_for_timestamp now))"
  "fst (encrypt_with_current_epoch P now now' nonce m p) = fst (current_epoch_key P now now' m)"
  "fst (decrypt_with_epoch_key P now m eid sealed) = fst (epoch_key_for P now m eid)"
  by (auto simp: current_epoch_key_def epoch_key_for_def epoch_rotate_def encrypt_with_current_epoch_def
      decrypt_with_epoch_key_def Let_def split: prod.splits sum.splits option.splits)

lemma epoch_run_cases:
  obtains (same) "epoch_run P m op = m"
  | (ensure) now eid where "epoch_run P m op = fst (ensure_key P now m eid)"
  | (destroy) eids where "epoch_run P m op = foldl (\<lambda>m eid. fst (destroy_key m eid)) m eids"
proof (cases op)
  case (OpDestroyExpired now)
  then show ?thesis
    by (cases "epoch_id_for_timestamp now > MAX_EPOCH_KEY_AGE_SECS div EPOCH_SECS")
      (rule destroy, simp add: destroy_expired_keys_def destroy_expired_keys_at_def Let_def,
       rule same, simp add: destroy_expired_keys_def destroy_expired_keys_at_def)
next
  case (OpDestroy eid)
  then show ?thesis using destroy [of "[eid]"] by simp
next
  case (OpKeyFor now eid)
  then show ?thesis
    by (cases "eid \<in> set (em_destroyed_epochs m)") (rule same, simp add: epoch_ops_fst, rule ensure, simp add: epoch_ops_fst)
next
  case (OpDecrypt now eid sealed)
  then show ?thesis
    by (cases "eid \<in> set (em_destroyed_epochs m)") (rule same, simp add: epoch_ops_fst, rule ensure, simp add: epoch_ops_fst)
qed (rule ensure, simp add: epoch_ops_fst)+

lemma epoch_run_inv [inv_intro]: "epoch_inv P m \<Longrightarrow> epoch_inv P (epoch_run P m op)"
  by (rule epoch_run_cases [of P m op]) (simp_all add: ensure_key_inv destroy_keys_inv)

lemma destroy_keys_effect:
  "em_master (foldl (\<lambda>m eid. fst (destroy_key m eid)) m eids) = em_master m"
  "set (em_destroyed_epochs (foldl (\<lambda>m eid. fst (destroy_key m eid)) m eids)) = set (em_destroyed_epochs m) \<union> set eids"
  "hm_get (em_keys (foldl (\<lambda>m eid. fst (destroy_key m eid)) m eids)) eid =
     (if eid \<in> set eids then None else hm_get (em_keys m) eid)"
  by (induction eids arbitrary: m) (auto simp: destroy_key_def)

lemma ensure_key_effect:
  "em_master (fst (ensure_key P now m eid)) = em_master m"
  "em_destroyed_epochs (fst (ensure_key P now m eid)) = em_destroyed_epochs m"
  by (auto simp: ensure_key_def split: option.split sum.split)

lemma epoch_run_mono:
  "em_master (epoch_run P m op) = em_master m"
  "set (em_destroyed_epochs m) \<subseteq> set (em_destroyed_epochs (epoch_run P m op))"
  by (rule epoch_run_cases [of P m op]; simp add: destroy_keys_effect ensure_key_effect)+

lemma epoch_runs_mono:
  "em_master (foldl (epoch_run P) m ops) = em_master m"
  "set (em_destroyed_epochs m) \<subseteq> set (em_destroyed_epochs (foldl (epoch_run P) m ops))"
proof (induction ops arbitrary: m)
  case (Cons op ops)
  { case 1 show ?case using Cons by (simp add: epoch_run_mono(1)) }
  { case 2 show ?case using Cons(2) [of "epoch_run P m op"] epoch_run_mono(2) [of m P op] by simp }
qed simp_all

lemma epoch_runs_inv: "epoch_inv P m \<Longrightarrow> epoch_inv P (foldl (epoch_run P) m ops)"
  by (induction ops arbitrary: m) (simp_all add: epoch_run_inv)

lemma epoch_key_for_result:
  assumes "epoch_inv P m" and "derive_epoch_key P (em_master m) eid = Inr key"
  shows "snd (epoch_key_for P now m eid) = Inr (if epoch_is_destroyed m eid then None else Some key)"
  using assms by (auto simp: epoch_key_for_def ensure_key_def epoch_inv_def epoch_is_destroyed_def split: option.split)


lemma derive_epoch_key_ok: "prims_ok P \<Longrightarrow> \<exists>key. derive_epoch_key P master eid = Inr key"
  using prims_okD(1) [of P master None "ascii_bytes ''ephemera-epoch'' @ to_le_bytes 8 eid"]
  by (auto simp: derive_epoch_key_def hkdf_derive_def)

text \<open>C5: content under an epoch key is readable exactly until the key is destroyed, and never again afterwards. What
  was encrypted under the current epoch decrypts, after any further calls, to the plaintext as long as the epoch has
  not been destroyed, and to nothing once it has been; an epoch that is destroyed stays destroyed.\<close>

theorem epoch_shredding:
  assumes "prims_ok P" and "length nonce = 24" and "epoch_inv P m"
    and "\<not> epoch_is_destroyed m (current_epoch_id now)"
  shows "\<exists>m1 sealed. encrypt_with_current_epoch P now now' nonce m plaintext = (m1, Inr (current_epoch_id now, sealed))
     \<and> (\<forall>ops later. let m2 = foldl (epoch_run P) m1 ops in
          snd (decrypt_with_epoch_key P later m2 (current_epoch_id now) sealed) =
            Inr (if epoch_is_destroyed m2 (current_epoch_id now) then None else Some plaintext)
          \<and> (\<forall>ops'. epoch_is_destroyed m2 (current_epoch_id now) \<longrightarrow>
               epoch_is_destroyed (foldl (epoch_run P) m2 ops') (current_epoch_id now)))"
proof -
  let ?eid = "current_epoch_id now"
  obtain key where key: "derive_epoch_key P (em_master m) ?eid = Inr key"
    using derive_epoch_key_ok [OF assms(1)] by blast
  have "snd (epoch_key_for P now' m ?eid) = Inr (Some key)"
    using epoch_key_for_result [OF assms(3) key] assms(4) by simp
  then have e: "ensure_key P now' m ?eid = (fst (ensure_key P now' m ?eid), Inr key)"
    using assms(4) by (auto simp: epoch_key_for_def epoch_is_destroyed_def split: prod.splits sum.splits)
  obtain c where c: "seal P nonce key plaintext = Inr c" "open_sealed P key c = Inr plaintext"
    using seal_open [OF assms(1,2)] by blast
  let ?m = "fst (ensure_key P now' m ?eid)"
  have enc: "encrypt_with_current_epoch P now now' nonce m plaintext = (?m, Inr (?eid, c))"
    by (subst encrypt_with_current_epoch_def, subst current_epoch_key_def, simp add: Let_def, subst e) (simp add: c)
  have dec: "snd (decrypt_with_epoch_key P later m2 ?eid c) = Inr (if epoch_is_destroyed m2 ?eid then None else Some plaintext)"
    if "m2 = foldl (epoch_run P) ?m ops" for m2 ops later
  proof -
    have "epoch_inv P m2" "em_master m2 = em_master m"
      using that epoch_runs_inv [OF ensure_key_inv [OF assms(3)]] by (simp_all add: epoch_runs_mono ensure_key_effect)
    then have "snd (epoch_key_for P later m2 ?eid) = Inr (if epoch_is_destroyed m2 ?eid then None else Some key)"
      using epoch_key_for_result key by simp
    then show ?thesis
      by (auto simp: decrypt_with_epoch_key_def c(2) split: prod.split if_splits)
  qed
  show ?thesis
    using enc dec epoch_runs_mono(2) unfolding Let_def epoch_is_destroyed_def by blast
qed

theorem epoch_shredding_witness:
  "let m = EpochKeyManager_new (replicate 32 7) in
   \<exists>m1 sealed. encrypt_with_current_epoch toy_prims 864000 864001 (replicate 24 0) m [104, 105] =
        (m1, Inr (current_epoch_id 864000, sealed))
     \<and> snd (decrypt_with_epoch_key toy_prims 0 (foldl (epoch_run toy_prims) m1 [OpRotate 950400 950400]) (current_epoch_id 864000) sealed)
         = Inr (Some [104, 105])
     \<and> snd (decrypt_with_epoch_key toy_prims 0 (foldl (epoch_run toy_prims) m1 [OpDestroy 10, OpKeyFor 0 10])
              (current_epoch_id 864000) sealed) = Inr None"
proof -
  let ?m = "EpochKeyManager_new (replicate 32 7)" and ?e = "current_epoch_id 864000"
  have "\<not> epoch_is_destroyed ?m ?e"
    by (simp add: epoch_is_destroyed_def EpochKeyManager_new_def)
  from epoch_shredding [OF toy_prims_ok _ epoch_inv_new this, of "replicate 24 0" 864001 "[104, 105]"]
  obtain m1 sealed where e: "encrypt_with_current_epoch toy_prims 864000 864001 (replicate 24 0) ?m [104, 105] = (m1, Inr (?e, sealed))"
    and d: "\<And>ops later. snd (decrypt_with_epoch_key toy_prims later (foldl (epoch_run toy_prims) m1 ops) ?e sealed) =
            Inr (if epoch_is_destroyed (foldl (epoch_run toy_prims) m1 ops) ?e then None else Some [104, 105])"
    by (auto simp: Let_def)
  have m1: "m1 = fst (ensure_key toy_prims 864001 ?m ?e)" using e epoch_ops_fst(1,4) by (metis fst_conv)
  have "\<not> epoch_is_destroyed (foldl (epoch_run toy_prims) m1 [OpRotate 950400 950400]) ?e"
    by (simp add: m1 epoch_is_destroyed_def epoch_ops_fst ensure_key_effect EpochKeyManager_new_def)
  moreover have "epoch_is_destroyed (foldl (epoch_run toy_prims) m1 [OpDestroy 10, OpKeyFor 0 10]) ?e"
    using epoch_run_mono(2) [of "epoch_run toy_prims m1 (OpDestroy 10)" toy_prims "OpKeyFor 0 10"]
    by (auto simp: epoch_is_destroyed_def destroy_key_def current_epoch_id_def epoch_id_for_timestamp_def EPOCH_SECS_def)
  ultimately have "snd (decrypt_with_epoch_key toy_prims 0 (foldl (epoch_run toy_prims) m1 [OpRotate 950400 950400]) ?e sealed)
         = Inr (Some [104, 105])"
    and "snd (decrypt_with_epoch_key toy_prims 0 (foldl (epoch_run toy_prims) m1 [OpDestroy 10, OpKeyFor 0 10]) ?e sealed) = Inr None"
    by (simp_all only: d if_True if_False)
  with e show ?thesis unfolding Let_def by blast
qed

section \<open>When keys are destroyed\<close>

lemma epoch_age: "MAX_EPOCH_KEY_AGE_SECS div EPOCH_SECS = 30"
  by (simp add: MAX_EPOCH_KEY_AGE_SECS_def EPOCH_SECS_def)

lemma unat_epoch_id: "unat (epoch_id_for_timestamp t) = unat t div 86400"
  by (simp add: epoch_id_for_timestamp_def EPOCH_SECS_def unat_div)

lemma expired_epoch_iff:
  "epoch_id_for_timestamp now > 30 \<and> eid < epoch_id_for_timestamp now - 30 \<longleftrightarrow> unat eid + 30 < unat now div 86400"
proof (cases "epoch_id_for_timestamp now > 30")
  case True
  then have "unat (epoch_id_for_timestamp now - 30) = unat now div 86400 - 30"
    by (subst unat_sub) (auto simp: word_less_nat_alt word_le_nat_alt unat_epoch_id)
  then show ?thesis using True by (auto simp: word_less_nat_alt)
next
  case False
  then show ?thesis by (simp add: word_less_nat_alt unat_epoch_id)
qed

lemma destroy_expired_effect:
  "epoch_is_destroyed (fst (destroy_expired_keys_at m now)) eid \<longleftrightarrow>
     epoch_is_destroyed m eid \<or> hm_contains (em_keys m) eid \<and> unat eid + 30 < unat now div 86400"
  "hm_contains (em_keys (fst (destroy_expired_keys_at m now))) eid \<longleftrightarrow>
     hm_contains (em_keys m) eid \<and> \<not> unat eid + 30 < unat now div 86400"
proof -
  have m: "eid \<in> set (filter (\<lambda>eid. eid < c) (map fst (em_keys m))) \<longleftrightarrow> eid < c \<and> hm_contains (em_keys m) eid" for c
    unfolding hm_contains_iff by auto
  show "epoch_is_destroyed (fst (destroy_expired_keys_at m now)) eid \<longleftrightarrow>
     epoch_is_destroyed m eid \<or> hm_contains (em_keys m) eid \<and> unat eid + 30 < unat now div 86400"
    unfolding expired_epoch_iff [symmetric] destroy_expired_keys_at_def epoch_age Let_def epoch_is_destroyed_def
    by (simp add: destroy_keys_effect(2) m del: set_filter) auto
  show "hm_contains (em_keys (fst (destroy_expired_keys_at m now))) eid \<longleftrightarrow>
     hm_contains (em_keys m) eid \<and> \<not> unat eid + 30 < unat now div 86400"
    unfolding expired_epoch_iff [symmetric] destroy_expired_keys_at_def epoch_age Let_def
    by (simp add: destroy_keys_effect(3) m del: set_filter) auto
qed

text \<open>C24: destroying expired keys keeps content readable for its whole life and no cached key past its time. At any
  moment up to thirty days after content was created, the sweep leaves the key of its epoch alone; from thirty-one days
  on, a cached key of that epoch is removed and its epoch recorded as destroyed.\<close>

theorem shredding_window:
  assumes "unat created \<le> unat now"
  shows "(unat now \<le> unat created + 30 * 86400 \<longrightarrow>
            (let m' = fst (destroy_expired_keys_at m now); eid = epoch_id_for_timestamp created in
             (epoch_is_destroyed m' eid \<longleftrightarrow> epoch_is_destroyed m eid)
             \<and> (hm_contains (em_keys m') eid \<longleftrightarrow> hm_contains (em_keys m) eid)))
       \<and> (unat created + 31 * 86400 \<le> unat now \<and> hm_contains (em_keys m) (epoch_id_for_timestamp created) \<longrightarrow>
            (let m' = fst (destroy_expired_keys_at m now); eid = epoch_id_for_timestamp created in
             epoch_is_destroyed m' eid \<and> \<not> hm_contains (em_keys m') eid))"
proof -
  have "unat created div 86400 + 30 < unat now div 86400" if "unat created + 31 * 86400 \<le> unat now"
    using that by linarith
  moreover have "\<not> unat created div 86400 + 30 < unat now div 86400" if "unat now \<le> unat created + 30 * 86400"
    using that by linarith
  ultimately show ?thesis
    unfolding Let_def destroy_expired_effect unat_epoch_id by blast
qed

theorem shredding_window_witness:
  "let m = fst (ensure_key toy_prims 0 (EpochKeyManager_new (replicate 32 7)) (epoch_id_for_timestamp 864000)) in
   hm_contains (em_keys m) (epoch_id_for_timestamp 864000)
   \<and> hm_contains (em_keys (fst (destroy_expired_keys_at m 3456000))) (epoch_id_for_timestamp 864000)
   \<and> epoch_is_destroyed (fst (destroy_expired_keys_at m 3542400)) (epoch_id_for_timestamp 864000)"
proof -
  let ?m = "fst (ensure_key toy_prims 0 (EpochKeyManager_new (replicate 32 7)) (epoch_id_for_timestamp 864000))"
  have "hm_contains (em_keys ?m) (epoch_id_for_timestamp 864000)"
    by (simp add: ensure_key_def EpochKeyManager_new_def derive_epoch_key_def hkdf_derive_def toy_prims_def)
  then show ?thesis
    using shredding_window [of 864000 3456000 ?m] shredding_window [of 864000 3542400 ?m] by (simp add: Let_def)
qed

text \<open>The sweep looks only at the cache. An epoch whose key is not cached, say because the manager has just been
  created after a restart, is not recorded as destroyed, and its key is derived again from the master secret, however
  old the epoch is.\<close>

lemma expired_key_rederived:
  assumes "prims_ok P"
  shows "\<exists>key. snd (epoch_key_for P later (fst (destroy_expired_keys_at (EpochKeyManager_new master) now)) eid) = Inr (Some key)"
proof -
  obtain key where key: "derive_epoch_key P master eid = Inr key" using derive_epoch_key_ok [OF assms] by blast
  have "fst (destroy_expired_keys_at (EpochKeyManager_new master) now) = EpochKeyManager_new master"
    by (simp add: destroy_expired_keys_at_def EpochKeyManager_new_def Let_def)
  then show ?thesis
    using epoch_key_for_result [OF epoch_inv_new [of P master], of eid key later] key
    by (simp add: EpochKeyManager_new_def epoch_is_destroyed_def)
qed

end
