(* ===== verification/Social_Graph.thy ===== *)
theory Social_Graph
  imports Identity Time_Types Rust_Strings
begin

text \<open>
  Crate \<^verbatim>\<open>ephemera-social\<close>, files \<^verbatim>\<open>connection.rs\<close>, \<^verbatim>\<open>block.rs\<close>, \<^verbatim>\<open>store/connection.rs\<close>,
  \<^verbatim>\<open>store/block.rs\<close> and \<^verbatim>\<open>store/mod.rs\<close>: connection requests between pseudonyms, blocks and mutes, kept in SQL
  tables. A table is a map from its primary key to the other columns; \<^verbatim>\<open>INSERT OR REPLACE\<close>, \<^verbatim>\<open>UPDATE\<close> and \<^verbatim>\<open>DELETE\<close> are the
  updates of that map, and rows that an \<^verbatim>\<open>ORDER BY\<close> leaves tied keep the order of the table. Clock readings are
  arguments; failures of the database itself are not modelled.
\<close>

section \<open>Data\<close>

datatype ConnectionStatus = PendingOutgoing | PendingIncoming | Active | Blocked

record Connection =
  cn_initiator :: IdentityKey
  cn_responder :: IdentityKey
  cn_status :: ConnectionStatus
  cn_created_at :: Timestamp
  cn_updated_at :: Timestamp
  cn_message :: "rstr option"

definition connection_is_active :: "Connection \<Rightarrow> bool" where
  "connection_is_active c \<longleftrightarrow> cn_status c = Active"

definition connection_is_blocked :: "Connection \<Rightarrow> bool" where
  "connection_is_blocked c \<longleftrightarrow> cn_status c = Blocked"

definition remote_party :: "Connection \<Rightarrow> IdentityKey \<Rightarrow> IdentityKey" where
  "remote_party c local_key = (if cn_initiator c = local_key then cn_responder c else cn_initiator c)"

datatype ConnectionError =
    AlreadyExists ConnectionStatus
  | ConnectionNotFound
  | MessageTooLong nat
  | ConnectionStorage string

definition MAX_CONNECTION_MESSAGE_LEN :: nat where "MAX_CONNECTION_MESSAGE_LEN = 280"

record Mute =
  mu_muter :: IdentityKey
  mu_muted :: IdentityKey
  mu_created_at :: Timestamp
  mu_expires_at :: "Timestamp option"

definition Mute_is_expired_at :: "Mute \<Rightarrow> Timestamp \<Rightarrow> bool" where
  "Mute_is_expired_at m now =
     (case mu_expires_at m of Some exp \<Rightarrow> Timestamp_as_secs now > Timestamp_as_secs exp | None \<Rightarrow> False)"

section \<open>Tables\<close>

text \<open>Columns of type \<^verbatim>\<open>INTEGER\<close> hold \<^verbatim>\<open>i64\<close> values; a \<^verbatim>\<open>u64\<close> is cast to \<^verbatim>\<open>i64\<close> and back bit by bit.\<close>

definition as_i64 :: "u64 \<Rightarrow> int" where "as_i64 w = sint w"
definition as_u64 :: "int \<Rightarrow> u64" where "as_u64 i = of_int i"

lemma as_u64_as_i64 [simp]: "as_u64 (as_i64 w) = w"
  by (simp add: as_u64_def as_i64_def)

record ConnectionRow =
  cr_status :: string
  cr_created_at :: int
  cr_updated_at :: int
  cr_message :: "rstr option"
  cr_initiator_pubkey :: "bytes option"

record BlockRow =
  bk_created_at :: int
  bk_reason :: "rstr option"

record MuteRow =
  mt_created_at :: int
  mt_expires_at :: "int option"

record graph_db =
  db_connections :: "(bytes \<times> bytes, ConnectionRow) hash_map"
  db_blocks :: "(bytes \<times> bytes, BlockRow) hash_map"
  db_mutes :: "(bytes \<times> bytes, MuteRow) hash_map"

fun status_to_str :: "ConnectionStatus \<Rightarrow> string" where
  "status_to_str PendingOutgoing = ''pending_outgoing''"
| "status_to_str PendingIncoming = ''pending_incoming''"
| "status_to_str Active = ''connected''"
| "status_to_str Blocked = ''blocked''"

definition str_to_status :: "string \<Rightarrow> ConnectionStatus" where
  "str_to_status s =
     (if s = ''pending_outgoing'' then PendingOutgoing
      else if s = ''pending_incoming'' then PendingIncoming
      else if s = ''connected'' then Active
      else if s = ''blocked'' then Blocked
      else PendingOutgoing)"

definition bytes_to_identity_key :: "bytes \<Rightarrow> IdentityKey" where
  "bytes_to_identity_key bs = IdentityKey (if length bs = 32 then bs else replicate 32 0)"

definition bytes_to_content_hash :: "bytes \<Rightarrow> ContentId" where
  "bytes_to_content_hash bs =
     (if length bs = 33 then (case ContentId_from_wire_bytes bs of Some c \<Rightarrow> c | None \<Rightarrow> ContentId_from_hash (replicate 32 0))
      else if length bs = 32 then ContentId_from_hash bs
      else ContentId_from_hash (replicate 32 0))"

section \<open>Connections\<close>

text \<open>The statements the operations share.\<close>

definition connection_insert ::
    "Timestamp \<Rightarrow> 'a graph_db_scheme \<Rightarrow> IdentityKey \<Rightarrow> IdentityKey \<Rightarrow> rstr option
       \<Rightarrow> 'a graph_db_scheme \<times> (ConnectionError + Connection)" where
  "connection_insert now db from_key to_key message =
     (let key = (identity_bytes from_key, identity_bytes to_key);
          now_secs = as_i64 (Timestamp_as_secs now)
      in case hm_get (db_connections db) key of
           Some row \<Rightarrow> (db, Inl (AlreadyExists (str_to_status (cr_status row))))
         | None \<Rightarrow>
             (db\<lparr>db_connections := hm_insert key
                   \<lparr>cr_status = ''pending_outgoing'', cr_created_at = now_secs, cr_updated_at = now_secs, cr_message = message,
                    cr_initiator_pubkey = Some (identity_bytes from_key)\<rparr> (db_connections db)\<rparr>,
              Inr \<lparr>cn_initiator = from_key, cn_responder = to_key, cn_status = PendingOutgoing, cn_created_at = now,
                   cn_updated_at = now, cn_message = message\<rparr>))"

definition set_connected :: "int \<Rightarrow> bytes \<times> bytes \<Rightarrow> 'a graph_db_scheme \<Rightarrow> 'a graph_db_scheme" where
  "set_connected now_secs key db =
     (case hm_get (db_connections db) key of
        None \<Rightarrow> db
      | Some row \<Rightarrow>
          db\<lparr>db_connections := hm_insert key (row\<lparr>cr_status := ''connected'', cr_updated_at := now_secs\<rparr>) (db_connections db)\<rparr>)"

definition delete_connection :: "bytes \<times> bytes \<Rightarrow> 'a graph_db_scheme \<Rightarrow> 'a graph_db_scheme" where
  "delete_connection key db = db\<lparr>db_connections := hm_remove key (db_connections db)\<rparr>"

definition connection_request ::
    "Timestamp \<Rightarrow> 'a graph_db_scheme \<Rightarrow> IdentityKey \<Rightarrow> IdentityKey \<Rightarrow> rstr option
       \<Rightarrow> 'a graph_db_scheme \<times> (ConnectionError + Connection)" where
  "connection_request now db from_key to_key message =
     (case message of
        Some msg \<Rightarrow>
          if str_len msg > MAX_CONNECTION_MESSAGE_LEN then (db, Inl (MessageTooLong (str_len msg)))
          else connection_insert now db from_key to_key message
      | None \<Rightarrow> connection_insert now db from_key to_key message)"

definition connection_accept ::
    "Timestamp \<Rightarrow> 'a graph_db_scheme \<Rightarrow> IdentityKey \<Rightarrow> IdentityKey \<Rightarrow> 'a graph_db_scheme \<times> (ConnectionError + Connection)" where
  "connection_accept now db local_key remote =
     (let now_secs = as_i64 (Timestamp_as_secs now);
          db = set_connected now_secs (identity_bytes local_key, identity_bytes remote) db;
          db = set_connected now_secs (identity_bytes remote, identity_bytes local_key) db
      in (db, Inr \<lparr>cn_initiator = remote, cn_responder = local_key, cn_status = Active, cn_created_at = now,
                   cn_updated_at = now, cn_message = None\<rparr>))"

definition connection_reject ::
    "'a graph_db_scheme \<Rightarrow> IdentityKey \<Rightarrow> IdentityKey \<Rightarrow> 'a graph_db_scheme \<times> (ConnectionError + unit)" where
  "connection_reject db local_key remote = (delete_connection (identity_bytes local_key, identity_bytes remote) db, Inr ())"

definition connection_remove ::
    "'a graph_db_scheme \<Rightarrow> IdentityKey \<Rightarrow> IdentityKey \<Rightarrow> 'a graph_db_scheme \<times> (ConnectionError + unit)" where
  "connection_remove db local_key remote =
     (let db = delete_connection (identity_bytes local_key, identity_bytes remote) db;
          db = delete_connection (identity_bytes remote, identity_bytes local_key) db
      in (db, Inr ()))"

definition row_to_connection :: "(bytes \<times> bytes) \<times> ConnectionRow \<Rightarrow> Connection" where
  "row_to_connection e =
     (let ((local_pk, remote_pk), row) = e;
          local_key = bytes_to_identity_key local_pk;
          remote_key = bytes_to_identity_key remote_pk;
          initiator = (case cr_initiator_pubkey row of Some pk \<Rightarrow> bytes_to_identity_key pk | None \<Rightarrow> local_key);
          responder = (if initiator = local_key then remote_key else local_key)
      in \<lparr>cn_initiator = initiator, cn_responder = responder, cn_status = str_to_status (cr_status row),
          cn_created_at = Timestamp_from_secs (as_u64 (cr_created_at row)),
          cn_updated_at = Timestamp_from_secs (as_u64 (cr_updated_at row)), cn_message = cr_message row\<rparr>)"

definition connection_list :: "'a graph_db_scheme \<Rightarrow> IdentityKey \<Rightarrow> ConnectionStatus option \<Rightarrow> Connection list" where
  "connection_list db ident status_filter =
     (let rows = filter (\<lambda>((local_pk, _), row). local_pk = identity_bytes ident
                   \<and> (case status_filter of Some status \<Rightarrow> cr_status row = status_to_str status | None \<Rightarrow> True))
                 (db_connections db)
      in map row_to_connection (sort_key (\<lambda>(_, row). - cr_updated_at row) rows))"

definition receive_connection_request ::
    "Timestamp \<Rightarrow> 'a graph_db_scheme \<Rightarrow> IdentityKey \<Rightarrow> IdentityKey \<Rightarrow> rstr option
       \<Rightarrow> 'a graph_db_scheme \<times> (ConnectionError + Connection option)" where
  "receive_connection_request now db receiver sender message =
     (let now_secs = as_i64 (Timestamp_as_secs now) in
      if hm_contains (db_blocks db) (identity_bytes receiver, identity_bytes sender) then (db, Inr None)
      else (db\<lparr>db_connections := hm_insert (identity_bytes receiver, identity_bytes sender)
                 \<lparr>cr_status = ''pending_incoming'', cr_created_at = now_secs, cr_updated_at = now_secs, cr_message = message,
                  cr_initiator_pubkey = Some (identity_bytes sender)\<rparr> (db_connections db)\<rparr>,
            Inr (Some \<lparr>cn_initiator = sender, cn_responder = receiver, cn_status = PendingIncoming, cn_created_at = now,
                       cn_updated_at = now, cn_message = message\<rparr>)))"

section \<open>Blocks and mutes\<close>

definition social_block ::
    "Timestamp \<Rightarrow> 'a graph_db_scheme \<Rightarrow> IdentityKey \<Rightarrow> IdentityKey \<Rightarrow> rstr option \<Rightarrow> 'a graph_db_scheme" where
  "social_block now db blocker blocked reason =
     (let key = (identity_bytes blocker, identity_bytes blocked);
          db = db\<lparr>db_blocks := hm_insert key \<lparr>bk_created_at = as_i64 (Timestamp_as_secs now), bk_reason = reason\<rparr> (db_blocks db)\<rparr>
      in delete_connection key db)"

definition social_unblock :: "'a graph_db_scheme \<Rightarrow> IdentityKey \<Rightarrow> IdentityKey \<Rightarrow> 'a graph_db_scheme" where
  "social_unblock db blocker blocked =
     db\<lparr>db_blocks := hm_remove (identity_bytes blocker, identity_bytes blocked) (db_blocks db)\<rparr>"

definition social_mute ::
    "Timestamp \<Rightarrow> 'a graph_db_scheme \<Rightarrow> IdentityKey \<Rightarrow> IdentityKey \<Rightarrow> Timestamp option \<Rightarrow> 'a graph_db_scheme" where
  "social_mute now db muter muted expires_at =
     db\<lparr>db_mutes := hm_insert (identity_bytes muter, identity_bytes muted)
          \<lparr>mt_created_at = as_i64 (Timestamp_as_secs now), mt_expires_at = map_option (\<lambda>t. as_i64 (Timestamp_as_secs t)) expires_at\<rparr>
          (db_mutes db)\<rparr>"

definition social_unmute :: "'a graph_db_scheme \<Rightarrow> IdentityKey \<Rightarrow> IdentityKey \<Rightarrow> 'a graph_db_scheme" where
  "social_unmute db muter muted = db\<lparr>db_mutes := hm_remove (identity_bytes muter, identity_bytes muted) (db_mutes db)\<rparr>"

definition social_is_blocked :: "'a graph_db_scheme \<Rightarrow> IdentityKey \<Rightarrow> IdentityKey \<Rightarrow> bool" where
  "social_is_blocked db checker target \<longleftrightarrow> hm_contains (db_blocks db) (identity_bytes checker, identity_bytes target)"

definition social_is_muted :: "Timestamp \<Rightarrow> 'a graph_db_scheme \<Rightarrow> IdentityKey \<Rightarrow> IdentityKey \<Rightarrow> bool" where
  "social_is_muted now db checker target =
     (case hm_get (db_mutes db) (identity_bytes checker, identity_bytes target) of
        None \<Rightarrow> False
      | Some row \<Rightarrow> (case mt_expires_at row of None \<Rightarrow> True | Some e \<Rightarrow> e > as_i64 (Timestamp_as_secs now)))"


section \<open>Blocking\<close>

abbreviation pair_key :: "IdentityKey \<Rightarrow> IdentityKey \<Rightarrow> bytes \<times> bytes" where
  "pair_key a b \<equiv> (identity_bytes a, identity_bytes b)"

lemma identity_bytes_eq_iff [simp]: "identity_bytes a = identity_bytes b \<longleftrightarrow> a = b"
  by (auto simp: IdentityKey.expand)

lemma str_to_status_to_str [simp]: "str_to_status (status_to_str s) = s"
  by (cases s) (simp_all add: str_to_status_def)

lemmas status_literals [simp] =
  str_to_status_to_str [of PendingOutgoing, unfolded status_to_str.simps]
  str_to_status_to_str [of PendingIncoming, unfolded status_to_str.simps]
  str_to_status_to_str [of Active, unfolded status_to_str.simps]

text \<open>Every call on the tables.\<close>

datatype graph_op =
    Request Timestamp IdentityKey IdentityKey "rstr option"
  | ConnAccept Timestamp IdentityKey IdentityKey
  | Reject IdentityKey IdentityKey
  | Remove IdentityKey IdentityKey
  | Receive Timestamp IdentityKey IdentityKey "rstr option"
  | Block Timestamp IdentityKey IdentityKey "rstr option"
  | Unblock IdentityKey IdentityKey
  | MuteOp Timestamp IdentityKey IdentityKey "Timestamp option"
  | Unmute IdentityKey IdentityKey

fun graph_run :: "graph_db \<Rightarrow> graph_op \<Rightarrow> graph_db" where
  "graph_run db (Request now a b msg) = fst (connection_request now db a b msg)"
| "graph_run db (ConnAccept now a b) = fst (connection_accept now db a b)"
| "graph_run db (Reject a b) = fst (connection_reject db a b)"
| "graph_run db (Remove a b) = fst (connection_remove db a b)"
| "graph_run db (Receive now a b msg) = fst (receive_connection_request now db a b msg)"
| "graph_run db (Block now a b reason) = social_block now db a b reason"
| "graph_run db (Unblock a b) = social_unblock db a b"
| "graph_run db (MuteOp now a b until) = social_mute now db a b until"
| "graph_run db (Unmute a b) = social_unmute db a b"

lemma set_connected_get [simp]:
  "hm_get (db_connections (set_connected now key db)) key' =
     (if key' = key then map_option (cr_status_update (\<lambda>_. ''connected'') \<circ> cr_updated_at_update (\<lambda>_. now)) (hm_get (db_connections db) key)
      else hm_get (db_connections db) key')"
  "db_blocks (set_connected now key db) = db_blocks db"
  by (auto simp: set_connected_def split: option.split)

lemma connection_accept_None:
  "hm_get (db_connections (fst (connection_accept now db a c))) key = None \<longleftrightarrow> hm_get (db_connections db) key = None"
  "db_blocks (fst (connection_accept now db a c)) = db_blocks db"
proof -
  have n: "hm_get (db_connections (set_connected t k d)) key = None \<longleftrightarrow> hm_get (db_connections d) key = None" for t k and d :: "'a graph_db_scheme"
    by (cases "key = k") (simp_all add: set_connected_get(1))
  show "hm_get (db_connections (fst (connection_accept now db a c))) key = None \<longleftrightarrow> hm_get (db_connections db) key = None"
    by (simp only: connection_accept_def Let_def fst_conv n)
  show "db_blocks (fst (connection_accept now db a c)) = db_blocks db"
    by (simp add: connection_accept_def Let_def)
qed

lemma delete_connection_get [simp]:
  "hm_get (db_connections (delete_connection key db)) = (hm_get (db_connections db))(key := None)"
  "db_blocks (delete_connection key db) = db_blocks db"
  by (simp_all add: delete_connection_def)

definition cut_off :: "IdentityKey \<Rightarrow> IdentityKey \<Rightarrow> 'a graph_db_scheme \<Rightarrow> bool" where
  "cut_off b x db \<longleftrightarrow> social_is_blocked db b x \<and> hm_get (db_connections db) (pair_key b x) = None"

lemma cut_off_block: "cut_off b x (social_block now db b x reason)"
  by (simp add: cut_off_def social_block_def social_is_blocked_def Let_def)

lemma cut_off_run:
  assumes "cut_off b x db" and "\<And>now msg. op \<noteq> Request now b x msg" and "op \<noteq> Unblock b x"
  shows "cut_off b x (graph_run db op)"
proof (cases op)
  case (Request now a c msg)
  then show ?thesis
    using assms by (auto simp: cut_off_def connection_request_def connection_insert_def social_is_blocked_def Let_def split: option.split)
next
  case (ConnAccept now a c)
  then show ?thesis
    using assms(1) by (simp only: cut_off_def social_is_blocked_def graph_run.simps connection_accept_None simp_thms)
next
  case (Receive now a c msg)
  then show ?thesis using assms(1) by (auto simp: cut_off_def receive_connection_request_def social_is_blocked_def Let_def)
next
  case (Unblock a c)
  then show ?thesis using assms by (auto simp: cut_off_def social_unblock_def social_is_blocked_def)
qed (use assms(1) in \<open>auto simp: cut_off_def connection_reject_def connection_remove_def social_block_def social_mute_def
    social_unmute_def social_is_blocked_def Let_def\<close>)



section \<open>Connecting\<close>



text \<open>Accepting asks for no incoming request: the requester can accept its own request, and the connection is active in
  its table without the other side having done anything.\<close>

lemma requester_accepts_own_request:
  assumes "connection_request t1 db alice bob msg = (db1, Inr c)"
  shows "\<exists>row. hm_get (db_connections (fst (connection_accept t2 db1 alice bob))) (pair_key alice bob) = Some row
     \<and> str_to_status (cr_status row) = Active"
proof -
  obtain row where "hm_get (db_connections db1) (pair_key alice bob) = Some row"
    using assms by (auto simp: connection_request_def connection_insert_def Let_def split: option.splits if_splits)
  then show ?thesis by (cases "alice = bob") (simp_all add: connection_accept_def Let_def)
qed

text \<open>A request from a connected peer replaces the active connection by a pending one.\<close>

lemma request_downgrades_connection:
  assumes "\<not> social_is_blocked db bob alice"
  shows "\<exists>row. hm_get (db_connections (fst (receive_connection_request t db bob alice msg))) (pair_key bob alice) = Some row
     \<and> str_to_status (cr_status row) = PendingIncoming"
  using assms by (simp add: receive_connection_request_def social_is_blocked_def Let_def)

section \<open>Mutes\<close>

text \<open>A mute acts until its expiry, for times below \<open>2 ^ 63\<close>; the record's own test calls the mute expired only one
  second later than the query does.\<close>

lemma as_i64_less_iff:
  assumes "unat a < 2 ^ 63" and "unat b < 2 ^ 63"
  shows "as_i64 a < as_i64 b \<longleftrightarrow> a < b"
proof -
  have "sint w = uint w" if "unat w < 2 ^ 63" for w :: u64
  proof -
    have "uint w < 2 ^ 63" using that by (metis int_ops(3) of_nat_less_iff of_nat_power uint_nat numeral_power_eq_of_nat_cancel_iff of_nat_numeral)
    then show ?thesis by (simp only: sint_uint) (simp add: signed_take_bit_int_eq_self_iff order.trans [OF _ uint_ge_0])
  qed
  then show ?thesis using assms by (simp add: as_i64_def word_less_def)
qed

lemma mute_until_expiry:
  assumes "unat (ts_secs now) < 2 ^ 63" and "unat (ts_secs e) < 2 ^ 63"
  shows "social_is_muted now (social_mute t db muter muted (Some e)) muter muted \<longleftrightarrow> ts_secs now < ts_secs e"
    and "social_is_muted now (social_mute t db muter muted None) muter muted"
    and "\<not> social_is_muted now (social_unmute db muter muted) muter muted"
    and "Mute_is_expired_at \<lparr>mu_muter = muter, mu_muted = muted, mu_created_at = t, mu_expires_at = Some e\<rparr> now \<longleftrightarrow> ts_secs e < ts_secs now"
  using assms
  by (simp_all add: social_is_muted_def social_mute_def social_unmute_def Mute_is_expired_at_def Timestamp_as_secs_def
      as_i64_less_iff)

end
