(* ===== verification/Handles.thy ===== *)
theory Handles
  imports Message_Crypto Pow
begin

text \<open>
  Crate \<^verbatim>\<open>ephemera-social\<close>, files \<^verbatim>\<open>handle_validation.rs\<close> and \<^verbatim>\<open>handle.rs\<close>: the format of
  \<^verbatim>\<open>@handles\<close>, their proof-of-work and signature bindings, and the local registry with registration, renewal,
  release, conflict resolution and garbage collection. Argon2id is the parameter \<open>pow_hash\<close>; a proof-of-work search
  that never ends makes \<open>register\<close> and \<open>renew\<close> return \<open>None\<close>.
\<close>

section \<open>Validation\<close>

definition MIN_HANDLE_LEN :: nat where "MIN_HANDLE_LEN = 3"
definition MAX_HANDLE_LEN :: nat where "MAX_HANDLE_LEN = 20"
definition POW_DIFFICULTY_HIGH :: u32 where "POW_DIFFICULTY_HIGH = 11"
definition POW_DIFFICULTY_MEDIUM :: u32 where "POW_DIFFICULTY_MEDIUM = 9"
definition POW_DIFFICULTY_LOW :: u32 where "POW_DIFFICULTY_LOW = 7"
definition POW_DIFFICULTY_RENEWAL :: u32 where "POW_DIFFICULTY_RENEWAL = 5"
definition HANDLE_TTL_SECS :: u64 where "HANDLE_TTL_SECS = 90 * 24 * 60 * 60"
definition HANDLE_RELEASE_COOLDOWN_SECS :: u64 where "HANDLE_RELEASE_COOLDOWN_SECS = 24 * 60 * 60"
definition HANDLE_REGISTRATION_COOLDOWN_SECS :: u64 where "HANDLE_REGISTRATION_COOLDOWN_SECS = 24 * 60 * 60"

definition POW_DOMAIN :: bytes where "POW_DOMAIN = ascii_bytes ''ephemera-handle-pow-v1'' @ [0]"
definition SIG_DOMAIN :: bytes where "SIG_DOMAIN = ascii_bytes ''ephemera-handle-sig-v1'' @ [0]"

definition RESERVED_HANDLES :: "rstr list" where
  "RESERVED_HANDLES = map of_ascii
     [''admin'', ''administrator'', ''ephemera'', ''help'', ''info'', ''mod'', ''moderator'', ''official'', ''root'',
      ''staff'', ''support'', ''system'', ''team'', ''trust'', ''security'']"

datatype HandlePowDifficulty = High | Medium | Low | Renewal

fun difficulty_bits :: "HandlePowDifficulty \<Rightarrow> u32" where
  "difficulty_bits High = POW_DIFFICULTY_HIGH"
| "difficulty_bits Medium = POW_DIFFICULTY_MEDIUM"
| "difficulty_bits Low = POW_DIFFICULTY_LOW"
| "difficulty_bits Renewal = POW_DIFFICULTY_RENEWAL"

datatype HandleValidationError =
    TooShort nat
  | TooLong nat
  | InvalidCharacter rchar nat
  | StartsWithUnderscore
  | EndsWithUnderscore
  | ConsecutiveUnderscores
  | Reserved rstr
  | StartsWithDigit

definition is_ascii_lowercase :: "rchar \<Rightarrow> bool" where
  "is_ascii_lowercase c \<longleftrightarrow> 97 \<le> c \<and> c \<le> 122"

definition is_ascii_digit :: "rchar \<Rightarrow> bool" where
  "is_ascii_digit c \<longleftrightarrow> 48 \<le> c \<and> c \<le> 57"

definition to_ascii_lowercase :: "rstr \<Rightarrow> rstr" where
  "to_ascii_lowercase s = map (\<lambda>c. if 65 \<le> c \<and> c \<le> 90 then c + 32 else c) s"

definition handle_char :: "rchar \<Rightarrow> bool" where
  "handle_char c \<longleftrightarrow> is_ascii_lowercase c \<or> is_ascii_digit c \<or> c = 95"

fun first_invalid :: "nat \<Rightarrow> rstr \<Rightarrow> (rchar \<times> nat) option" where
  "first_invalid pos [] = None"
| "first_invalid pos (c # cs) = (if \<not> handle_char c then Some (c, pos) else first_invalid (Suc pos) cs)"

fun double_underscore :: "rstr \<Rightarrow> bool" where
  "double_underscore (a # b # cs) \<longleftrightarrow> a = 95 \<and> b = 95 \<or> double_underscore (b # cs)"
| "double_underscore _ \<longleftrightarrow> False"

definition validate_handle_format :: "rstr \<Rightarrow> HandleValidationError + unit" where
  "validate_handle_format name =
     (let len = str_len name in
      if len < MIN_HANDLE_LEN then Inl (TooShort len)
      else if len > MAX_HANDLE_LEN then Inl (TooLong len)
      else case first_invalid 0 name of
        Some (ch, pos) \<Rightarrow> Inl (InvalidCharacter ch pos)
      | None \<Rightarrow>
          if take 1 name = [95] then Inl StartsWithUnderscore
          else if take 1 (rev name) = [95] then Inl EndsWithUnderscore
          else if double_underscore name then Inl ConsecutiveUnderscores
          else if is_ascii_digit (name ! 0) then Inl StartsWithDigit
          else if name \<in> set RESERVED_HANDLES then Inl (Reserved name)
          else Inr ())"

definition calculate_pow_difficulty :: "rstr \<Rightarrow> HandlePowDifficulty" where
  "calculate_pow_difficulty name =
     (let len = str_len name in if len \<le> 5 then High else if len \<le> 10 then Medium else Low)"

definition to_be_bytes :: "nat \<Rightarrow> 'a::len word \<Rightarrow> bytes" where
  "to_be_bytes n w = rev (to_le_bytes n w)"

definition build_pow_challenge :: "rstr \<Rightarrow> IdentityKey \<Rightarrow> u64 \<Rightarrow> bytes" where
  "build_pow_challenge name owner registered_at =
     (let name_bytes = as_bytes name;
          name_len = (of_nat (length name_bytes) :: u16)
      in POW_DOMAIN @ to_be_bytes 2 name_len @ name_bytes @ identity_bytes owner @ to_be_bytes 8 registered_at)"

definition build_signature_message :: "rstr \<Rightarrow> IdentityKey \<Rightarrow> u64 \<Rightarrow> bytes" where
  "build_signature_message name owner registered_at =
     (let name_bytes = as_bytes name;
          name_len = (of_nat (length name_bytes) :: u16)
      in SIG_DOMAIN @ to_be_bytes 2 name_len @ name_bytes @ identity_bytes owner @ to_be_bytes 8 registered_at)"

definition verify_handle_pow ::
    "argon2_fn \<Rightarrow> rstr \<Rightarrow> IdentityKey \<Rightarrow> u64 \<Rightarrow> PowStamp \<Rightarrow> HandlePowDifficulty \<Rightarrow> EphemeraError + unit" where
  "verify_handle_pow pow_hash name owner registered_at pow_proof required_difficulty =
     (let challenge = build_pow_challenge name owner registered_at
      in verify_pow pow_hash pow_proof challenge (difficulty_bits required_difficulty))"

definition verify_handle_signature :: "prims \<Rightarrow> rstr \<Rightarrow> IdentityKey \<Rightarrow> u64 \<Rightarrow> Signature \<Rightarrow> CryptoError + unit" where
  "verify_handle_signature P name owner registered_at signature =
     (let msg = build_signature_message name owner registered_at
      in verify_signature P owner msg signature)"

text \<open>The display form of an error, which \<^verbatim>\<open>validate\<close> puts into its own.\<close>

abbreviation show_u64 :: "u64 \<Rightarrow> string" where
  "show_u64 w \<equiv> show_nat (unat w)"

fun EphemeraError_to_string :: "EphemeraError \<Rightarrow> string" where
  "EphemeraError_to_string (SignatureInvalid reason) = ''signature verification failed: '' @ reason"
| "EphemeraError_to_string (InvalidKey reason) = ''invalid key: '' @ reason"
| "EphemeraError_to_string (EncryptionError reason) = ''encryption error: '' @ reason"
| "EphemeraError_to_string (KeyDerivationError reason) = ''key derivation failed: '' @ reason"
| "EphemeraError_to_string (KeystoreError reason) = ''keystore error: '' @ reason"
| "EphemeraError_to_string (InvalidTtl v mn mx) =
     ''invalid TTL: '' @ show_u64 v @ ''s (must be '' @ show_u64 mn @ ''s..='' @ show_u64 mx @ ''s)''"
| "EphemeraError_to_string (TimestampSkew r l) =
     ''timestamp too far in future: '' @ show_u64 r @ ''s vs local '' @ show_u64 l @ ''s''"
| "EphemeraError_to_string ContentExpired = ''content expired''"
| "EphemeraError_to_string (InvalidContent reason) = ''invalid content: '' @ reason"
| "EphemeraError_to_string (ContentNotFound i) = ''content not found: '' @ i"
| "EphemeraError_to_string (InvalidPow reason) = ''invalid proof of work: '' @ reason"
| "EphemeraError_to_string (NetworkTimeout d) = ''network timeout after '' @ show_u64 d @ ''ms''"
| "EphemeraError_to_string (PeerConnectionFailed reason) = ''peer connection failed: '' @ reason"
| "EphemeraError_to_string (GossipError reason) = ''gossip error: '' @ reason"
| "EphemeraError_to_string (DhtError reason) = ''DHT error: '' @ reason"
| "EphemeraError_to_string (StorageError reason) = ''storage error: '' @ reason"
| "EphemeraError_to_string (StorageQuotaExceeded used mx) =
     ''storage quota exceeded: used '' @ show_u64 used @ '' of '' @ show_u64 mx @ '' bytes''"
| "EphemeraError_to_string (ConfigError reason) = ''configuration error: '' @ reason"
| "EphemeraError_to_string (Io source) = ''I/O error: '' @ source"
| "EphemeraError_to_string ContentRejectedBySafetyFilter = ''content rejected by safety filter''"
| "EphemeraError_to_string (InvalidModerationVote reason) = ''invalid moderation vote: '' @ reason"
| "EphemeraError_to_string (RateLimited r) = ''rate limited: retry after '' @ show_u64 r @ ''s''"
| "EphemeraError_to_string (SerializationError reason) = ''serialization error: '' @ reason"

section \<open>The registry\<close>

datatype ConflictResult = Accept | IncomingWins | ExistingWins

datatype InsertOutcome = HandleInserted | Replaced IdentityKey | Rejected

record Handle =
  ha_name :: rstr
  ha_owner :: IdentityKey
  ha_registered_at :: u64
  ha_expires_at :: u64
  ha_pow_proof :: PowStamp
  ha_signature :: Signature

definition handle_is_expired_at :: "Handle \<Rightarrow> u64 \<Rightarrow> bool" where
  "handle_is_expired_at h now_secs \<longleftrightarrow> now_secs \<ge> ha_expires_at h"

datatype HandleError =
    InvalidFormat HandleValidationError
  | AlreadyTaken rstr
  | IdentityAlreadyHasHandle rstr
  | RegistrationRateLimited u64
  | InCooldown rstr u64
  | HandleInvalidPow string
  | InvalidSignature
  | NotOwner rstr
  | HandleExpired rstr

record HandleRegistry =
  hr_handles :: "(rstr, Handle) hash_map"
  hr_owner_to_handle :: "(IdentityKey, rstr) hash_map"
  hr_last_registration :: "(IdentityKey, u64) hash_map"
  hr_cooldowns :: "(rstr, u64) hash_map"

definition HandleRegistry_new :: HandleRegistry where
  "HandleRegistry_new = \<lparr>hr_handles = [], hr_owner_to_handle = [], hr_last_registration = [], hr_cooldowns = []\<rparr>"

abbreviation get_handle :: "HandleRegistry \<Rightarrow> rstr \<Rightarrow> Handle option" where
  "get_handle r name \<equiv> hm_get (hr_handles r) name"

definition drop_handle :: "HandleRegistry \<Rightarrow> rstr \<Rightarrow> IdentityKey \<Rightarrow> HandleRegistry" where
  "drop_handle r name owner =
     r\<lparr>hr_handles := hm_remove name (hr_handles r), hr_owner_to_handle := hm_remove owner (hr_owner_to_handle r)\<rparr>"

definition store_handle :: "HandleRegistry \<Rightarrow> rstr \<Rightarrow> Handle \<Rightarrow> HandleRegistry" where
  "store_handle r name h =
     r\<lparr>hr_handles := hm_insert name h (hr_handles r), hr_owner_to_handle := hm_insert (ha_owner h) name (hr_owner_to_handle r)\<rparr>"

text \<open>The checks of \<^verbatim>\<open>register_with_difficulty\<close>, steps 2 to 5, in its order, each with the state it leaves behind.\<close>

definition check_owner :: "HandleRegistry \<Rightarrow> IdentityKey \<Rightarrow> u64 \<Rightarrow> HandleRegistry \<times> (HandleError + unit)" where
  "check_owner r owner now_secs =
     (case hm_get (hr_owner_to_handle r) owner of
        None \<Rightarrow> (r, Inr ())
      | Some existing \<Rightarrow>
          (case get_handle r existing of
             None \<Rightarrow> (r, Inr ())
           | Some h \<Rightarrow>
               if \<not> handle_is_expired_at h now_secs then (r, Inl (IdentityAlreadyHasHandle existing))
               else (drop_handle r existing owner, Inr ())))"

definition check_rate :: "HandleRegistry \<Rightarrow> IdentityKey \<Rightarrow> u64 \<Rightarrow> HandleError + unit" where
  "check_rate r owner now_secs =
     (case hm_get (hr_last_registration r) owner of
        None \<Rightarrow> Inr ()
      | Some prev \<Rightarrow>
          let elapsed = (if prev \<le> now_secs then now_secs - prev else 0)
          in if elapsed < HANDLE_REGISTRATION_COOLDOWN_SECS
             then Inl (RegistrationRateLimited (HANDLE_REGISTRATION_COOLDOWN_SECS - elapsed))
             else Inr ())"

definition check_available :: "HandleRegistry \<Rightarrow> rstr \<Rightarrow> u64 \<Rightarrow> HandleRegistry \<times> (HandleError + unit)" where
  "check_available r name now_secs =
     (case get_handle r name of
        None \<Rightarrow> (r, Inr ())
      | Some existing \<Rightarrow>
          if \<not> handle_is_expired_at existing now_secs then (r, Inl (AlreadyTaken name))
          else (drop_handle r name (ha_owner existing), Inr ()))"

definition check_cooldown :: "HandleRegistry \<Rightarrow> rstr \<Rightarrow> u64 \<Rightarrow> HandleRegistry \<times> (HandleError + unit)" where
  "check_cooldown r name now_secs =
     (case hm_get (hr_cooldowns r) name of
        None \<Rightarrow> (r, Inr ())
      | Some cooldown_until \<Rightarrow>
          if now_secs < cooldown_until then (r, Inl (InCooldown name cooldown_until))
          else (r\<lparr>hr_cooldowns := hm_remove name (hr_cooldowns r)\<rparr>, Inr ()))"

definition register_checks :: "HandleRegistry \<Rightarrow> rstr \<Rightarrow> IdentityKey \<Rightarrow> u64 \<Rightarrow> HandleRegistry \<times> (HandleError + unit)" where
  "register_checks r name owner now_secs =
     (case validate_handle_format name of
        Inl e \<Rightarrow> (r, Inl (InvalidFormat e))
      | Inr _ \<Rightarrow>
     (case check_owner r owner now_secs of
        (r, Inl e) \<Rightarrow> (r, Inl e)
      | (r, Inr _) \<Rightarrow>
     (case check_rate r owner now_secs of
        Inl e \<Rightarrow> (r, Inl e)
      | Inr _ \<Rightarrow>
     (case check_available r name now_secs of
        (r, Inl e) \<Rightarrow> (r, Inl e)
      | (r, Inr _) \<Rightarrow> check_cooldown r name now_secs))))"

text \<open>Steps 6 and 7: the proof of work and the signature of a record. A difficulty above 256 bits would panic; the tiers
  are far below.\<close>

definition prove_handle ::
    "prims \<Rightarrow> argon2_fn \<Rightarrow> rstr \<Rightarrow> PseudonymIdentity \<Rightarrow> HandlePowDifficulty \<Rightarrow> u64 \<Rightarrow> (HandleError + PowStamp \<times> Signature) option" where
  "prove_handle P pow_hash name ident difficulty now_secs =
     (let owner = pseudonym_identity_key P ident;
          challenge = build_pow_challenge name owner now_secs
      in case generate_pow pow_hash challenge (difficulty_bits difficulty) of
           Some (Inr pow_proof) \<Rightarrow>
             (case PseudonymIdentity_sign P ident (build_signature_message name owner now_secs) of
                Inl e \<Rightarrow> Some (Inl InvalidSignature)
              | Inr sig_bytes \<Rightarrow>
                  (case Signature_from_slice sig_bytes of
                     None \<Rightarrow> Some (Inl InvalidSignature)
                   | Some signature \<Rightarrow> Some (Inr (pow_proof, signature))))
         | _ \<Rightarrow> None)"

definition register_with_difficulty ::
    "prims \<Rightarrow> argon2_fn \<Rightarrow> HandleRegistry \<Rightarrow> rstr \<Rightarrow> PseudonymIdentity \<Rightarrow> HandlePowDifficulty \<Rightarrow> u64
       \<Rightarrow> (HandleRegistry \<times> (HandleError + Handle)) option" where
  "register_with_difficulty P pow_hash r name ident difficulty now_secs =
     (let owner = pseudonym_identity_key P ident
      in case register_checks r name owner now_secs of
           (r, Inl e) \<Rightarrow> Some (r, Inl e)
         | (r, Inr _) \<Rightarrow>
             (case prove_handle P pow_hash name ident difficulty now_secs of
                None \<Rightarrow> None
              | Some (Inl e) \<Rightarrow> Some (r, Inl e)
              | Some (Inr (pow_proof, signature)) \<Rightarrow>
                  let handle = \<lparr>ha_name = name, ha_owner = owner, ha_registered_at = now_secs,
                        ha_expires_at = now_secs + HANDLE_TTL_SECS, ha_pow_proof = pow_proof, ha_signature = signature\<rparr>;
                      r = store_handle r name handle
                  in Some (r\<lparr>hr_last_registration := hm_insert owner now_secs (hr_last_registration r)\<rparr>, Inr handle)))"

definition handle_register ::
    "prims \<Rightarrow> argon2_fn \<Rightarrow> HandleRegistry \<Rightarrow> rstr \<Rightarrow> PseudonymIdentity \<Rightarrow> u64 \<Rightarrow> (HandleRegistry \<times> (HandleError + Handle)) option" where
  "handle_register P pow_hash r name ident now_secs =
     (let normalized = to_ascii_lowercase name;
          difficulty = calculate_pow_difficulty normalized
      in register_with_difficulty P pow_hash r normalized ident difficulty now_secs)"

definition HandleRegistry_validate :: "prims \<Rightarrow> argon2_fn \<Rightarrow> Handle \<Rightarrow> u64 \<Rightarrow> HandleError + unit" where
  "HandleRegistry_validate P pow_hash h now_secs =
     (case validate_handle_format (ha_name h) of
        Inl e \<Rightarrow> Inl (InvalidFormat e)
      | Inr _ \<Rightarrow>
          if handle_is_expired_at h now_secs then Inl (HandleExpired (ha_name h))
          else if ha_expires_at h \<noteq> ha_registered_at h + HANDLE_TTL_SECS 
          then Inl (HandleInvalidPow ''expires_at does not match registered_at + TTL'')
          else case verify_handle_signature P (ha_name h) (ha_owner h) (ha_registered_at h) (ha_signature h) of
                 Inl _ \<Rightarrow> Inl InvalidSignature
               | Inr _ \<Rightarrow>
                   (case verify_handle_pow pow_hash (ha_name h) (ha_owner h) (ha_registered_at h) (ha_pow_proof h)
                           (calculate_pow_difficulty (ha_name h)) of
                      Inl e \<Rightarrow> Inl (HandleInvalidPow (EphemeraError_to_string e))
                    | Inr _ \<Rightarrow> Inr ()))"

definition handle_lookup :: "HandleRegistry \<Rightarrow> rstr \<Rightarrow> Handle option" where
  "handle_lookup r name = get_handle r (to_ascii_lowercase name)"

definition lookup_by_owner :: "HandleRegistry \<Rightarrow> IdentityKey \<Rightarrow> Handle option" where
  "lookup_by_owner r owner =
     (case hm_get (hr_owner_to_handle r) owner of None \<Rightarrow> None | Some name \<Rightarrow> get_handle r name)"

definition handle_renew ::
    "prims \<Rightarrow> argon2_fn \<Rightarrow> HandleRegistry \<Rightarrow> rstr \<Rightarrow> PseudonymIdentity \<Rightarrow> u64 \<Rightarrow> (HandleRegistry \<times> (HandleError + unit)) option" where
  "handle_renew P pow_hash r name ident now_secs =
     (let owner = pseudonym_identity_key P ident
      in case get_handle r name of
           None \<Rightarrow> Some (r, Inl (HandleExpired name))
         | Some handle \<Rightarrow>
             if ha_owner handle \<noteq> owner then Some (r, Inl (NotOwner name))
             else if handle_is_expired_at handle now_secs then Some (r, Inl (HandleExpired name))
             else case prove_handle P pow_hash name ident Renewal now_secs of
                    None \<Rightarrow> None
                  | Some (Inl e) \<Rightarrow> Some (r, Inl e)
                  | Some (Inr (pow_proof, signature)) \<Rightarrow>
                      let handle = handle\<lparr>ha_registered_at := now_secs, ha_expires_at := now_secs + HANDLE_TTL_SECS,
                                          ha_pow_proof := pow_proof, ha_signature := signature\<rparr>
                      in Some (r\<lparr>hr_handles := hm_insert name handle (hr_handles r)\<rparr>, Inr ()))"

definition handle_release :: "prims \<Rightarrow> HandleRegistry \<Rightarrow> rstr \<Rightarrow> PseudonymIdentity \<Rightarrow> u64 \<Rightarrow> HandleRegistry \<times> (HandleError + unit)" where
  "handle_release P r name ident now_secs =
     (let owner = pseudonym_identity_key P ident
      in case get_handle r name of
           None \<Rightarrow> (r, Inl (NotOwner name))
         | Some handle \<Rightarrow>
             if ha_owner handle \<noteq> owner then (r, Inl (NotOwner name))
             else let r = drop_handle r name owner
                  in (r\<lparr>hr_cooldowns := hm_insert name (now_secs + HANDLE_RELEASE_COOLDOWN_SECS) (hr_cooldowns r)\<rparr>, Inr ()))"

definition resolve_conflict :: "HandleRegistry \<Rightarrow> Handle \<Rightarrow> u64 \<Rightarrow> ConflictResult" where
  "resolve_conflict r incoming now_secs =
     (case get_handle r (ha_name incoming) of
        None \<Rightarrow> Accept
      | Some existing \<Rightarrow>
          if handle_is_expired_at existing now_secs then Accept
          else if ha_registered_at incoming < ha_registered_at existing then IncomingWins
          else if ha_registered_at incoming = ha_registered_at existing
          then (if identity_bytes (ha_owner incoming) < identity_bytes (ha_owner existing) then IncomingWins else ExistingWins)
          else ExistingWins)"

definition insert_validated :: "HandleRegistry \<Rightarrow> Handle \<Rightarrow> u64 \<Rightarrow> HandleRegistry \<times> InsertOutcome" where
  "insert_validated r handle now_secs =
     (case resolve_conflict r handle now_secs of
        ExistingWins \<Rightarrow> (r, Rejected)
      | Accept \<Rightarrow>
          let r = (case get_handle r (ha_name handle) of
                     Some prev \<Rightarrow> r\<lparr>hr_owner_to_handle := hm_remove (ha_owner prev) (hr_owner_to_handle r)\<rparr>
                   | None \<Rightarrow> r)
          in (store_handle r (ha_name handle) handle, HandleInserted)
      | IncomingWins \<Rightarrow>
          let displaced_owner = ha_owner (the (get_handle r (ha_name handle)));
              r = r\<lparr>hr_owner_to_handle := hm_remove displaced_owner (hr_owner_to_handle r)\<rparr>
          in (store_handle r (ha_name handle) handle, Replaced displaced_owner))"

definition handle_gc :: "HandleRegistry \<Rightarrow> u64 \<Rightarrow> HandleRegistry" where
  "handle_gc r now_secs =
     (let expired_names = map fst (filter (\<lambda>(_, h). handle_is_expired_at h now_secs) (hr_handles r));
          r = foldl (\<lambda>r name. case get_handle r name of Some h \<Rightarrow> drop_handle r name (ha_owner h) | None \<Rightarrow> r) r expired_names
      in r\<lparr>hr_cooldowns := filter (\<lambda>(_, until). now_secs < until) (hr_cooldowns r)\<rparr>)"


section \<open>One handle per identity\<close>

text \<open>Every handle is stored under its name and its owner points back at it.\<close>

definition registry_ok :: "HandleRegistry \<Rightarrow> bool" where
  "registry_ok r \<longleftrightarrow>
     (\<forall>name h. get_handle r name = Some h \<longrightarrow> ha_name h = name \<and> hm_get (hr_owner_to_handle r) (ha_owner h) = Some name)"

lemma registry_okD:
  assumes "registry_ok r" and "get_handle r name = Some h"
  shows "ha_name h = name" and "hm_get (hr_owner_to_handle r) (ha_owner h) = Some name"
  using assms by (auto simp: registry_ok_def)

lemma registry_ok_drop:
  assumes "registry_ok r" and "get_handle r name = Some h" and "owner = ha_owner h"
  shows "registry_ok (drop_handle r name owner)"
proof -
  have "hm_get (hr_owner_to_handle r) owner = Some name" using registry_okD(2) [OF assms(1,2)] assms(3) by simp
  moreover have "ha_name h' = n \<and> hm_get (hr_owner_to_handle r) (ha_owner h') = Some n" if "get_handle r n = Some h'" for n h'
    using registry_okD [OF assms(1) that] by simp
  ultimately show ?thesis unfolding registry_ok_def by (fastforce simp: drop_handle_def split: if_splits)
qed

lemma registry_ok_store:
  assumes "registry_ok r" and "get_handle r name = None" and "ha_name h = name"
    and "\<And>n h'. get_handle r n = Some h' \<Longrightarrow> ha_owner h' \<noteq> ha_owner h"
  shows "registry_ok (store_handle r name h)"
  using assms by (auto simp: registry_ok_def store_handle_def)

lemma registry_ok_update:
  assumes "registry_ok r" and "get_handle r name = Some h" and "ha_owner h' = ha_owner h" and "ha_name h' = ha_name h"
  shows "registry_ok (r\<lparr>hr_handles := hm_insert name h' (hr_handles r)\<rparr>)"
  using registry_okD [OF assms(1)] registry_okD [OF assms(1,2)] assms(3,4)
  unfolding registry_ok_def by (simp add: assms(3))

lemma check_owner_ok:
  assumes "registry_ok r"
  shows "registry_ok (fst (check_owner r owner now))"
    and "snd (check_owner r owner now) = Inr () \<Longrightarrow> get_handle (fst (check_owner r owner now)) n = Some h \<Longrightarrow> ha_owner h \<noteq> owner"
proof -
  show "registry_ok (fst (check_owner r owner now))"
    using assms
    by (auto simp: check_owner_def registry_ok_def drop_handle_def split: option.splits dest: spec)
  show "ha_owner h \<noteq> owner"
    if "snd (check_owner r owner now) = Inr ()" "get_handle (fst (check_owner r owner now)) n = Some h"
    using that registry_okD(2) [OF assms, of n h]
    by (auto simp: check_owner_def drop_handle_def split: option.splits if_splits)
qed


lemma check_available_ok:
  assumes "registry_ok r"
  shows "registry_ok (fst (check_available r name now))"
    and "snd (check_available r name now) = Inr () \<Longrightarrow> get_handle (fst (check_available r name now)) name = None"
    and "get_handle (fst (check_available r name now)) n = Some h \<Longrightarrow> get_handle r n = Some h"
  using registry_ok_drop [OF assms, of name _ _] assms
  by (auto simp: check_available_def drop_handle_def split: option.splits if_splits)

lemma check_cooldown_same:
  "hr_handles (fst (check_cooldown r name now)) = hr_handles r"
  "hr_owner_to_handle (fst (check_cooldown r name now)) = hr_owner_to_handle r"
  by (auto simp: check_cooldown_def split: option.split)

lemma register_checks_ok:
  assumes "registry_ok r"
  shows "registry_ok (fst (register_checks r name owner now))"
    and "snd (register_checks r name owner now) = Inr () \<Longrightarrow>
           validate_handle_format name = Inr () \<and> get_handle (fst (register_checks r name owner now)) name = None
           \<and> (\<forall>n h. get_handle (fst (register_checks r name owner now)) n = Some h \<longrightarrow> ha_owner h \<noteq> owner)"
proof -
  obtain r1 x where 1: "check_owner r owner now = (r1, x)" by fastforce
  obtain r2 y where 2: "check_available r1 name now = (r2, y)" by fastforce
  obtain r3 z where 3: "check_cooldown r2 name now = (r3, z)" by fastforce
  have o: "registry_ok r1" "x = Inr () \<Longrightarrow> get_handle r1 n = Some h \<Longrightarrow> ha_owner h \<noteq> owner" for n h
    using check_owner_ok [OF assms, of owner now] by (simp_all add: 1)
  have a: "registry_ok r2" "y = Inr () \<Longrightarrow> get_handle r2 name = None" "get_handle r2 n = Some h \<Longrightarrow> get_handle r1 n = Some h" for n h
    using check_available_ok [OF o(1), of name now] by (simp_all add: 2)
  have c: "hr_handles r3 = hr_handles r2" "hr_owner_to_handle r3 = hr_owner_to_handle r2"
    using check_cooldown_same [of r2 name now] by (simp_all add: 3)
  have c_ok: "registry_ok r3" using a(1) by (simp add: registry_ok_def c)
  show "registry_ok (fst (register_checks r name owner now))"
    using assms o(1) a(1) c_ok by (auto simp: register_checks_def 1 2 3 split: sum.split)
  show "validate_handle_format name = Inr () \<and> get_handle (fst (register_checks r name owner now)) name = None
           \<and> (\<forall>n h. get_handle (fst (register_checks r name owner now)) n = Some h \<longrightarrow> ha_owner h \<noteq> owner)"
    if "snd (register_checks r name owner now) = Inr ()"
    using that o(2) a(2,3) by (auto simp: register_checks_def 1 2 3 c split: sum.splits)
qed

lemma register_ok [inv_intro]:
  assumes "registry_ok r" and "register_with_difficulty P pow_hash r name ident d now = Some (r', res)"
  shows "registry_ok r'"
proof -
  let ?o = "pseudonym_identity_key P ident"
  obtain r1 x where 1: "register_checks r name ?o now = (r1, x)" by fastforce
  have ok: "registry_ok r1" using register_checks_ok(1) [OF assms(1), of name ?o now] by (simp add: 1)
  show ?thesis
  proof (cases x)
    case (Inl e)
    then show ?thesis using assms(2) ok by (simp add: register_with_difficulty_def 1 Let_def)
  next
    case (Inr u)
    have n: "get_handle r1 name = None" "\<And>n h. get_handle r1 n = Some h \<Longrightarrow> ha_owner h \<noteq> ?o"
      using register_checks_ok(2) [OF assms(1), of name ?o now] by (simp_all add: 1 Inr)
    have st: "registry_ok (store_handle r1 name h)" if "ha_name h = name" "ha_owner h = ?o" for h
      using registry_ok_store [OF ok n(1)] n(2) that by metis
    have same: "registry_ok (s\<lparr>hr_last_registration := l\<rparr>) = registry_ok s" for s l
      by (simp add: registry_ok_def)
    from assms(2) show ?thesis
      using ok by (auto simp: register_with_difficulty_def 1 Inr Let_def same intro!: st split: option.splits sum.splits)
  qed
qed

lemma renew_ok [inv_intro]:
  assumes "registry_ok r" and "handle_renew P pow_hash r name ident now = Some (r', res)"
  shows "registry_ok r'"
  using assms by (auto simp: handle_renew_def Let_def intro!: registry_ok_update split: option.splits if_splits sum.splits)

lemma release_ok [inv_intro]:
  assumes "registry_ok r"
  shows "registry_ok (fst (handle_release P r name ident now))"
proof -
  have same: "registry_ok (s\<lparr>hr_cooldowns := c\<rparr>) = registry_ok s" for s c by (simp add: registry_ok_def)
  show ?thesis
    using assms by (auto simp: handle_release_def Let_def same split: option.split intro!: registry_ok_drop)
qed

lemma gc_ok [inv_intro]:
  assumes "registry_ok r"
  shows "registry_ok (handle_gc r now)"
proof -
  let ?f = "\<lambda>r name. case get_handle r name of Some h \<Rightarrow> drop_handle r name (ha_owner h) | None \<Rightarrow> r"
  have "registry_ok (foldl ?f r names)" for names
    using assms
  proof (induction names arbitrary: r)
    case (Cons n ns)
    then show ?case by (auto simp: registry_ok_drop split: option.split)
  qed simp
  then show ?thesis by (simp add: handle_gc_def registry_ok_def Let_def)
qed

text \<open>A registry that is only changed by its own node.\<close>

inductive local_registry :: "prims \<Rightarrow> argon2_fn \<Rightarrow> HandleRegistry \<Rightarrow> bool" for P pow_hash where
  local_new: "local_registry P pow_hash HandleRegistry_new"
| local_register: "local_registry P pow_hash r \<Longrightarrow> handle_register P pow_hash r name ident now = Some (r', res)
    \<Longrightarrow> local_registry P pow_hash r'"
| local_renew: "local_registry P pow_hash r \<Longrightarrow> handle_renew P pow_hash r name ident now = Some (r', res)
    \<Longrightarrow> local_registry P pow_hash r'"
| local_release: "local_registry P pow_hash r \<Longrightarrow> local_registry P pow_hash (fst (handle_release P r name ident now))"
| local_gc: "local_registry P pow_hash r \<Longrightarrow> local_registry P pow_hash (handle_gc r now)"

lemma local_registry_ok: "local_registry P pow_hash r \<Longrightarrow> registry_ok r"
proof (induction rule: local_registry.induct)
  case local_new
  show ?case by (simp add: registry_ok_def HandleRegistry_new_def)
next
  case (local_register r name ident now r' res)
  then show ?case using register_ok by (auto simp: handle_register_def Let_def)
qed (auto intro: inv_intro)

text \<open>C22: registration, renewal, release and garbage collection keep one handle per identity: in a registry they
  built, every handle is found under its name and by its owner, and no identity holds two.\<close>

theorem one_handle_per_identity:
  assumes "local_registry P pow_hash r" and "get_handle r name = Some h"
  shows "ha_name h = name \<and> lookup_by_owner r (ha_owner h) = Some h
     \<and> (\<forall>name' h'. get_handle r name' = Some h' \<and> ha_owner h' = ha_owner h \<longrightarrow> name' = name)"
proof -
  note ok = local_registry_ok [OF assms(1)]
  have o: "hm_get (hr_owner_to_handle r) (ha_owner h) = Some name" by (rule registry_okD(2) [OF ok assms(2)])
  then have "name' = name" if "get_handle r name' = Some h'" "ha_owner h' = ha_owner h" for name' h'
    using registry_okD(2) [OF ok that(1)] that(2) by simp
  moreover have "lookup_by_owner r (ha_owner h) = Some h" by (simp add: lookup_by_owner_def o assms(2))
  ultimately show ?thesis using registry_okD(1) [OF ok assms(2)] by blast
qed


section \<open>What a registration proves\<close>

lemma generate_pow_stamp:
  assumes "generate_pow pow_hash challenge d = Some (Inr stamp)"
  shows "ps_challenge stamp = challenge" and "ps_difficulty stamp = d"
    and "has_leading_zeros (pow_hash challenge (ps_nonce stamp)) d"
proof -
  have "generate_pow_loop pow_hash challenge d 0 = Some stamp"
    using assms by (auto simp: generate_pow_def split: if_splits)
  then obtain n where "crypto_attempt pow_hash challenge d n = Some stamp" using generate_pow_loop_sound by blast
  then show "ps_challenge stamp = challenge" and "ps_difficulty stamp = d"
    and "has_leading_zeros (pow_hash challenge (ps_nonce stamp)) d"
    by (auto simp: crypto_attempt_def Let_def split: if_splits)
qed

lemma prove_handle_verifies:
  assumes "prims_ok P" and "prove_handle P pow_hash name ident d now = Some res"
  obtains stamp sig where "res = Inr (stamp, sig)"
    and "verify_handle_signature P name (pseudonym_identity_key P ident) now sig = Inr ()"
    and "verify_pow pow_hash stamp (build_pow_challenge name (pseudonym_identity_key P ident) now) m = Inr ()
           \<longleftrightarrow> m \<le> difficulty_bits d"
    and "ps_difficulty stamp = difficulty_bits d"
    and "ps_challenge stamp = build_pow_challenge name (pseudonym_identity_key P ident) now"
proof -
  let ?o = "pseudonym_identity_key P ident"
  obtain sig where sig: "PseudonymIdentity_sign P ident (build_signature_message name ?o now) = Inr sig"
      "Signature_from_slice sig = Some (Signature sig)"
      "verify_signature P ?o (build_signature_message name ?o now) (Signature sig) = Inr ()"
    using pseudonym_signature_verifies [OF assms(1)] by blast
  from assms(2) sig obtain stamp where g: "generate_pow pow_hash (build_pow_challenge name ?o now) (difficulty_bits d) = Some (Inr stamp)"
    and res: "res = Inr (stamp, Signature sig)"
    by (auto simp: prove_handle_def Let_def split: option.splits sum.splits)
  show ?thesis
    by (rule that [OF res]) (use generate_pow_stamp [OF g] sig(3) in \<open>auto simp: verify_handle_signature_def verify_pow_def not_less\<close>)
qed

text \<open>C21: what a registration returns, every node accepts: the record carries the caller's key and the normalised name
  and passes \<^verbatim>\<open>validate\<close> (format, life time, signature, proof of work at the difficulty its length requires) at any
  moment of its ninety days.\<close>

theorem registered_handle_validates:
  assumes "prims_ok P" and "handle_register P pow_hash r name ident now = Some (r', Inr h)"
    and "unat now + 90 * 86400 < 2 ^ 64" and "now \<le> t" and "unat t < unat now + 90 * 86400"
  shows "HandleRegistry_validate P pow_hash h t = Inr () \<and> ha_owner h = pseudonym_identity_key P ident
     \<and> ha_name h = to_ascii_lowercase name \<and> handle_lookup r' (ha_name h) = Some h"
proof -
  let ?n = "to_ascii_lowercase name" and ?o = "pseudonym_identity_key P ident"
  let ?d = "calculate_pow_difficulty ?n"
  obtain r1 x where c: "register_checks r ?n ?o now = (r1, x)" by fastforce
  from assms(2) obtain stamp sig where x: "x = Inr ()"
      and p: "prove_handle P pow_hash ?n ident ?d now = Some (Inr (stamp, sig))"
      and h: "h = \<lparr>ha_name = ?n, ha_owner = ?o, ha_registered_at = now, ha_expires_at = now + HANDLE_TTL_SECS,
                ha_pow_proof = stamp, ha_signature = sig\<rparr>"
      and r': "get_handle r' ?n = Some h"
    by (auto simp: handle_register_def register_with_difficulty_def Let_def c store_handle_def split: option.splits sum.splits)
  have v: "verify_handle_signature P ?n ?o now sig = Inr ()" "verify_handle_pow pow_hash ?n ?o now stamp ?d = Inr ()"
    by (rule prove_handle_verifies [OF assms(1) p, of "difficulty_bits ?d"]; simp add: verify_handle_pow_def)+
  have "snd (register_checks r ?n ?o now) = Inr ()" by (simp add: c x)
  then have f: "validate_handle_format ?n = Inr ()"
    by (auto simp: register_checks_def split: sum.splits prod.splits)
  have "unat (now + HANDLE_TTL_SECS) = unat now + 90 * 86400"
    using assms(3) by (subst unat_add_exact) (simp_all add: HANDLE_TTL_SECS_def)
  then have e: "\<not> handle_is_expired_at h t" using assms(5) by (simp add: h handle_is_expired_at_def word_le_nat_alt)
  have "to_ascii_lowercase ?n = ?n" by (auto simp: to_ascii_lowercase_def)
  then show ?thesis
    using f e v r' by (auto simp: HandleRegistry_validate_def h handle_lookup_def split: sum.split)
qed

text \<open>A renewed record carries a proof of work at the renewal difficulty, which is below what \<^verbatim>\<open>validate\<close> asks of a name
  of any length: no other node accepts the renewal.\<close>

lemma renewed_handle_rejected:
  assumes "prims_ok P" and "handle_renew P pow_hash r name ident now = Some (r', Inr ())"
  obtains h where "get_handle r' name = Some h"
    and "\<And>t. ha_name h = name \<Longrightarrow> HandleRegistry_validate P pow_hash h t \<noteq> Inr ()"
proof -
  let ?o = "pseudonym_identity_key P ident"
  from assms(2) obtain h0 stamp sig where p: "prove_handle P pow_hash name ident Renewal now = Some (Inr (stamp, sig))"
    and o: "ha_owner h0 = ?o"
    and g: "get_handle r' name = Some (h0\<lparr>ha_registered_at := now, ha_expires_at := now + HANDLE_TTL_SECS,
              ha_pow_proof := stamp, ha_signature := sig\<rparr>)"
    by (auto simp: handle_renew_def Let_def split: option.splits if_splits sum.splits)
  have st: "ps_difficulty stamp = difficulty_bits Renewal"
    by (rule prove_handle_verifies [OF assms(1) p]) auto
  have "difficulty_bits Renewal < difficulty_bits (calculate_pow_difficulty name)"
    by (simp add: calculate_pow_difficulty_def POW_DIFFICULTY_RENEWAL_def POW_DIFFICULTY_HIGH_def
        POW_DIFFICULTY_MEDIUM_def POW_DIFFICULTY_LOW_def Let_def)
  then have "verify_handle_pow pow_hash name owner t stamp (calculate_pow_difficulty name) \<noteq> Inr ()" for owner t
    by (simp add: verify_handle_pow_def verify_pow_def st)
  then show ?thesis
    by (intro that [OF g]) (auto simp: HandleRegistry_validate_def split: sum.split)
qed

section \<open>Records from the network\<close>

text \<open>Which of two claims to a name is the better one: the earlier, and for equal times the lower key.\<close>

definition beats :: "Handle \<Rightarrow> Handle \<Rightarrow> bool" where
  "beats h h' \<longleftrightarrow> ha_registered_at h < ha_registered_at h'
     \<or> ha_registered_at h = ha_registered_at h' \<and> identity_bytes (ha_owner h) < identity_bytes (ha_owner h')"

lemma beats_trans: "beats a b \<Longrightarrow> beats b c \<Longrightarrow> beats a c"
  by (auto simp: beats_def)

lemma beats_trans_neg: "\<not> beats a b \<Longrightarrow> \<not> beats b c \<Longrightarrow> \<not> beats a c"
  by (auto simp: beats_def not_less)

lemma beats_antisym: "\<not> beats a b \<Longrightarrow> \<not> beats b a \<Longrightarrow> ha_registered_at a = ha_registered_at b \<and> ha_owner a = ha_owner b"
  by (auto simp: beats_def not_less IdentityKey.expand)

lemma insert_validated_get:
  "get_handle (fst (insert_validated r h now)) n =
     (if n = ha_name h \<and> (\<forall>e. get_handle r n = Some e \<and> \<not> handle_is_expired_at e now \<longrightarrow> beats h e)
      then Some h else get_handle r n)"
  by (auto simp: insert_validated_def resolve_conflict_def store_handle_def beats_def Let_def split: option.split)

definition receive_handles :: "(Handle \<times> u64) list \<Rightarrow> HandleRegistry" where
  "receive_handles ins = foldl (\<lambda>r (h, now). fst (insert_validated r h now)) HandleRegistry_new ins"

definition never_expired :: "(Handle \<times> u64) list \<Rightarrow> bool" where
  "never_expired ins \<longleftrightarrow> (\<forall>(h, _) \<in> set ins. \<forall>(_, now) \<in> set ins. \<not> handle_is_expired_at h now)"

lemma receive_handles_best:
  assumes "never_expired ins"
  shows "case get_handle (receive_handles ins) n of
      None \<Rightarrow> \<forall>h \<in> fst ` set ins. ha_name h \<noteq> n
    | Some w \<Rightarrow> ha_name w = n \<and> w \<in> fst ` set ins \<and> (\<forall>h \<in> fst ` set ins. ha_name h = n \<longrightarrow> \<not> beats h w)"
  using assms
proof (induction ins rule: rev_induct)
  case Nil
  show ?case by (simp add: receive_handles_def HandleRegistry_new_def)
next
  case (snoc x ins)
  obtain h now where x: "x = (h, now)" by fastforce
  let ?r = "receive_handles ins"
  have r: "receive_handles (ins @ [x]) = fst (insert_validated ?r h now)" by (simp add: receive_handles_def x)
  have "never_expired ins" using snoc.prems by (auto simp: never_expired_def)
  note IH = snoc.IH [OF this]
  show ?case
  proof (cases "get_handle ?r n")
    case None
    then have "get_handle (receive_handles (ins @ [x])) n = (if n = ha_name h then Some h else None)"
      by (simp add: r insert_validated_get)
    then show ?thesis using IH None by (auto simp: x beats_def)
  next
    case (Some e)
    then have e: "ha_name e = n" "e \<in> fst ` set ins" "\<forall>h \<in> fst ` set ins. ha_name h = n \<longrightarrow> \<not> beats h e" using IH by auto
    have ne: "\<not> handle_is_expired_at e now" using snoc.prems e(2) by (fastforce simp: never_expired_def x)
    show ?thesis
    proof (cases "n = ha_name h \<and> beats h e")
      case True
      then have "get_handle (receive_handles (ins @ [x])) n = Some h" using Some by (auto simp: r insert_validated_get)
      moreover have "\<not> beats h' h" if "h' \<in> fst ` set ins" "ha_name h' = n" for h'
        using e(3) that True beats_trans by blast
      ultimately show ?thesis using True by (auto simp: x beats_def)
    next
      case False
      then have "get_handle (receive_handles (ins @ [x])) n = Some e" by (auto simp: r insert_validated_get Some ne)
      then show ?thesis using e False by (auto simp: x)
    qed
  qed
qed

text \<open>C3: nodes agree on who owns a handle. Whatever order the records of a name arrive in, and however often, nodes
  that have received the same unexpired records resolve the name to the same owner and registration: the earliest one,
  and among equally early ones the one of the lowest key.\<close>

theorem handles_converge:
  assumes "never_expired ins" and "never_expired ins'" and "fst ` set ins = fst ` set ins'"
  shows "map_option (\<lambda>h. (ha_owner h, ha_registered_at h)) (get_handle (receive_handles ins) n)
       = map_option (\<lambda>h. (ha_owner h, ha_registered_at h)) (get_handle (receive_handles ins') n)
     \<and> (\<forall>w. get_handle (receive_handles ins) n = Some w \<longrightarrow>
          (\<forall>h \<in> fst ` set ins. ha_name h = n \<longrightarrow> \<not> beats h w))"
proof -
  note b = receive_handles_best [OF assms(1), of n] receive_handles_best [OF assms(2), of n]
  show ?thesis
  proof (cases "get_handle (receive_handles ins) n")
    case None
    then show ?thesis
      using b unfolding assms(3) by (cases "get_handle (receive_handles ins') n") auto
  next
    case (Some w)
    note w = b(1) [unfolded Some option.case assms(3)]
    show ?thesis
    proof (cases "get_handle (receive_handles ins') n")
      case None
      then show ?thesis using b(2) w by auto
    next
      case (Some w')
      note w' = b(2) [unfolded Some option.case]
      have "ha_registered_at w = ha_registered_at w' \<and> ha_owner w = ha_owner w'"
        using w w' by (intro beats_antisym) auto
      then show ?thesis using w Some \<open>get_handle (receive_handles ins) n = Some w\<close> unfolding assms(3) by simp
    qed
  qed
qed


section \<open>Examples\<close>

definition toy_ident :: PseudonymIdentity where
  "toy_ident = \<lparr>pi_key_pair = KeyPair (replicate 32 5), pi_index = 0\<rparr>"

abbreviation toy_hash :: argon2_fn where
  "toy_hash \<equiv> \<lambda>c n. replicate 32 0"

lemma toy_pow:
  assumes "d \<le> 256"
  shows "\<exists>stamp. generate_pow toy_hash c d = Some (Inr stamp)"
proof -
  have "has_leading_zeros (replicate 32 0) d"
    by (simp add: has_leading_zeros_def Let_def list_ex_iff)
  then show ?thesis using assms by (simp add: generate_pow_def, subst generate_pow_loop.simps) (simp add: Let_def)
qed

lemma toy_register:
  obtains r h where "handle_register toy_prims toy_hash HandleRegistry_new (of_ascii ''Alice'') toy_ident 1000 = Some (r, Inr h)"
    and "get_handle r (of_ascii ''alice'') = Some h" and "ha_name h = of_ascii ''alice''"
proof -
  let ?n = "of_ascii ''alice''" and ?o = "pseudonym_identity_key toy_prims toy_ident"
  have n: "to_ascii_lowercase (of_ascii ''Alice'') = ?n" "validate_handle_format ?n = Inr ()"
      "calculate_pow_difficulty ?n = High"
    by code_simp+
  have c: "register_checks HandleRegistry_new ?n ?o 1000 = (HandleRegistry_new, Inr ())"
    by (simp add: register_checks_def n check_owner_def check_rate_def check_available_def check_cooldown_def HandleRegistry_new_def)
  obtain stamp where g: "generate_pow toy_hash (build_pow_challenge ?n ?o 1000) (difficulty_bits High) = Some (Inr stamp)"
    using toy_pow [of "difficulty_bits High"] by (auto simp: POW_DIFFICULTY_HIGH_def)
  obtain sig where sig: "PseudonymIdentity_sign toy_prims toy_ident (build_signature_message ?n ?o 1000) = Inr sig"
      "Signature_from_slice sig = Some (Signature sig)"
    using pseudonym_signature_verifies [OF toy_prims_ok] by blast
  have p: "prove_handle toy_prims toy_hash ?n toy_ident High 1000 = Some (Inr (stamp, Signature sig))"
    using g sig by (simp add: prove_handle_def Let_def)
  have "handle_register toy_prims toy_hash HandleRegistry_new (of_ascii ''Alice'') toy_ident 1000 \<noteq> None"
    by (simp add: handle_register_def register_with_difficulty_def n c p Let_def)
  show ?thesis
    by (rule that, unfold handle_register_def register_with_difficulty_def Let_def n c p, simp)
      (simp_all add: store_handle_def)
qed

theorem one_handle_per_identity_witness:
  "\<exists>r h. local_registry toy_prims toy_hash r \<and> get_handle r (of_ascii ''alice'') = Some h
     \<and> lookup_by_owner r (ha_owner h) = Some h"
proof -
  obtain r h where r: "handle_register toy_prims toy_hash HandleRegistry_new (of_ascii ''Alice'') toy_ident 1000 = Some (r, Inr h)"
      "get_handle r (of_ascii ''alice'') = Some h"
    by (rule toy_register)
  have "local_registry toy_prims toy_hash r" by (rule local_register [OF local_new r(1)])
  then show ?thesis using one_handle_per_identity [of toy_prims toy_hash r] r(2) by blast
qed

theorem registered_handle_validates_witness:
  "\<exists>r h. handle_register toy_prims toy_hash HandleRegistry_new (of_ascii ''Alice'') toy_ident 1000 = Some (r, Inr h)
     \<and> HandleRegistry_validate toy_prims toy_hash h 5000 = Inr ()"
proof -
  obtain r h where r: "handle_register toy_prims toy_hash HandleRegistry_new (of_ascii ''Alice'') toy_ident 1000 = Some (r, Inr h)"
    by (rule toy_register)
  show ?thesis using registered_handle_validates [OF toy_prims_ok r, of 5000] r by auto
qed

definition example_handle :: "string \<Rightarrow> u8 \<Rightarrow> u64 \<Rightarrow> Handle" where
  "example_handle name key t =
     \<lparr>ha_name = of_ascii name, ha_owner = IdentityKey (replicate 32 key), ha_registered_at = t,
      ha_expires_at = t + HANDLE_TTL_SECS, ha_pow_proof = \<lparr>ps_challenge = [], ps_nonce = [], ps_difficulty = 0\<rparr>,
      ha_signature = Signature []\<rparr>"

theorem handles_converge_witness:
  "let a = (example_handle ''bob'' 1 10, 20); b = (example_handle ''bob'' 2 5, 21) in
   map_option (\<lambda>h. (ha_owner h, ha_registered_at h)) (get_handle (receive_handles [a, b]) (of_ascii ''bob''))
   = map_option (\<lambda>h. (ha_owner h, ha_registered_at h)) (get_handle (receive_handles [b, a]) (of_ascii ''bob''))"
proof -
  have "never_expired [(example_handle ''bob'' 1 10, 20), (example_handle ''bob'' 2 5, 21)]"
    "never_expired [(example_handle ''bob'' 2 5, 21), (example_handle ''bob'' 1 10, 20)]"
    by (simp_all add: never_expired_def handle_is_expired_at_def example_handle_def HANDLE_TTL_SECS_def)
  from handles_converge [OF this] show ?thesis unfolding Let_def by (simp add: insert_commute)
qed

text \<open>Records from the network are not held to one handle per identity: a second record of the same owner is stored
  beside the first, and collecting the first later removes the owner's entry although the second is still active.\<close>

lemma network_breaks_one_handle:
  "let a = example_handle ''first'' 7 10; b = example_handle ''second'' 7 20;
       r = receive_handles [(a, 30), (b, 30)]; r' = handle_gc r (10 + HANDLE_TTL_SECS) in
   get_handle r (of_ascii ''first'') = Some a \<and> get_handle r (of_ascii ''second'') = Some b \<and> ha_owner a = ha_owner b
   \<and> get_handle r' (of_ascii ''second'') = Some b \<and> lookup_by_owner r' (ha_owner b) = None"
  by code_simp

end
