(* ===== verification/Social_Groups.thy ===== *)
theory Social_Groups
  imports Social_Graph Handles
begin

text \<open>
  Crate \<^verbatim>\<open>ephemera-social\<close>, files \<^verbatim>\<open>group.rs\<close>, \<^verbatim>\<open>group_chat.rs\<close>, \<^verbatim>\<open>feed.rs\<close> (its page types),
  \<^verbatim>\<open>store/group.rs\<close> and \<^verbatim>\<open>store/group_chat.rs\<close>: groups with roles, bans and posts, and group chats, over SQL tables. The
  database record extends that of the social graph. BLAKE3 and the hex crate are the fields of \<open>ext\<close>. The text of an
  error of the database itself is left out (\<open>Storage\<close> with an empty text).
\<close>

section \<open>Groups and roles\<close>

definition MAX_GROUP_NAME_LEN :: nat where "MAX_GROUP_NAME_LEN = 50"
definition MAX_GROUP_DESCRIPTION_LEN :: nat where "MAX_GROUP_DESCRIPTION_LEN = 500"

datatype SocialError =
    Validation rstr
  | NotFound rstr
  | ConnectionErr ConnectionError
  | Storage rstr
  | PermissionDenied rstr
  | SocialRateLimited rstr u64

datatype GroupVisibility = Public | Private | Secret

fun visibility_as_str :: "GroupVisibility \<Rightarrow> string" where
  "visibility_as_str Public = ''public''"
| "visibility_as_str Private = ''private''"
| "visibility_as_str Secret = ''secret''"

definition visibility_from_str_lossy :: "string \<Rightarrow> GroupVisibility" where
  "visibility_from_str_lossy s = (if s = ''private'' then Private else if s = ''secret'' then Secret else Public)"

datatype GroupRole = Owner | Admin | Moderator | Member

fun role_as_u8 :: "GroupRole \<Rightarrow> nat" where
  "role_as_u8 Owner = 0"
| "role_as_u8 Admin = 1"
| "role_as_u8 Moderator = 2"
| "role_as_u8 Member = 3"

text \<open>The derived order: a higher privilege is the smaller value.\<close>

instantiation GroupRole :: linorder
begin

definition less_eq_GroupRole :: "GroupRole \<Rightarrow> GroupRole \<Rightarrow> bool" where
  "less_eq_GroupRole a b \<longleftrightarrow> role_as_u8 a \<le> role_as_u8 b"

definition less_GroupRole :: "GroupRole \<Rightarrow> GroupRole \<Rightarrow> bool" where
  "less_GroupRole a b \<longleftrightarrow> role_as_u8 a < role_as_u8 b"

instance
proof
  fix a b :: GroupRole
  show "a = b" if "a \<le> b" "b \<le> a"
    using that by (cases a; cases b) (simp_all add: less_eq_GroupRole_def)
qed (auto simp: less_eq_GroupRole_def less_GroupRole_def)

end

fun role_as_str :: "GroupRole \<Rightarrow> string" where
  "role_as_str Owner = ''owner''"
| "role_as_str Admin = ''admin''"
| "role_as_str Moderator = ''moderator''"
| "role_as_str Member = ''member''"

definition role_from_str_lossy :: "string \<Rightarrow> GroupRole" where
  "role_from_str_lossy s =
     (if s = ''owner'' then Owner else if s = ''admin'' then Admin else if s = ''moderator'' then Moderator else Member)"

definition can_set_role :: "GroupRole \<Rightarrow> GroupRole \<Rightarrow> bool" where
  "can_set_role r target \<longleftrightarrow> role_as_u8 r < role_as_u8 target"

definition can_kick :: "GroupRole \<Rightarrow> bool" where "can_kick r \<longleftrightarrow> r \<in> {Owner, Admin, Moderator}"
definition can_ban :: "GroupRole \<Rightarrow> bool" where "can_ban r \<longleftrightarrow> r \<in> {Owner, Admin}"
definition can_invite :: "GroupRole \<Rightarrow> bool" where "can_invite r \<longleftrightarrow> r \<in> {Owner, Admin, Moderator}"
definition can_edit_info :: "GroupRole \<Rightarrow> bool" where "can_edit_info r \<longleftrightarrow> r \<in> {Owner, Admin}"
definition can_delete_posts :: "GroupRole \<Rightarrow> bool" where "can_delete_posts r \<longleftrightarrow> r \<in> {Owner, Admin, Moderator}"
definition can_delete_group :: "GroupRole \<Rightarrow> bool" where "can_delete_group r \<longleftrightarrow> r = Owner"

record Group =
  g_group_id :: string
  g_name :: rstr
  g_handle :: "rstr option"
  g_description :: "rstr option"
  g_avatar_cid :: "string option"
  g_visibility :: GroupVisibility
  g_created_by :: string
  g_created_at :: Timestamp

record GroupMember =
  gm_group_id :: string
  gm_member_pubkey :: string
  gm_role :: GroupRole
  gm_joined_at :: Timestamp
  gm_invited_by :: "string option"

record GroupInfo =
  gi_group :: Group
  gi_member_count :: u32
  gi_my_role :: "GroupRole option"

text \<open>The hash and hex libraries.\<close>

record ext =
  x_blake3 :: "bytes \<Rightarrow> bytes"
  x_hex :: "bytes \<Rightarrow> string"
  x_unhex :: "string \<Rightarrow> bytes option"

definition group_id_from_name :: "ext \<Rightarrow> rstr \<Rightarrow> string" where
  "group_id_from_name X name = x_hex X (x_blake3 X (as_bytes name))"

definition validate_group_name :: "rstr \<Rightarrow> SocialError + unit" where
  "validate_group_name name =
     (if name = [] then Inl (Validation (of_ascii ''group name cannot be empty''))
      else if char_count name > MAX_GROUP_NAME_LEN
      then Inl (Validation (of_ascii (''group name is '' @ show_nat (char_count name) @ '' chars, max is ''
                  @ show_nat MAX_GROUP_NAME_LEN)))
      else Inr ())"

definition validate_group_description :: "rstr \<Rightarrow> SocialError + unit" where
  "validate_group_description desc =
     (if char_count desc > MAX_GROUP_DESCRIPTION_LEN
      then Inl (Validation (of_ascii (''group description is '' @ show_nat (char_count desc) @ '' chars, max is ''
                  @ show_nat MAX_GROUP_DESCRIPTION_LEN)))
      else Inr ())"

section \<open>Tables\<close>

record GroupRow =
  gr_name :: rstr
  gr_handle :: "rstr option"
  gr_description :: "rstr option"
  gr_avatar_cid :: "string option"
  gr_visibility :: string
  gr_created_by :: string
  gr_created_at :: int

record MemberRow =
  mr_role :: string
  mr_joined_at :: int
  mr_invited_by :: "string option"

record BanRow =
  br_banned_by :: string
  br_reason :: "rstr option"
  br_banned_at :: int

record GroupPostRow =
  gp_author_pubkey :: string
  gp_created_at :: int

record ChatRow =
  ch_name :: "rstr option"
  ch_is_group_linked :: bool
  ch_group_id :: "string option"
  ch_created_at :: int

record ChatMessageRow =
  cm_chat_id :: string
  cm_sender_pubkey :: string
  cm_body :: "rstr option"
  cm_created_at :: int
  cm_expires_at :: int

record social_db = graph_db +
  db_groups :: "(string, GroupRow) hash_map"
  db_members :: "(string \<times> string, MemberRow) hash_map"
  db_bans :: "(string \<times> string, BanRow) hash_map"
  db_posts :: "(string \<times> bytes, GroupPostRow) hash_map"
  db_chats :: "(string, ChatRow) hash_map"
  db_chat_members :: "(string \<times> string, int) hash_map"
  db_chat_messages :: "(string, ChatMessageRow) hash_map"

text \<open>\<^verbatim>\<open>INSERT OR IGNORE\<close>, and \<^verbatim>\<open>DELETE\<close> by a condition on the key and the row.\<close>

definition insert_or_ignore :: "'k \<Rightarrow> 'v \<Rightarrow> ('k, 'v) hash_map \<Rightarrow> ('k, 'v) hash_map" where
  "insert_or_ignore k v m = (if hm_contains m k then m else hm_insert k v m)"

definition update_row :: "'k \<Rightarrow> ('v \<Rightarrow> 'v) \<Rightarrow> ('k, 'v) hash_map \<Rightarrow> ('k, 'v) hash_map" where
  "update_row k f m = (case hm_get m k of None \<Rightarrow> m | Some v \<Rightarrow> hm_insert k (f v) m)"

definition delete_where :: "('k \<Rightarrow> 'v \<Rightarrow> bool) \<Rightarrow> ('k, 'v) hash_map \<Rightarrow> ('k, 'v) hash_map" where
  "delete_where c m = filter (\<lambda>(k, v). \<not> c k v) m"

section \<open>Group operations of the store\<close>

definition create_group ::
    "ext \<Rightarrow> social_db \<Rightarrow> rstr \<Rightarrow> rstr option \<Rightarrow> GroupVisibility \<Rightarrow> string \<Rightarrow> int \<Rightarrow> social_db \<times> (SocialError + Group)" where
  "create_group X db name description visibility creator_pubkey created_at =
     (case validate_group_name name of
        Inl e \<Rightarrow> (db, Inl e)
      | Inr _ \<Rightarrow>
     (case (case description of Some desc \<Rightarrow> validate_group_description desc | None \<Rightarrow> Inr ()) of
        Inl e \<Rightarrow> (db, Inl e)
      | Inr _ \<Rightarrow>
          let group_id = group_id_from_name X name in
          if hm_contains (db_groups db) group_id \<or> list_ex (\<lambda>(_, g). gr_name g = name) (db_groups db)
          then (db, Inl (Validation (of_ascii ''group '' @ [39] @ name @ [39] @ of_ascii '' already exists'')))
          else
            let db = db\<lparr>db_groups := hm_insert group_id
                  \<lparr>gr_name = name, gr_handle = None, gr_description = description, gr_avatar_cid = None,
                   gr_visibility = visibility_as_str visibility, gr_created_by = creator_pubkey, gr_created_at = created_at\<rparr>
                  (db_groups db)\<rparr>
            in if hm_contains (db_members db) (group_id, creator_pubkey) then (db, Inl (Storage []))
               else (db\<lparr>db_members := hm_insert (group_id, creator_pubkey)
                          \<lparr>mr_role = ''owner'', mr_joined_at = created_at, mr_invited_by = None\<rparr> (db_members db)\<rparr>,
                     Inr \<lparr>g_group_id = group_id, g_name = name, g_handle = None, g_description = description,
                          g_avatar_cid = None, g_visibility = visibility, g_created_by = creator_pubkey,
                          g_created_at = Timestamp_from_secs (as_u64 created_at)\<rparr>)))"

text \<open>The texts of the format errors.\<close>

fun handle_error_to_string :: "HandleValidationError \<Rightarrow> rstr" where
  "handle_error_to_string (TooShort len) =
     of_ascii (''handle too short: '' @ show_nat len @ '' chars, minimum is '' @ show_nat MIN_HANDLE_LEN)"
| "handle_error_to_string (TooLong len) =
     of_ascii (''handle too long: '' @ show_nat len @ '' chars, maximum is '' @ show_nat MAX_HANDLE_LEN)"
| "handle_error_to_string (InvalidCharacter ch pos) =
     of_ascii ''handle contains invalid character '' @ [39, ch, 39]
       @ of_ascii ('' at position '' @ show_nat pos @ '': only lowercase a-z, 0-9, and underscores are allowed'')"
| "handle_error_to_string StartsWithUnderscore = of_ascii ''handle must not start with an underscore''"
| "handle_error_to_string EndsWithUnderscore = of_ascii ''handle must not end with an underscore''"
| "handle_error_to_string ConsecutiveUnderscores = of_ascii ''handle must not contain consecutive underscores''"
| "handle_error_to_string (Reserved name) = of_ascii ''handle '' @ [39] @ name @ [39] @ of_ascii '' is reserved''"
| "handle_error_to_string StartsWithDigit = of_ascii ''handle must not start with a digit''"

definition register_group_handle :: "social_db \<Rightarrow> string \<Rightarrow> rstr \<Rightarrow> social_db \<times> (SocialError + unit)" where
  "register_group_handle db group_id handle =
     (case validate_handle_format handle of
        Inl e \<Rightarrow> (db, Inl (Validation (of_ascii ''invalid group handle: '' @ handle_error_to_string e)))
      | Inr _ \<Rightarrow>
          if list_ex (\<lambda>(gid, g). gr_handle g = Some handle \<and> gid \<noteq> group_id) (db_groups db)
          then (db, Inl (Validation (of_ascii ''handle '' @ [39, 64] @ handle @ [39] @ of_ascii '' is already taken by another group'')))
          else (db\<lparr>db_groups := update_row group_id (\<lambda>g. g\<lparr>gr_handle := Some handle\<rparr>) (db_groups db)\<rparr>, Inr ()))"

definition row_to_group :: "string \<Rightarrow> GroupRow \<Rightarrow> Group" where
  "row_to_group group_id g =
     \<lparr>g_group_id = group_id, g_name = gr_name g, g_handle = gr_handle g, g_description = gr_description g,
      g_avatar_cid = gr_avatar_cid g, g_visibility = visibility_from_str_lossy (gr_visibility g),
      g_created_by = gr_created_by g, g_created_at = Timestamp_from_secs (as_u64 (gr_created_at g))\<rparr>"

definition get_group :: "social_db \<Rightarrow> string \<Rightarrow> Group option" where
  "get_group db group_id = map_option (row_to_group group_id) (hm_get (db_groups db) group_id)"

definition delete_group :: "social_db \<Rightarrow> string \<Rightarrow> social_db" where
  "delete_group db group_id =
     (let in_group = (\<lambda>chat_id. list_ex (\<lambda>(cid, c). cid = chat_id \<and> ch_group_id c = Some group_id) (db_chats db));
          db = db\<lparr>db_chat_messages := delete_where (\<lambda>_ m. in_group (cm_chat_id m)) (db_chat_messages db)\<rparr>;
          db = db\<lparr>db_chat_members := delete_where (\<lambda>(cid, _) _. in_group cid) (db_chat_members db)\<rparr>;
          db = db\<lparr>db_chats := delete_where (\<lambda>_ c. ch_group_id c = Some group_id) (db_chats db)\<rparr>;
          db = db\<lparr>db_posts := delete_where (\<lambda>(gid, _) _. gid = group_id) (db_posts db)\<rparr>;
          db = db\<lparr>db_bans := delete_where (\<lambda>(gid, _) _. gid = group_id) (db_bans db)\<rparr>;
          db = db\<lparr>db_members := delete_where (\<lambda>(gid, _) _. gid = group_id) (db_members db)\<rparr>
      in db\<lparr>db_groups := delete_where (\<lambda>gid _. gid = group_id) (db_groups db)\<rparr>)"

definition is_banned :: "social_db \<Rightarrow> string \<Rightarrow> string \<Rightarrow> bool" where
  "is_banned db group_id pubkey \<longleftrightarrow> hm_contains (db_bans db) (group_id, pubkey)"

definition join_group :: "social_db \<Rightarrow> string \<Rightarrow> string \<Rightarrow> int \<Rightarrow> social_db \<times> (SocialError + unit)" where
  "join_group db group_id member_pubkey joined_at =
     (case hm_get (db_groups db) group_id of
        None \<Rightarrow> (db, Inl (NotFound (of_ascii (''group '' @ group_id @ '' not found''))))
      | Some g \<Rightarrow>
          if gr_visibility g \<noteq> ''public''
          then (db, Inl (Validation (of_ascii ''cannot self-join a non-public group; an invite is required'')))
          else if is_banned db group_id member_pubkey
          then (db, Inl (Validation (of_ascii ''you are banned from this group'')))
          else (db\<lparr>db_members := insert_or_ignore (group_id, member_pubkey)
                     \<lparr>mr_role = ''member'', mr_joined_at = joined_at, mr_invited_by = None\<rparr> (db_members db)\<rparr>, Inr ()))"

definition invite_to_group :: "social_db \<Rightarrow> string \<Rightarrow> string \<Rightarrow> string \<Rightarrow> int \<Rightarrow> social_db \<times> (SocialError + unit)" where
  "invite_to_group db group_id target_pubkey invited_by joined_at =
     (if is_banned db group_id target_pubkey
      then (db, Inl (Validation (of_ascii ''target user is banned from this group'')))
      else (db\<lparr>db_members := insert_or_ignore (group_id, target_pubkey)
                 \<lparr>mr_role = ''member'', mr_joined_at = joined_at, mr_invited_by = Some invited_by\<rparr> (db_members db)\<rparr>, Inr ()))"

definition leave_group :: "social_db \<Rightarrow> string \<Rightarrow> string \<Rightarrow> social_db \<times> (SocialError + unit)" where
  "leave_group db group_id member_pubkey =
     (if map_option mr_role (hm_get (db_members db) (group_id, member_pubkey)) = Some ''owner''
      then (db, Inl (Validation (of_ascii ''owner cannot leave; transfer ownership or delete the group'')))
      else (db\<lparr>db_members := hm_remove (group_id, member_pubkey) (db_members db)\<rparr>, Inr ()))"

definition set_group_role :: "social_db \<Rightarrow> string \<Rightarrow> string \<Rightarrow> GroupRole \<Rightarrow> social_db" where
  "set_group_role db group_id target_pubkey new_role =
     db\<lparr>db_members := update_row (group_id, target_pubkey) (\<lambda>m. m\<lparr>mr_role := role_as_str new_role\<rparr>) (db_members db)\<rparr>"

definition get_member_role :: "social_db \<Rightarrow> string \<Rightarrow> string \<Rightarrow> GroupRole option" where
  "get_member_role db group_id member_pubkey =
     map_option (\<lambda>m. role_from_str_lossy (mr_role m)) (hm_get (db_members db) (group_id, member_pubkey))"

definition kick_member :: "social_db \<Rightarrow> string \<Rightarrow> string \<Rightarrow> social_db" where
  "kick_member db group_id target_pubkey = db\<lparr>db_members := hm_remove (group_id, target_pubkey) (db_members db)\<rparr>"

definition ban_member :: "social_db \<Rightarrow> string \<Rightarrow> string \<Rightarrow> string \<Rightarrow> rstr option \<Rightarrow> int \<Rightarrow> social_db" where
  "ban_member db group_id banned_pubkey banned_by reason banned_at =
     (let db = db\<lparr>db_members := hm_remove (group_id, banned_pubkey) (db_members db)\<rparr>
      in db\<lparr>db_bans := hm_insert (group_id, banned_pubkey)
              \<lparr>br_banned_by = banned_by, br_reason = reason, br_banned_at = banned_at\<rparr> (db_bans db)\<rparr>)"

definition transfer_ownership :: "social_db \<Rightarrow> string \<Rightarrow> string \<Rightarrow> string \<Rightarrow> social_db \<times> (SocialError + unit)" where
  "transfer_ownership db group_id current_owner new_owner =
     (case hm_get (db_members db) (group_id, new_owner) of
        None \<Rightarrow> (db, Inl (Validation (of_ascii ''target is not a member of this group'')))
      | Some _ \<Rightarrow>
          let db = db\<lparr>db_members := update_row (group_id, current_owner) (\<lambda>m. m\<lparr>mr_role := ''admin''\<rparr>) (db_members db)\<rparr>;
              db = db\<lparr>db_members := update_row (group_id, new_owner) (\<lambda>m. m\<lparr>mr_role := ''owner''\<rparr>) (db_members db)\<rparr>
          in (db, Inr ()))"

definition delete_group_post :: "social_db \<Rightarrow> string \<Rightarrow> bytes \<Rightarrow> social_db" where
  "delete_group_post db group_id content_hash = db\<lparr>db_posts := hm_remove (group_id, content_hash) (db_posts db)\<rparr>"

definition is_member :: "social_db \<Rightarrow> string \<Rightarrow> string \<Rightarrow> bool" where
  "is_member db group_id member_pubkey \<longleftrightarrow> hm_contains (db_members db) (group_id, member_pubkey)"

definition list_group_members :: "social_db \<Rightarrow> string \<Rightarrow> GroupMember list" where
  "list_group_members db group_id =
     map (\<lambda>((gid, pk), m). \<lparr>gm_group_id = gid, gm_member_pubkey = pk, gm_role = role_from_str_lossy (mr_role m),
            gm_joined_at = Timestamp_from_secs (as_u64 (mr_joined_at m)), gm_invited_by = mr_invited_by m\<rparr>)
       (sort_key (\<lambda>(_, m). mr_joined_at m) (filter (\<lambda>((gid, _), _). gid = group_id) (db_members db)))"

definition post_to_group :: "social_db \<Rightarrow> string \<Rightarrow> bytes \<Rightarrow> string \<Rightarrow> int \<Rightarrow> social_db" where
  "post_to_group db group_id content_hash author_pubkey created_at =
     db\<lparr>db_posts := insert_or_ignore (group_id, content_hash) \<lparr>gp_author_pubkey = author_pubkey, gp_created_at = created_at\<rparr> (db_posts db)\<rparr>"

definition member_count :: "social_db \<Rightarrow> string \<Rightarrow> nat" where
  "member_count db group_id = length (filter (\<lambda>((gid, _), _). gid = group_id) (db_members db))"

definition list_my_groups :: "social_db \<Rightarrow> string \<Rightarrow> GroupInfo list" where
  "list_my_groups db member_pubkey =
     (let rows = filter (\<lambda>(gid, g). is_member db gid member_pubkey) (db_groups db)
      in map (\<lambda>(gid, g). \<lparr>gi_group = row_to_group gid g, gi_member_count = of_nat (member_count db gid),
                gi_my_role = get_member_role db gid member_pubkey\<rparr>)
           (sort_key (\<lambda>(_, g). as_bytes (gr_name g)) rows))"

definition get_group_info :: "social_db \<Rightarrow> string \<Rightarrow> string option \<Rightarrow> GroupInfo option" where
  "get_group_info db group_id viewer_pubkey =
     (case get_group db group_id of
        None \<Rightarrow> None
      | Some g \<Rightarrow>
          Some \<lparr>gi_group = g, gi_member_count = of_nat (member_count db group_id),
                gi_my_role = (case viewer_pubkey of Some pubkey \<Rightarrow> get_member_role db group_id pubkey | None \<Rightarrow> None)\<rparr>)"

section \<open>Feed pages\<close>

record FeedCursor =
  fc_created_at :: Timestamp
  fc_content_hash :: ContentId

record FeedItem =
  fi_content_hash :: ContentId
  fi_author :: IdentityKey
  fi_created_at :: Timestamp
  fi_is_reply :: bool
  fi_parent :: "ContentId option"

record FeedPage =
  fp_items :: "FeedItem list"
  fp_next_cursor :: "FeedCursor option"
  fp_has_more :: bool

definition group_feed_item :: "ext \<Rightarrow> (string \<times> bytes) \<times> GroupPostRow \<Rightarrow> FeedItem" where
  "group_feed_item X e =
     (let ((_, hash), p) = e in
      \<lparr>fi_content_hash = bytes_to_content_hash hash,
       fi_author = bytes_to_identity_key (case x_unhex X (gp_author_pubkey p) of Some bs \<Rightarrow> bs | None \<Rightarrow> []),
       fi_created_at = Timestamp_from_secs (as_u64 (gp_created_at p)), fi_is_reply = False, fi_parent = None\<rparr>)"

definition get_group_feed :: "ext \<Rightarrow> social_db \<Rightarrow> string \<Rightarrow> FeedCursor option \<Rightarrow> u32 \<Rightarrow> FeedPage" where
  "get_group_feed X db group_id cursor limit =
     (let fetch_limit = min (unat limit) 200 + 1;
          rows = filter (\<lambda>((gid, _), p). gid = group_id
                   \<and> (case cursor of Some c \<Rightarrow> gp_created_at p < as_i64 (Timestamp_as_secs (fc_created_at c)) | None \<Rightarrow> True))
                 (db_posts db);
          items = map (group_feed_item X) (take fetch_limit (sort_key (\<lambda>(_, p). - gp_created_at p) rows));
          has_more = length items > unat limit;
          items = (if has_more then take (unat limit) items else items);
          next_cursor = (if has_more \<and> items \<noteq> []
                         then Some \<lparr>fc_created_at = fi_created_at (last items), fc_content_hash = fi_content_hash (last items)\<rparr>
                         else None)
      in \<lparr>fp_items = items, fp_next_cursor = next_cursor, fp_has_more = has_more\<rparr>)"

section \<open>Group chats\<close>

definition MAX_PRIVATE_CHAT_MEMBERS :: nat where "MAX_PRIVATE_CHAT_MEMBERS = 50"

record GroupChat =
  gc_chat_id :: string
  gc_name :: "rstr option"
  gc_is_group_linked :: bool
  gc_group_id :: "string option"
  gc_created_at :: Timestamp

record GroupChatMessage =
  gcm_message_id :: string
  gcm_chat_id :: string
  gcm_sender_pubkey :: string
  gcm_body :: "rstr option"
  gcm_created_at :: Timestamp
  gcm_expires_at :: Timestamp

definition generate_chat_id :: "ext \<Rightarrow> string \<Rightarrow> u64 \<Rightarrow> string" where
  "generate_chat_id X creator_pubkey timestamp_secs =
     x_hex X (x_blake3 X (as_bytes (of_ascii (creator_pubkey @ '':'' @ show_nat (unat timestamp_secs)))))"

definition create_group_linked_chat :: "ext \<Rightarrow> social_db \<Rightarrow> string \<Rightarrow> int \<Rightarrow> social_db \<times> (SocialError + GroupChat)" where
  "create_group_linked_chat X db group_id created_at =
     (case hm_get (db_groups db) group_id of
        None \<Rightarrow> (db, Inl (NotFound (of_ascii (''group '' @ group_id @ '' not found''))))
      | Some g \<Rightarrow>
          let chat = (\<lambda>chat_id. \<lparr>gc_chat_id = chat_id, gc_name = Some (gr_name g), gc_is_group_linked = True,
                        gc_group_id = Some group_id, gc_created_at = Timestamp_from_secs (as_u64 created_at)\<rparr>)
          in case find (\<lambda>(_, c). ch_group_id c = Some group_id \<and> ch_is_group_linked c) (db_chats db) of
               Some (chat_id, _) \<Rightarrow> (db, Inr (chat chat_id))
             | None \<Rightarrow>
                 let chat_id = generate_chat_id X group_id (as_u64 created_at)
                 in if hm_contains (db_chats db) chat_id then (db, Inl (Storage []))
                    else (db\<lparr>db_chats := hm_insert chat_id
                               \<lparr>ch_name = Some (gr_name g), ch_is_group_linked = True, ch_group_id = Some group_id,
                                ch_created_at = created_at\<rparr> (db_chats db)\<rparr>, Inr (chat chat_id)))"

fun add_others ::
    "string \<Rightarrow> string \<Rightarrow> int \<Rightarrow> string list \<Rightarrow> (string \<times> string, int) hash_map \<Rightarrow> (string \<times> string, int) hash_map" where
  "add_others chat_id creator_pubkey created_at [] t = t"
| "add_others chat_id creator_pubkey created_at (pk # pks) t =
     add_others chat_id creator_pubkey created_at pks
       (if pk \<noteq> creator_pubkey then insert_or_ignore (chat_id, pk) created_at t else t)"

definition create_private_group_chat ::
    "ext \<Rightarrow> social_db \<Rightarrow> rstr option \<Rightarrow> string \<Rightarrow> string list \<Rightarrow> int \<Rightarrow> social_db \<times> (SocialError + GroupChat)" where
  "create_private_group_chat X db name creator_pubkey member_pubkeys created_at =
     (if length member_pubkeys + 1 > MAX_PRIVATE_CHAT_MEMBERS
      then (db, Inl (Validation (of_ascii (''group chat cannot have more than '' @ show_nat MAX_PRIVATE_CHAT_MEMBERS @ '' members''))))
      else
        let chat_id = generate_chat_id X creator_pubkey (as_u64 created_at) in
        if hm_contains (db_chats db) chat_id then (db, Inl (Storage []))
        else
          let db = db\<lparr>db_chats := hm_insert chat_id
                \<lparr>ch_name = name, ch_is_group_linked = False, ch_group_id = None, ch_created_at = created_at\<rparr> (db_chats db)\<rparr>
          in if hm_contains (db_chat_members db) (chat_id, creator_pubkey) then (db, Inl (Storage []))
             else
               let db = db\<lparr>db_chat_members := hm_insert (chat_id, creator_pubkey) created_at (db_chat_members db)\<rparr>;
                   db = db\<lparr>db_chat_members := add_others chat_id creator_pubkey created_at member_pubkeys (db_chat_members db)\<rparr>
               in (db, Inr \<lparr>gc_chat_id = chat_id, gc_name = name, gc_is_group_linked = False, gc_group_id = None,
                            gc_created_at = Timestamp_from_secs (as_u64 created_at)\<rparr>))"

definition is_chat_member :: "social_db \<Rightarrow> string \<Rightarrow> string \<Rightarrow> bool" where
  "is_chat_member db chat_id pubkey \<longleftrightarrow> hm_contains (db_chat_members db) (chat_id, pubkey)"

definition chat_member_count :: "social_db \<Rightarrow> string \<Rightarrow> nat" where
  "chat_member_count db chat_id = length (filter (\<lambda>((cid, _), _). cid = chat_id) (db_chat_members db))"

text \<open>The check on the adder, which is skipped when none is given.\<close>

definition check_adder :: "ext \<Rightarrow> social_db \<Rightarrow> string \<Rightarrow> string \<Rightarrow> string \<Rightarrow> SocialError + unit" where
  "check_adder X db chat_id member_pubkey adder =
     (if \<not> is_chat_member db chat_id adder
      then Inl (PermissionDenied (of_ascii ''only current members can add people to the chat''))
      else case (x_unhex X member_pubkey, x_unhex X adder) of
             (Some target_bytes, Some adder_bytes) \<Rightarrow>
               if hm_contains (db_blocks db) (target_bytes, adder_bytes)
               then Inl (PermissionDenied (of_ascii ''cannot add this user (they have blocked you)'')) else Inr ()
           | _ \<Rightarrow> Inr ())"

definition add_chat_member ::
    "ext \<Rightarrow> social_db \<Rightarrow> string \<Rightarrow> string \<Rightarrow> string option \<Rightarrow> int \<Rightarrow> social_db \<times> (SocialError + unit)" where
  "add_chat_member X db chat_id member_pubkey adder_pubkey joined_at =
     (case (case adder_pubkey of Some adder \<Rightarrow> check_adder X db chat_id member_pubkey adder | None \<Rightarrow> Inr ()) of
        Inl e \<Rightarrow> (db, Inl e)
      | Inr _ \<Rightarrow>
          if chat_member_count db chat_id \<ge> MAX_PRIVATE_CHAT_MEMBERS
          then (db, Inl (Validation (of_ascii (''group chat is full ('' @ show_nat MAX_PRIVATE_CHAT_MEMBERS @ '' members max)''))))
          else (db\<lparr>db_chat_members := insert_or_ignore (chat_id, member_pubkey) joined_at (db_chat_members db)\<rparr>, Inr ()))"

definition leave_chat :: "social_db \<Rightarrow> string \<Rightarrow> string \<Rightarrow> social_db" where
  "leave_chat db chat_id member_pubkey = db\<lparr>db_chat_members := hm_remove (chat_id, member_pubkey) (db_chat_members db)\<rparr>"

definition send_group_chat_message ::
    "social_db \<Rightarrow> string \<Rightarrow> string \<Rightarrow> string \<Rightarrow> rstr option \<Rightarrow> int \<Rightarrow> int \<Rightarrow> social_db \<times> (SocialError + GroupChatMessage)" where
  "send_group_chat_message db message_id chat_id sender_pubkey body created_at expires_at =
     (if \<not> is_chat_member db chat_id sender_pubkey then (db, Inl (PermissionDenied (of_ascii ''not a member of this chat'')))
      else if hm_contains (db_chat_messages db) message_id then (db, Inl (Storage []))
      else (db\<lparr>db_chat_messages := hm_insert message_id
                 \<lparr>cm_chat_id = chat_id, cm_sender_pubkey = sender_pubkey, cm_body = body, cm_created_at = created_at,
                  cm_expires_at = expires_at\<rparr> (db_chat_messages db)\<rparr>,
            Inr \<lparr>gcm_message_id = message_id, gcm_chat_id = chat_id, gcm_sender_pubkey = sender_pubkey, gcm_body = body,
                 gcm_created_at = Timestamp_from_secs (as_u64 created_at),
                 gcm_expires_at = Timestamp_from_secs (as_u64 expires_at)\<rparr>))"

definition get_chat_messages ::
    "social_db \<Rightarrow> string \<Rightarrow> u32 \<Rightarrow> int option \<Rightarrow> string option \<Rightarrow> SocialError + GroupChatMessage list" where
  "get_chat_messages db chat_id limit before reader_pubkey =
     (if (case reader_pubkey of Some reader \<Rightarrow> \<not> is_chat_member db chat_id reader | None \<Rightarrow> False)
      then Inl (PermissionDenied (of_ascii ''not a member of this chat''))
      else
        let rows = filter (\<lambda>(_, m). cm_chat_id m = chat_id \<and> (case before of Some ts \<Rightarrow> cm_created_at m < ts | None \<Rightarrow> True))
                     (db_chat_messages db)
        in Inr (map (\<lambda>(mid, m). \<lparr>gcm_message_id = mid, gcm_chat_id = cm_chat_id m, gcm_sender_pubkey = cm_sender_pubkey m,
                        gcm_body = cm_body m, gcm_created_at = Timestamp_from_secs (as_u64 (cm_created_at m)),
                        gcm_expires_at = Timestamp_from_secs (as_u64 (cm_expires_at m))\<rparr>)
                  (take (min (unat limit) 200) (sort_key (\<lambda>(_, m). - cm_created_at m) rows))))"

text \<open>The list of chats; the newest message of a chat is the first of those with the largest time.\<close>

record GroupChatSummary =
  gcs_chat :: GroupChat
  gcs_member_count :: u32
  gcs_last_message :: "rstr option"
  gcs_last_message_at :: "Timestamp option"

definition newest_chat_message :: "social_db \<Rightarrow> string \<Rightarrow> ChatMessageRow option" where
  "newest_chat_message db chat_id =
     (case sort_key (\<lambda>m. - cm_created_at m) (filter (\<lambda>m. cm_chat_id m = chat_id) (map snd (db_chat_messages db))) of
        [] \<Rightarrow> None | m # _ \<Rightarrow> Some m)"

definition list_my_group_chats :: "social_db \<Rightarrow> string \<Rightarrow> GroupChatSummary list" where
  "list_my_group_chats db member_pubkey =
     (let rows = filter (\<lambda>(cid, _). is_chat_member db cid member_pubkey) (db_chats db);
          activity = (\<lambda>(cid, c). case newest_chat_message db cid of Some m \<Rightarrow> cm_created_at m | None \<Rightarrow> ch_created_at c)
      in map (\<lambda>(cid, c).
                \<lparr>gcs_chat = \<lparr>gc_chat_id = cid, gc_name = ch_name c, gc_is_group_linked = ch_is_group_linked c,
                              gc_group_id = ch_group_id c, gc_created_at = Timestamp_from_secs (as_u64 (ch_created_at c))\<rparr>,
                 gcs_member_count = of_nat (chat_member_count db cid),
                 gcs_last_message = Option.bind (newest_chat_message db cid) cm_body,
                 gcs_last_message_at = map_option (\<lambda>m. Timestamp_from_secs (as_u64 (cm_created_at m))) (newest_chat_message db cid)\<rparr>)
           (sort_key (\<lambda>r. - activity r) rows))"

section \<open>Lookups after an update\<close>

lemma get_insert_or_ignore [simp]:
  "hm_get (insert_or_ignore k v m) = (if hm_contains m k then hm_get m else (hm_get m)(k \<mapsto> v))"
  by (simp add: insert_or_ignore_def)

lemma get_update_row [simp]:
  "hm_get (update_row k f m) = (hm_get m)(k := map_option f (hm_get m k))"
  by (auto simp: update_row_def fun_eq_iff split: option.splits)

lemma get_delete_where [simp]:
  "hm_ok m \<Longrightarrow> hm_get (delete_where c m) k = (case hm_get m k of Some v \<Rightarrow> if c k v then None else Some v | None \<Rightarrow> None)"
  by (simp add: delete_where_def hm_get_filter split: option.split)

lemma hm_ok_insert_or_ignore [simp, inv_intro]: "hm_ok m \<Longrightarrow> hm_ok (insert_or_ignore k v m)"
  by (simp add: insert_or_ignore_def)

lemma hm_ok_update_row [simp, inv_intro]: "hm_ok m \<Longrightarrow> hm_ok (update_row k f m)"
  by (simp add: update_row_def split: option.split)

lemma hm_ok_delete_where [simp, inv_intro]: "hm_ok m \<Longrightarrow> hm_ok (delete_where c m)"
  by (simp add: delete_where_def)

lemma role_roundtrip [simp]: "role_from_str_lossy (role_as_str r) = r"
  by (cases r) (simp_all add: role_from_str_lossy_def)

lemma visibility_roundtrip [simp]: "visibility_from_str_lossy (visibility_as_str v) = v"
  by (cases v) (simp_all add: visibility_from_str_lossy_def)

lemma role_as_u8_inject [simp]: "role_as_u8 a = role_as_u8 b \<longleftrightarrow> a = b"
  by (cases a; cases b) simp_all

section \<open>Invariant\<close>

declare map_of_eq_Some_iff [simp del]

definition tables_ok :: "social_db \<Rightarrow> bool" where
  "tables_ok db \<longleftrightarrow> hm_ok (db_groups db) \<and> hm_ok (db_members db) \<and> hm_ok (db_bans db) \<and> hm_ok (db_posts db) \<and>
     hm_ok (db_chats db) \<and> hm_ok (db_chat_members db) \<and> hm_ok (db_chat_messages db)"

text \<open>A banned key is no member.\<close>

definition banned_out :: "social_db \<Rightarrow> bool" where
  "banned_out db \<longleftrightarrow> (\<forall>g p. is_banned db g p \<longrightarrow> \<not> is_member db g p)"

definition one_owner :: "social_db \<Rightarrow> bool" where
  "one_owner db \<longleftrightarrow> (\<forall>g p q. get_member_role db g p = Some Owner \<longrightarrow> get_member_role db g q = Some Owner \<longrightarrow> p = q)"

text \<open>Members, bans, posts and linked chats belong to a group that exists.\<close>

definition in_groups :: "social_db \<Rightarrow> bool" where
  "in_groups db \<longleftrightarrow>
     (\<forall>g p. is_member db g p \<longrightarrow> hm_contains (db_groups db) g) \<and>
     (\<forall>g p. is_banned db g p \<longrightarrow> hm_contains (db_groups db) g) \<and>
     (\<forall>g h. hm_contains (db_posts db) (g, h) \<longrightarrow> hm_contains (db_groups db) g) \<and>
     (\<forall>ch c g. hm_get (db_chats db) ch = Some c \<longrightarrow> ch_group_id c = Some g \<longrightarrow> hm_contains (db_groups db) g)"

definition handles_unique :: "social_db \<Rightarrow> bool" where
  "handles_unique db \<longleftrightarrow>
     (\<forall>a b x y h. hm_get (db_groups db) a = Some x \<longrightarrow> hm_get (db_groups db) b = Some y \<longrightarrow>
        gr_handle x = Some h \<longrightarrow> gr_handle y = Some h \<longrightarrow> a = b)"

text \<open>A chat with a member is a private one, it has at most fifty, and messages belong to private chats.\<close>

definition private_chat :: "social_db \<Rightarrow> string \<Rightarrow> bool" where
  "private_chat db ch \<longleftrightarrow> (\<exists>c. hm_get (db_chats db) ch = Some c \<and> \<not> ch_is_group_linked c)"

definition chats_ok :: "social_db \<Rightarrow> bool" where
  "chats_ok db \<longleftrightarrow>
     (\<forall>ch p. is_chat_member db ch p \<longrightarrow> private_chat db ch) \<and>
     (\<forall>ch. chat_member_count db ch \<le> MAX_PRIVATE_CHAT_MEMBERS) \<and>
     (\<forall>i m. hm_get (db_chat_messages db) i = Some m \<longrightarrow> private_chat db (cm_chat_id m))"

definition group_inv :: "social_db \<Rightarrow> bool" where
  "group_inv db \<longleftrightarrow> tables_ok db \<and> banned_out db \<and> one_owner db \<and> in_groups db \<and> handles_unique db \<and> chats_ok db"

lemmas group_inv_defs = group_inv_def tables_ok_def banned_out_def one_owner_def in_groups_def handles_unique_def chats_ok_def
lemmas table_reads = is_banned_def is_member_def get_member_role_def is_chat_member_def chat_member_count_def private_chat_def

lemma role_owner_iff [simp]: "role_from_str_lossy s = Owner \<longleftrightarrow> s = ''owner''"
  by (simp add: role_from_str_lossy_def)

lemma hm_insert_new: "\<not> hm_contains m k \<Longrightarrow> hm_insert k v m = m @ [(k, v)]"
  by (induction m) (auto split: if_splits)

lemma length_filter_filter_le: "length (filter P (filter Q xs)) \<le> length (filter P xs)"
  by (induction xs) auto

text \<open>What an update of one table has to show.\<close>

definition role_string :: "(string \<times> string, MemberRow) hash_map \<Rightarrow> string \<Rightarrow> string \<Rightarrow> string option" where
  "role_string t g p = map_option mr_role (hm_get t (g, p))"

lemma get_member_role_owner: "get_member_role db g p = Some Owner \<longleftrightarrow> role_string (db_members db) g p = Some ''owner''"
  by (auto simp: get_member_role_def role_string_def)

lemma members_inv:
  assumes "group_inv db" "hm_ok M"
    and "\<And>g p. role_string M g p \<noteq> None \<Longrightarrow> hm_contains (db_groups db) g \<and> \<not> is_banned db g p"
    and "\<And>g p q. role_string M g p = Some ''owner'' \<Longrightarrow> role_string M g q = Some ''owner'' \<Longrightarrow> p = q"
  shows "group_inv (db\<lparr>db_members := M\<rparr>)"
proof -
  have "one_owner (db\<lparr>db_members := M\<rparr>)"
    unfolding one_owner_def get_member_role_owner using assms(4) by simp
  moreover have "banned_out (db\<lparr>db_members := M\<rparr>)"
    using assms(3) by (fastforce simp: banned_out_def is_banned_def is_member_def role_string_def)
  moreover have "in_groups (db\<lparr>db_members := M\<rparr>)"
    using assms(1,3) by (simp add: group_inv_def in_groups_def is_banned_def is_member_def role_string_def)
  ultimately show ?thesis
    using assms(1,2) by (simp add: group_inv_def tables_ok_def handles_unique_def chats_ok_def table_reads)
qed

lemma members_ok:
  assumes "group_inv db"
  shows "role_string (db_members db) g p \<noteq> None \<Longrightarrow> hm_contains (db_groups db) g \<and> \<not> is_banned db g p"
    and "role_string (db_members db) g p = Some ''owner'' \<Longrightarrow> role_string (db_members db) g q = Some ''owner'' \<Longrightarrow> p = q"
    and "hm_ok (db_members db)"
proof -
  show "role_string (db_members db) g p \<noteq> None \<Longrightarrow> hm_contains (db_groups db) g \<and> \<not> is_banned db g p"
    using assms unfolding group_inv_def in_groups_def banned_out_def is_member_def role_string_def by blast
  show "role_string (db_members db) g p = Some ''owner'' \<Longrightarrow> role_string (db_members db) g q = Some ''owner'' \<Longrightarrow> p = q"
    using assms unfolding group_inv_def one_owner_def get_member_role_owner by blast
  show "hm_ok (db_members db)"
    using assms by (simp add: group_inv_def tables_ok_def)
qed

lemma role_string_update [simp]:
  "role_string (insert_or_ignore (g, p) row t) g' p'
     = (if (g', p') = (g, p) \<and> role_string t g p = None then Some (mr_role row) else role_string t g' p')"
  "role_string (hm_remove (g, p) t) g' p' = (if (g', p') = (g, p) then None else role_string t g' p')"
  "role_string (update_row (g, p) (mr_role_update (\<lambda>_. r)) t) g' p'
     = (if (g', p') = (g, p) \<and> role_string t g p \<noteq> None then Some r else role_string t g' p')"
  "role_string (hm_insert (g, p) row t) g' p' = (if (g', p') = (g, p) then Some (mr_role row) else role_string t g' p')"
  by (auto simp: role_string_def)

lemma add_member_inv:
  assumes "group_inv db" "hm_contains (db_groups db) g" "\<not> is_banned db g p" "mr_role row \<noteq> ''owner''"
  shows "group_inv (db\<lparr>db_members := insert_or_ignore (g, p) row (db_members db)\<rparr>)"
  using assms members_ok [OF assms(1)] by (intro members_inv) (auto split: if_splits)

lemma remove_member_inv:
  assumes "group_inv db"
  shows "group_inv (db\<lparr>db_members := hm_remove (g, p) (db_members db)\<rparr>)"
  using assms members_ok [OF assms(1)] by (intro members_inv) (auto split: if_splits)

lemma join_group_inv [inv_intro]: "group_inv db \<Longrightarrow> group_inv (fst (join_group db g p t))"
  by (simp add: join_group_def add_member_inv split: option.split)

lemma invite_to_group_inv [inv_intro]:
  "group_inv db \<Longrightarrow> hm_contains (db_groups db) g \<Longrightarrow> group_inv (fst (invite_to_group db g p by t))"
  by (simp add: invite_to_group_def add_member_inv)

lemma leave_group_inv [inv_intro]: "group_inv db \<Longrightarrow> group_inv (fst (leave_group db g p))"
  by (simp add: leave_group_def remove_member_inv)

lemma kick_member_inv [inv_intro]: "group_inv db \<Longrightarrow> group_inv (kick_member db g p)"
  by (simp add: kick_member_def remove_member_inv)

lemma set_group_role_inv [inv_intro]:
  assumes "group_inv db" "r \<noteq> Owner"
  shows "group_inv (set_group_role db g p r)"
  using assms members_ok [OF assms(1)] unfolding set_group_role_def
  by (intro members_inv) (auto split: if_splits, (cases r; simp)+)

lemma transfer_ownership_inv [inv_intro]:
  assumes "group_inv db" "get_member_role db g me = Some Owner"
  shows "group_inv (fst (transfer_ownership db g me p))"
proof (cases "hm_get (db_members db) (g, p)")
  case None
  then show ?thesis
    using assms by (simp add: transfer_ownership_def)
next
  case (Some row)
  define M where "M = update_row (g, p) (mr_role_update (\<lambda>_. ''owner''))
                        (update_row (g, me) (mr_role_update (\<lambda>_. ''admin'')) (db_members db))"
  have me: "role_string (db_members db) g me = Some ''owner''"
    using assms(2) by (simp add: get_member_role_owner)
  have same: "role_string M g' q \<noteq> None \<longleftrightarrow> role_string (db_members db) g' q \<noteq> None" for g' q
    by (simp add: M_def)
  have own: "role_string M g' q = Some ''owner'' \<longleftrightarrow>
      (if g' = g then q = p else role_string (db_members db) g' q = Some ''owner'')" for g' q
  proof -
    have "role_string (db_members db) g q \<noteq> Some ''owner''" if "q \<noteq> me"
      using that me members_ok(2) [OF assms(1)] by blast
    moreover have "role_string (db_members db) g p \<noteq> None"
      using Some by (simp add: role_string_def)
    ultimately show ?thesis
      using me by (cases "g' = g"; cases "q = p"; cases "q = me") (simp_all add: M_def)
  qed
  have "group_inv (db\<lparr>db_members := M\<rparr>)"
  proof (rule members_inv [OF assms(1)])
    show "hm_ok M"
      using members_ok(3) [OF assms(1)] by (simp add: M_def)
    show "hm_contains (db_groups db) g' \<and> \<not> is_banned db g' q" if "role_string M g' q \<noteq> None" for g' q
      using that members_ok(1) [OF assms(1)] unfolding same by blast
    show "q = q'" if "role_string M g' q = Some ''owner''" "role_string M g' q' = Some ''owner''" for g' q q'
      using that members_ok(2) [OF assms(1), of g' q q'] unfolding own by (simp split: if_splits)
  qed
  then show ?thesis
    using Some by (simp add: transfer_ownership_def M_def)
qed

lemma bans_inv:
  assumes "group_inv db" "hm_ok B" "\<And>g p. hm_contains B (g, p) \<Longrightarrow> hm_contains (db_groups db) g \<and> \<not> is_member db g p"
  shows "group_inv (db\<lparr>db_bans := B\<rparr>)"
  using assms
  by (simp add: group_inv_def tables_ok_def one_owner_def handles_unique_def chats_ok_def in_groups_def banned_out_def table_reads)

lemma ban_member_inv [inv_intro]:
  assumes "group_inv db" "hm_contains (db_groups db) g"
  shows "group_inv (ban_member db g p by reason t)"
  unfolding ban_member_def Let_def
proof (rule bans_inv)
  show "group_inv (db\<lparr>db_members := hm_remove (g, p) (db_members db)\<rparr>)"
    using assms(1) by (rule remove_member_inv)
  show "hm_contains (db_groups (db\<lparr>db_members := hm_remove (g, p) (db_members db)\<rparr>)) g' \<and>
        \<not> is_member (db\<lparr>db_members := hm_remove (g, p) (db_members db)\<rparr>) g' q"
    if "hm_contains (hm_insert (g, p) row (db_bans (db\<lparr>db_members := hm_remove (g, p) (db_members db)\<rparr>))) (g', q)" for g' q row
  proof (cases "(g', q) = (g, p)")
    case True
    then show ?thesis
      using assms(2) by (simp add: is_member_def)
  next
    case False
    then have "is_banned db g' q"
      using that by (auto simp: is_banned_def)
    then show ?thesis
      using assms(1) False unfolding group_inv_def in_groups_def banned_out_def by (simp add: is_member_def) blast
  qed
qed (use assms(1) in \<open>simp add: group_inv_def tables_ok_def\<close>)

lemma posts_inv:
  assumes "group_inv db" "hm_ok P" "\<And>g h. hm_contains P (g, h) \<Longrightarrow> hm_contains (db_groups db) g"
  shows "group_inv (db\<lparr>db_posts := P\<rparr>)"
  using assms
  by (simp add: group_inv_def tables_ok_def one_owner_def handles_unique_def chats_ok_def in_groups_def banned_out_def table_reads)

lemma posts_ok:
  "group_inv db \<Longrightarrow> hm_contains (db_posts db) (g, h) \<Longrightarrow> hm_contains (db_groups db) g"
  "group_inv db \<Longrightarrow> hm_ok (db_posts db)"
  unfolding group_inv_def in_groups_def tables_ok_def by blast+

lemma post_to_group_inv [inv_intro]:
  assumes "group_inv db" "hm_contains (db_groups db) g"
  shows "group_inv (post_to_group db g h p t)"
  using assms posts_ok [OF assms(1)] unfolding post_to_group_def
  by (intro posts_inv) (auto split: if_splits)

lemma delete_group_post_inv [inv_intro]:
  assumes "group_inv db"
  shows "group_inv (delete_group_post db g h)"
  using assms posts_ok [OF assms(1)] unfolding delete_group_post_def
  by (intro posts_inv) (auto split: if_splits)

lemma register_group_handle_inv [inv_intro]:
  assumes "group_inv db"
  shows "group_inv (fst (register_group_handle db g h))"
proof -
  let ?db = "db\<lparr>db_groups := update_row g (\<lambda>r. r\<lparr>gr_handle := Some h\<rparr>) (db_groups db)\<rparr>"
  have "group_inv ?db" if free: "\<not> list_ex (\<lambda>(gid, r). gr_handle r = Some h \<and> gid \<noteq> g) (db_groups db)"
  proof -
    have "gr_handle r \<noteq> Some h" if "hm_get (db_groups db) a = Some r" "a \<noteq> g" for a r
      using free map_of_SomeD [OF that(1)] that(2) by (auto simp: list_ex_iff)
    then have "handles_unique ?db"
      using assms by (auto simp: group_inv_def handles_unique_def split: if_splits)
    moreover have "hm_contains (db_groups ?db) a \<longleftrightarrow> hm_contains (db_groups db) a" for a
      by simp
    ultimately show ?thesis
      using assms
      by (simp add: group_inv_def tables_ok_def one_owner_def chats_ok_def in_groups_def banned_out_def table_reads)
  qed
  then show ?thesis
    using assms by (simp add: register_group_handle_def split: sum.split)
qed

lemma new_group_inv:
  assumes "group_inv db" "\<not> hm_contains (db_groups db) g" "gr_handle row = None"
  shows "group_inv (db\<lparr>db_groups := hm_insert g row (db_groups db)\<rparr>)"
proof -
  have "handles_unique (db\<lparr>db_groups := hm_insert g row (db_groups db)\<rparr>)"
    using assms by (auto simp: group_inv_def handles_unique_def split: if_splits)
  then show ?thesis
    using assms
    by (simp add: group_inv_def tables_ok_def one_owner_def chats_ok_def in_groups_def banned_out_def table_reads)
qed

lemma create_group_inv [inv_intro]:
  assumes "group_inv db"
  shows "group_inv (fst (create_group X db name desc vis creator t))"
proof -
  have "group_inv (db\<lparr>db_groups := hm_insert g row (db_groups db), db_members := hm_insert (g, creator) m (db_members db)\<rparr>)"
    if new: "\<not> hm_contains (db_groups db) g" "gr_handle row = None" for g row m
  proof -
    let ?db = "db\<lparr>db_groups := hm_insert g row (db_groups db)\<rparr>"
    have inv: "group_inv ?db"
      using assms new by (rule new_group_inv)
    have none: "role_string (db_members db) g p = None" "\<not> is_banned db g p" for p
      using new(1) members_ok(1) [OF assms, of g p] assms unfolding group_inv_def in_groups_def by blast+
    show ?thesis
    proof (rule members_inv [OF inv])
      show "hm_ok (hm_insert (g, creator) m (db_members db))"
        using members_ok(3) [OF assms] by simp
      show "hm_contains (db_groups ?db) g' \<and> \<not> is_banned ?db g' p"
        if "role_string (hm_insert (g, creator) m (db_members db)) g' p \<noteq> None" for g' p
        using that none(2) members_ok(1) [OF assms, of g' p] by (cases "g' = g") (auto simp: is_banned_def split: if_splits)
      show "p = q" if "role_string (hm_insert (g, creator) m (db_members db)) g' p = Some ''owner''"
        "role_string (hm_insert (g, creator) m (db_members db)) g' q = Some ''owner''" for g' p q
        using that none(1) members_ok(2) [OF assms, of g' p q] by (cases "g' = g") (simp_all split: if_splits)
    qed
  qed
  then show ?thesis
    using assms
    by (simp add: create_group_def Let_def new_group_inv split: sum.split)
qed

section \<open>Deleting a group\<close>

definition chat_of_group :: "social_db \<Rightarrow> string \<Rightarrow> string \<Rightarrow> bool" where
  "chat_of_group db g ch \<longleftrightarrow> (\<exists>c. hm_get (db_chats db) ch = Some c \<and> ch_group_id c = Some g)"

lemma in_group_iff:
  "hm_ok (db_chats db) \<Longrightarrow>
     list_ex (\<lambda>(cid, c). cid = ch \<and> ch_group_id c = Some g) (db_chats db) \<longleftrightarrow> chat_of_group db g ch"
  by (auto simp: chat_of_group_def list_ex_iff map_of_eq_Some_iff)

lemma delete_group_tables:
  "db_groups (delete_group db g) = delete_where (\<lambda>gid _. gid = g) (db_groups db)"
  "db_members (delete_group db g) = delete_where (\<lambda>(gid, _) _. gid = g) (db_members db)"
  "db_bans (delete_group db g) = delete_where (\<lambda>(gid, _) _. gid = g) (db_bans db)"
  "db_posts (delete_group db g) = delete_where (\<lambda>(gid, _) _. gid = g) (db_posts db)"
  "db_chats (delete_group db g) = delete_where (\<lambda>_ c. ch_group_id c = Some g) (db_chats db)"
  by (simp_all add: delete_group_def Let_def)

lemma delete_group_chat_tables:
  assumes "hm_ok (db_chats db)"
  shows "db_chat_members (delete_group db g) = delete_where (\<lambda>(cid, _) _. chat_of_group db g cid) (db_chat_members db)"
    and "db_chat_messages (delete_group db g) = delete_where (\<lambda>_ m. chat_of_group db g (cm_chat_id m)) (db_chat_messages db)"
  by (simp_all add: delete_group_def Let_def in_group_iff [OF assms])

lemma delete_group_reads:
  assumes "tables_ok db"
  shows "hm_get (db_groups (delete_group db g)) = (hm_get (db_groups db))(g := None)"
    and "get_member_role (delete_group db g) a p = (if a = g then None else get_member_role db a p)"
    and "is_member (delete_group db g) a p \<longleftrightarrow> a \<noteq> g \<and> is_member db a p"
    and "is_banned (delete_group db g) a p \<longleftrightarrow> a \<noteq> g \<and> is_banned db a p"
    and "hm_get (db_posts (delete_group db g)) (a, h) = (if a = g then None else hm_get (db_posts db) (a, h))"
    and "hm_get (db_chats (delete_group db g)) ch = (if chat_of_group db g ch then None else hm_get (db_chats db) ch)"
    and "is_chat_member (delete_group db g) ch p \<longleftrightarrow> \<not> chat_of_group db g ch \<and> is_chat_member db ch p"
    and "hm_get (db_chat_messages (delete_group db g)) i =
           (case hm_get (db_chat_messages db) i of
              None \<Rightarrow> None | Some m \<Rightarrow> if chat_of_group db g (cm_chat_id m) then None else Some m)"
  using assms
  by (auto simp: tables_ok_def delete_group_tables delete_group_chat_tables table_reads chat_of_group_def fun_eq_iff
      split: option.splits)

lemma delete_group_inv [inv_intro]:
  assumes "group_inv db"
  shows "group_inv (delete_group db g)"
proof -
  note t = delete_group_reads [of db g]
  have ok: "tables_ok db"
    using assms by (simp add: group_inv_def)
  have "tables_ok (delete_group db g)"
    using ok by (simp add: tables_ok_def delete_group_tables delete_group_chat_tables)
  moreover have "banned_out (delete_group db g)"
    using assms unfolding banned_out_def group_inv_def t [OF ok] by blast
  moreover have "one_owner (delete_group db g)"
    using assms unfolding one_owner_def group_inv_def t [OF ok] by (simp split: if_splits)
  moreover have "in_groups (delete_group db g)"
  proof -
    have "a \<noteq> g" if "\<not> chat_of_group db g ch" "hm_get (db_chats db) ch = Some c" "ch_group_id c = Some a" for a ch c
      using that by (auto simp: chat_of_group_def)
    then show ?thesis
      using assms unfolding in_groups_def group_inv_def t [OF ok] by (simp split: if_splits)
  qed
  moreover have "handles_unique (delete_group db g)"
    using assms unfolding handles_unique_def group_inv_def t [OF ok] by (simp split: if_splits)
  moreover have "chats_ok (delete_group db g)"
  proof -
    have "chat_member_count (delete_group db g) ch \<le> chat_member_count db ch" for ch
      using ok length_filter_filter_le
      by (simp add: chat_member_count_def delete_group_chat_tables tables_ok_def delete_where_def del: filter_filter)
    then have "chat_member_count (delete_group db g) ch \<le> MAX_PRIVATE_CHAT_MEMBERS" for ch
      using assms order_trans unfolding group_inv_def chats_ok_def by blast
    then show ?thesis
      using assms unfolding chats_ok_def group_inv_def private_chat_def t [OF ok]
      by (auto split: option.splits if_splits)
  qed
  ultimately show ?thesis
    by (simp add: group_inv_def)
qed

section \<open>Chats keep the invariant\<close>

lemma chat_tables_inv:
  assumes "group_inv db" "hm_ok M" "hm_ok S"
    and "\<And>ch p. hm_contains M (ch, p) \<Longrightarrow> private_chat db ch"
    and "\<And>ch. length (filter (\<lambda>((cid, _), _). cid = ch) M) \<le> MAX_PRIVATE_CHAT_MEMBERS"
    and "\<And>i m. hm_get S i = Some m \<Longrightarrow> private_chat db (cm_chat_id m)"
  shows "group_inv (db\<lparr>db_chat_members := M, db_chat_messages := S\<rparr>)"
  using assms
  by (simp add: group_inv_def tables_ok_def one_owner_def handles_unique_def chats_ok_def in_groups_def banned_out_def table_reads)

lemma chat_tables_ok:
  assumes "group_inv db"
  shows "hm_ok (db_chat_members db)" "hm_ok (db_chat_messages db)"
    and "is_chat_member db ch p \<Longrightarrow> private_chat db ch"
    and "chat_member_count db ch \<le> MAX_PRIVATE_CHAT_MEMBERS"
    and "hm_get (db_chat_messages db) i = Some m \<Longrightarrow> private_chat db (cm_chat_id m)"
  using assms unfolding group_inv_def tables_ok_def chats_ok_def by blast+

lemma chat_members_inv:
  assumes "group_inv db" "hm_ok M"
    and "\<And>ch p. hm_contains M (ch, p) \<Longrightarrow> private_chat db ch"
    and "\<And>ch. length (filter (\<lambda>((cid, _), _). cid = ch) M) \<le> MAX_PRIVATE_CHAT_MEMBERS"
  shows "group_inv (db\<lparr>db_chat_members := M\<rparr>)"
  using chat_tables_inv [OF assms(1,2) chat_tables_ok(2) [OF assms(1)] assms(3,4) chat_tables_ok(5) [OF assms(1)]] by simp

lemma leave_chat_inv [inv_intro]:
  assumes "group_inv db"
  shows "group_inv (leave_chat db ch p)"
  unfolding leave_chat_def
proof (rule chat_members_inv [OF assms])
  show "hm_ok (hm_remove (ch, p) (db_chat_members db))"
    using chat_tables_ok(1) [OF assms] by simp
  show "private_chat db ch'" if "hm_contains (hm_remove (ch, p) (db_chat_members db)) (ch', q)" for ch' q
    using that chat_tables_ok(3) [OF assms, of ch' q] by (simp add: is_chat_member_def split: if_splits)
  show "length (filter (\<lambda>((cid, _), _). cid = c) (hm_remove (ch, p) (db_chat_members db))) \<le> MAX_PRIVATE_CHAT_MEMBERS" for c
    using chat_tables_ok(4) [OF assms, of c] length_filter_filter_le order_trans
    unfolding chat_member_count_def AList.delete_eq by blast
qed

lemma add_chat_member_inv [inv_intro]:
  assumes "group_inv db"
  shows "group_inv (fst (add_chat_member X db ch p (Some adder) t))"
proof (cases "check_adder X db ch p adder")
  case (Inr u)
  let ?M = "insert_or_ignore (ch, p) t (db_chat_members db)"
  have "private_chat db ch"
    using Inr chat_tables_ok(3) [OF assms, of ch adder] by (simp add: check_adder_def split: if_splits)
  then have "group_inv (db\<lparr>db_chat_members := ?M\<rparr>)" if "chat_member_count db ch < MAX_PRIVATE_CHAT_MEMBERS"
  proof (intro chat_members_inv [OF assms])
    show "hm_ok ?M"
      using chat_tables_ok(1) [OF assms] by simp
    show "private_chat db ch'" if "hm_contains ?M (ch', q)" "private_chat db ch" for ch' q
      using that chat_tables_ok(3) [OF assms, of ch' q] by (auto simp: is_chat_member_def split: if_splits)
    show "length (filter (\<lambda>((cid, _), _). cid = c) ?M) \<le> MAX_PRIVATE_CHAT_MEMBERS" for c
      using that chat_tables_ok(4) [OF assms, of c]
      by (auto simp: insert_or_ignore_def hm_insert_new chat_member_count_def)
  qed
  then show ?thesis
    using Inr assms by (simp add: add_chat_member_def)
qed (simp add: add_chat_member_def assms)

lemma send_group_chat_message_inv [inv_intro]:
  assumes "group_inv db"
  shows "group_inv (fst (send_group_chat_message db i ch p b t e))"
proof -
  have "group_inv (db\<lparr>db_chat_messages := hm_insert i m (db_chat_messages db)\<rparr>)" if "private_chat db (cm_chat_id m)" for m
  proof -
    have "group_inv (db\<lparr>db_chat_members := db_chat_members db, db_chat_messages := hm_insert i m (db_chat_messages db)\<rparr>)"
      using that chat_tables_ok [OF assms]
      by (intro chat_tables_inv [OF assms]) (auto simp: is_chat_member_def chat_member_count_def split: if_splits)
    then show ?thesis
      by simp
  qed
  then show ?thesis
    using assms chat_tables_ok(3) [OF assms, of ch p] by (simp add: send_group_chat_message_def)
qed

lemma new_chat_inv:
  assumes "group_inv db" "\<not> hm_contains (db_chats db) ch"
    and "\<And>g. ch_group_id c = Some g \<Longrightarrow> hm_contains (db_groups db) g"
  shows "group_inv (db\<lparr>db_chats := hm_insert ch c (db_chats db)\<rparr>)"
proof -
  let ?db = "db\<lparr>db_chats := hm_insert ch c (db_chats db)\<rparr>"
  have "private_chat ?db ch'" if "private_chat db ch'" for ch'
    using that assms(2) by (auto simp: private_chat_def)
  then have "chats_ok ?db"
    using assms(1) unfolding group_inv_def chats_ok_def by (simp add: is_chat_member_def chat_member_count_def)
  then show ?thesis
    using assms(1,3)
    by (simp add: group_inv_def tables_ok_def one_owner_def handles_unique_def in_groups_def banned_out_def
        is_banned_def is_member_def get_member_role_def)
qed

lemma create_group_linked_chat_inv [inv_intro]:
  "group_inv db \<Longrightarrow> group_inv (fst (create_group_linked_chat X db g t))"
  by (auto simp: create_group_linked_chat_def Let_def intro!: new_chat_inv split: option.split)

lemma add_others_keys:
  "hm_contains (add_others ch p t pks M) k \<longleftrightarrow> hm_contains M k \<or> k \<in> Pair ch ` (set pks - {p})"
  by (induction pks arbitrary: M) auto

lemma add_others_ok: "hm_ok M \<Longrightarrow> hm_ok (add_others ch p t pks M)"
  by (induction pks arbitrary: M) auto

lemma add_others_count:
  "length (filter (\<lambda>((cid, _), _). cid = c) (add_others ch p t pks M))
     \<le> length (filter (\<lambda>((cid, _), _). cid = c) M) + (if c = ch then length pks else 0)"
proof (induction pks arbitrary: M)
  case (Cons q qs)
  define N where "N = (if q \<noteq> p then insert_or_ignore (ch, q) t M else M)"
  have "length (filter (\<lambda>((cid, _), _). cid = c) N) \<le> length (filter (\<lambda>((cid, _), _). cid = c) M) + (if c = ch then 1 else 0)"
    by (auto simp: N_def insert_or_ignore_def hm_insert_new)
  then show ?case
    using Cons.IH [of N] unfolding add_others.simps N_def [symmetric] by (simp split: if_splits)
qed simp

lemma create_private_group_chat_inv [inv_intro]:
  assumes "group_inv db"
  shows "group_inv (fst (create_private_group_chat X db name p pks t))"
proof -
  let ?row = "\<lparr>ch_name = name, ch_is_group_linked = False, ch_group_id = None, ch_created_at = t\<rparr>"
  have "group_inv (db\<lparr>db_chats := hm_insert ch ?row (db_chats db),
          db_chat_members := add_others ch p t pks (hm_insert (ch, p) t (db_chat_members db))\<rparr>)"
    if new: "\<not> hm_contains (db_chats db) ch" and few: "length pks + 1 \<le> MAX_PRIVATE_CHAT_MEMBERS" for ch
  proof -
    let ?db = "db\<lparr>db_chats := hm_insert ch ?row (db_chats db)\<rparr>"
    let ?M = "add_others ch p t pks (hm_insert (ch, p) t (db_chat_members db))"
    have inv: "group_inv ?db"
      using assms new by (intro new_chat_inv) simp_all
    have none: "\<not> hm_contains (db_chat_members db) (ch, q)" for q
      using new chat_tables_ok(3) [OF assms, of ch q] unfolding is_chat_member_def private_chat_def
      by (metis option.distinct(1))
    show ?thesis
    proof (rule chat_members_inv [OF inv])
      show "hm_ok ?M"
        using chat_tables_ok(1) [OF assms] by (simp add: add_others_ok)
      show "private_chat ?db ch'" if "hm_contains ?M (ch', q)" for ch' q
        using that chat_tables_ok(3) [OF inv, of ch' q] unfolding add_others_keys
        by (auto simp: is_chat_member_def private_chat_def split: if_splits)
      show "length (filter (\<lambda>((cid, _), _). cid = c) ?M) \<le> MAX_PRIVATE_CHAT_MEMBERS" for c
      proof -
        have "filter (\<lambda>((cid, _), _). cid = ch) (db_chat_members db) = []"
          using none by (fastforce simp: filter_empty_conv map_of_eq_None_iff image_iff)
        then show ?thesis
          using few chat_tables_ok(4) [OF assms, of c] none
            add_others_count [of c ch p t pks "hm_insert (ch, p) t (db_chat_members db)"]
          by (auto simp: hm_insert_new chat_member_count_def split: if_splits)
      qed
    qed
  qed
  then show ?thesis
    using assms new_chat_inv [OF assms, of _ ?row] by (auto simp: create_private_group_chat_def Let_def)
qed

end
