(* ===== verification/Json.thy ===== *)
theory Json
  imports Rust_Strings Time_Types
begin

text \<open>
  The values the node services answer with (\<^verbatim>\<open>serde_json::Value\<close> as the \<^verbatim>\<open>json!\<close> macro builds it): objects keep their
  fields in the order the source writes them. The error of a service is a formatted string in the source; here it is a
  datatype with the text of the source's own part and the error value of the component behind it.
\<close>

datatype Value =
    Null
  | Bool bool
  | Number nat
  | String rstr
  | Array "Value list"
  | Object "(string \<times> Value) list"

definition ascii_value :: "string \<Rightarrow> Value" where
  "ascii_value s = String (of_ascii s)"

definition secs_value :: "Timestamp \<Rightarrow> Value" where
  "secs_value t = Number (unat (Timestamp_as_secs t))"

fun opt_value :: "('a \<Rightarrow> Value) \<Rightarrow> 'a option \<Rightarrow> Value" where
  "opt_value f None = Null"
| "opt_value f (Some x) = f x"

fun field :: "string \<Rightarrow> Value \<Rightarrow> Value option" where
  "field k (Object fs) = map_of fs k"
| "field k _ = None"

end
