(* ===== verification/Group_Service.thy ===== *)
theory Group_Service
  imports Social_Groups Rate_Limit Json
begin

text \<open>
  Crate \<^verbatim>\<open>ephemera-node\<close>, file \<^verbatim>\<open>services/social.rs\<close>, the groups and group chats of \<^verbatim>\<open>SocialService\<close>: who may do what,
  on top of the store. The local identity comes from the keystore (\<^verbatim>\<open>IdentityService\<close>), so each call takes the result
  of asking for it; the caller is its public key in hex. A call is one operation of \<open>group_op\<close>, and a run is a sequence
  of calls, each by the identity that is active then.
\<close>

section \<open>State, callers and errors\<close>

record group_state =
  gst_db :: social_db
  gst_limiter :: RateLimiter

datatype service_error =
    IdentityFailed string
  | LimitedBy AbuseError
  | Refused string
  | StoreFailed string SocialError
  | BadHash

text \<open>What a call reads: the local identity, the monotonic clock of the limiter and the wall clock.\<close>

record call_env =
  ce_local :: "string + IdentityKey"
  ce_clock :: "nat \<Rightarrow> instant"
  ce_now :: u64

definition pubkey_of :: "ext \<Rightarrow> IdentityKey \<Rightarrow> string" where
  "pubkey_of X k = x_hex X (identity_bytes k)"

definition get_local_identity :: "call_env \<Rightarrow> service_error + IdentityKey" where
  "get_local_identity c = (case ce_local c of Inl e \<Rightarrow> Inl (IdentityFailed e) | Inr k \<Rightarrow> Inr k)"

definition my_role :: "social_db \<Rightarrow> string \<Rightarrow> string \<Rightarrow> service_error + GroupRole" where
  "my_role db group_id my_pubkey =
     (case get_member_role db group_id my_pubkey of
        None \<Rightarrow> Inl (Refused ''not a member of this group'') | Some r \<Rightarrow> Inr r)"

text \<open>The result of a store operation, with the service's prefix before the error.\<close>

fun store_result :: "string \<Rightarrow> group_state \<Rightarrow> social_db \<times> (SocialError + 'a) \<Rightarrow> ('a \<Rightarrow> Value) \<Rightarrow> group_state \<times> (service_error + Value)" where
  "store_result what st (db, Inl e) f = (st\<lparr>gst_db := db\<rparr>, Inl (StoreFailed what e))"
| "store_result what st (db, Inr x) f = (st\<lparr>gst_db := db\<rparr>, Inr (f x))"

text \<open>Every guarded operation starts with the local identity and its role in the group.\<close>

definition with_role ::
    "ext \<Rightarrow> call_env \<Rightarrow> group_state \<Rightarrow> string \<Rightarrow> (string \<Rightarrow> GroupRole \<Rightarrow> group_state \<times> (service_error + Value))
       \<Rightarrow> group_state \<times> (service_error + Value)" where
  "with_role X c st group_id k =
     (case get_local_identity c of
        Inl e \<Rightarrow> (st, Inl e)
      | Inr local \<Rightarrow>
          (case my_role (gst_db st) group_id (pubkey_of X local) of
             Inl e \<Rightarrow> (st, Inl e)
           | Inr r \<Rightarrow> k (pubkey_of X local) r))"

section \<open>Groups\<close>

definition service_create_group ::
    "ext \<Rightarrow> call_env \<Rightarrow> group_state \<Rightarrow> rstr \<Rightarrow> rstr option \<Rightarrow> string \<Rightarrow> group_state \<times> (service_error + Value)" where
  "service_create_group X c st name description visibility =
     (case get_local_identity c of
        Inl e \<Rightarrow> (st, Inl e)
      | Inr local \<Rightarrow>
          (case RateLimiter_check (gst_limiter st) local GroupCreate (ce_clock c) of
             (rl, Inl e) \<Rightarrow> (st\<lparr>gst_limiter := rl\<rparr>, Inl (LimitedBy e))
           | (rl, Inr _) \<Rightarrow>
               store_result ''create group'' (st\<lparr>gst_limiter := rl\<rparr>)
                 (create_group X (gst_db st) name description (visibility_from_str_lossy visibility)
                    (pubkey_of X local) (as_i64 (ce_now c)))
                 (\<lambda>g. Object [(''group_id'', ascii_value (g_group_id g)), (''name'', String (g_name g)),
                       (''description'', opt_value String (g_description g)),
                       (''visibility'', ascii_value (visibility_as_str (g_visibility g))),
                       (''created_by'', ascii_value (g_created_by g)), (''created_at'', secs_value (g_created_at g))])))"

definition service_register_group_handle ::
    "ext \<Rightarrow> call_env \<Rightarrow> group_state \<Rightarrow> string \<Rightarrow> rstr \<Rightarrow> group_state \<times> (service_error + Value)" where
  "service_register_group_handle X c st group_id handle =
     with_role X c st group_id (\<lambda>me role.
       if \<not> can_edit_info role then (st, Inl (Refused ''only owner or admin can register a group handle''))
       else store_result ''register handle'' st (register_group_handle (gst_db st) group_id handle)
              (\<lambda>_. Object [(''handle'', String handle)]))"

definition service_join_group :: "ext \<Rightarrow> call_env \<Rightarrow> group_state \<Rightarrow> string \<Rightarrow> group_state \<times> (service_error + Value)" where
  "service_join_group X c st group_id =
     (case get_local_identity c of
        Inl e \<Rightarrow> (st, Inl e)
      | Inr local \<Rightarrow>
          store_result ''join group'' st (join_group (gst_db st) group_id (pubkey_of X local) (as_i64 (ce_now c)))
            (\<lambda>_. Object [(''joined'', Bool True)]))"

definition service_invite_to_group ::
    "ext \<Rightarrow> call_env \<Rightarrow> group_state \<Rightarrow> string \<Rightarrow> string \<Rightarrow> group_state \<times> (service_error + Value)" where
  "service_invite_to_group X c st group_id target =
     (case get_local_identity c of
        Inl e \<Rightarrow> (st, Inl e)
      | Inr local \<Rightarrow>
          (case RateLimiter_check (gst_limiter st) local GroupInvite (ce_clock c) of
             (rl, Inl e) \<Rightarrow> (st\<lparr>gst_limiter := rl\<rparr>, Inl (LimitedBy e))
           | (rl, Inr _) \<Rightarrow>
               with_role X c (st\<lparr>gst_limiter := rl\<rparr>) group_id (\<lambda>me role.
                 if \<not> can_invite role then (st\<lparr>gst_limiter := rl\<rparr>, Inl (Refused ''insufficient permissions to invite''))
                 else store_result ''invite'' (st\<lparr>gst_limiter := rl\<rparr>)
                        (invite_to_group (gst_db st) group_id target me (as_i64 (ce_now c)))
                        (\<lambda>_. Object [(''invited'', Bool True)]))))"

definition service_leave_group :: "ext \<Rightarrow> call_env \<Rightarrow> group_state \<Rightarrow> string \<Rightarrow> group_state \<times> (service_error + Value)" where
  "service_leave_group X c st group_id =
     (case get_local_identity c of
        Inl e \<Rightarrow> (st, Inl e)
      | Inr local \<Rightarrow>
          store_result ''leave group'' st (leave_group (gst_db st) group_id (pubkey_of X local))
            (\<lambda>_. Object [(''left'', Bool True)]))"

definition service_set_group_role ::
    "ext \<Rightarrow> call_env \<Rightarrow> group_state \<Rightarrow> string \<Rightarrow> string \<Rightarrow> string \<Rightarrow> group_state \<times> (service_error + Value)" where
  "service_set_group_role X c st group_id target new_role =
     with_role X c st group_id (\<lambda>me role.
       let target_role = role_from_str_lossy new_role in
       if \<not> can_set_role role target_role then (st, Inl (Refused ''insufficient permissions to set this role''))
       else (st\<lparr>gst_db := set_group_role (gst_db st) group_id target target_role\<rparr>,
             Inr (Object [(''role_set'', Bool True), (''new_role'', ascii_value new_role)])))"

definition service_kick_member ::
    "ext \<Rightarrow> call_env \<Rightarrow> group_state \<Rightarrow> string \<Rightarrow> string \<Rightarrow> group_state \<times> (service_error + Value)" where
  "service_kick_member X c st group_id target =
     with_role X c st group_id (\<lambda>me role.
       if \<not> can_kick role then (st, Inl (Refused ''insufficient permissions to kick''))
       else
         let target_role = (case get_member_role (gst_db st) group_id target of Some r \<Rightarrow> r | None \<Rightarrow> Member) in
         if target_role \<le> role then (st, Inl (Refused ''cannot kick someone with equal or higher role''))
         else (st\<lparr>gst_db := kick_member (gst_db st) group_id target\<rparr>, Inr (Object [(''kicked'', Bool True)])))"

definition service_ban_member ::
    "ext \<Rightarrow> call_env \<Rightarrow> group_state \<Rightarrow> string \<Rightarrow> string \<Rightarrow> rstr option \<Rightarrow> group_state \<times> (service_error + Value)" where
  "service_ban_member X c st group_id target reason =
     with_role X c st group_id (\<lambda>me role.
       if \<not> can_ban role then (st, Inl (Refused ''insufficient permissions to ban''))
       else (st\<lparr>gst_db := ban_member (gst_db st) group_id target me reason (as_i64 (ce_now c))\<rparr>,
             Inr (Object [(''banned'', Bool True)])))"

definition service_post_to_group ::
    "ext \<Rightarrow> call_env \<Rightarrow> group_state \<Rightarrow> string \<Rightarrow> string \<Rightarrow> group_state \<times> (service_error + Value)" where
  "service_post_to_group X c st group_id content_hash_hex =
     with_role X c st group_id (\<lambda>me role.
       case x_unhex X content_hash_hex of
         None \<Rightarrow> (st, Inl BadHash)
       | Some hash_bytes \<Rightarrow>
           let wire_bytes = (if length hash_bytes = 32 then ContentId_to_wire_bytes (ContentId_from_hash hash_bytes) else hash_bytes)
           in (st\<lparr>gst_db := post_to_group (gst_db st) group_id wire_bytes me (as_i64 (ce_now c))\<rparr>,
               Inr (Object [(''posted'', Bool True)])))"

definition feed_item_value :: "ext \<Rightarrow> FeedItem \<Rightarrow> Value" where
  "feed_item_value X i =
     Object [(''content_hash'', ascii_value (x_hex X (cid_hash (fi_content_hash i)))),
             (''author'', ascii_value (pubkey_of X (fi_author i))),
             (''created_at'', secs_value (fi_created_at i)), (''is_reply'', Bool (fi_is_reply i))]"

definition service_get_group_feed :: "ext \<Rightarrow> call_env \<Rightarrow> group_state \<Rightarrow> string \<Rightarrow> u32 \<Rightarrow> service_error + Value" where
  "service_get_group_feed X c st group_id limit =
     (case get_local_identity c of
        Inl e \<Rightarrow> Inl e
      | Inr local \<Rightarrow>
          (case get_group (gst_db st) group_id of
             None \<Rightarrow> Inl (Refused ''group not found'')
           | Some g \<Rightarrow>
               if g_visibility g \<noteq> Public \<and> \<not> is_member (gst_db st) group_id (pubkey_of X local)
               then Inl (Refused ''not a member of this private/secret group'')
               else let page = get_group_feed X (gst_db st) group_id None limit
                    in Inr (Object [(''items'', Array (map (feed_item_value X) (fp_items page))),
                                    (''has_more'', Bool (fp_has_more page))])))"

definition service_list_my_groups :: "ext \<Rightarrow> call_env \<Rightarrow> group_state \<Rightarrow> service_error + Value" where
  "service_list_my_groups X c st =
     (case get_local_identity c of
        Inl e \<Rightarrow> Inl e
      | Inr local \<Rightarrow>
          Inr (Object [(''groups'', Array (map (\<lambda>gi.
            Object [(''group_id'', ascii_value (g_group_id (gi_group gi))), (''name'', String (g_name (gi_group gi))),
                    (''handle'', opt_value String (g_handle (gi_group gi))),
                    (''description'', opt_value String (g_description (gi_group gi))),
                    (''visibility'', ascii_value (visibility_as_str (g_visibility (gi_group gi)))),
                    (''member_count'', Number (unat (gi_member_count gi))),
                    (''my_role'', opt_value (\<lambda>r. ascii_value (role_as_str r)) (gi_my_role gi)),
                    (''created_at'', secs_value (g_created_at (gi_group gi)))])
            (list_my_groups (gst_db st) (pubkey_of X local))))]))"

definition service_get_group_info :: "ext \<Rightarrow> call_env \<Rightarrow> group_state \<Rightarrow> string \<Rightarrow> service_error + Value" where
  "service_get_group_info X c st group_id =
     (case get_local_identity c of
        Inl e \<Rightarrow> Inl e
      | Inr local \<Rightarrow>
          (case get_group_info (gst_db st) group_id (Some (pubkey_of X local)) of
             None \<Rightarrow> Inl (Refused ''group not found'')
           | Some info \<Rightarrow>
               Inr (Object [(''group_id'', ascii_value (g_group_id (gi_group info))), (''name'', String (g_name (gi_group info))),
                 (''handle'', opt_value String (g_handle (gi_group info))),
                 (''description'', opt_value String (g_description (gi_group info))),
                 (''visibility'', ascii_value (visibility_as_str (g_visibility (gi_group info)))),
                 (''member_count'', Number (unat (gi_member_count info))),
                 (''my_role'', opt_value (\<lambda>r. ascii_value (role_as_str r)) (gi_my_role info)),
                 (''members'', Array (map (\<lambda>m. Object [(''pubkey'', ascii_value (gm_member_pubkey m)),
                    (''role'', ascii_value (role_as_str (gm_role m))), (''joined_at'', secs_value (gm_joined_at m))])
                    (list_group_members (gst_db st) group_id))),
                 (''created_at'', secs_value (g_created_at (gi_group info)))])))"

definition service_delete_group :: "ext \<Rightarrow> call_env \<Rightarrow> group_state \<Rightarrow> string \<Rightarrow> group_state \<times> (service_error + Value)" where
  "service_delete_group X c st group_id =
     with_role X c st group_id (\<lambda>me role.
       if \<not> can_delete_group role then (st, Inl (Refused ''only the owner can delete a group''))
       else (st\<lparr>gst_db := delete_group (gst_db st) group_id\<rparr>, Inr (Object [(''deleted'', Bool True)])))"

definition service_transfer_ownership ::
    "ext \<Rightarrow> call_env \<Rightarrow> group_state \<Rightarrow> string \<Rightarrow> string \<Rightarrow> group_state \<times> (service_error + Value)" where
  "service_transfer_ownership X c st group_id new_owner_pubkey =
     with_role X c st group_id (\<lambda>me role.
       if \<not> can_delete_group role then (st, Inl (Refused ''only the owner can transfer ownership''))
       else store_result ''transfer ownership'' st (transfer_ownership (gst_db st) group_id me new_owner_pubkey)
              (\<lambda>_. Object [(''transferred'', Bool True), (''new_owner'', ascii_value new_owner_pubkey)]))"

definition service_delete_group_post ::
    "ext \<Rightarrow> call_env \<Rightarrow> group_state \<Rightarrow> string \<Rightarrow> string \<Rightarrow> group_state \<times> (service_error + Value)" where
  "service_delete_group_post X c st group_id content_hash_hex =
     with_role X c st group_id (\<lambda>me role.
       if \<not> can_delete_posts role then (st, Inl (Refused ''insufficient permissions to delete posts''))
       else case x_unhex X content_hash_hex of
              None \<Rightarrow> (st, Inl BadHash)
            | Some hash_bytes \<Rightarrow>
                (st\<lparr>gst_db := delete_group_post (gst_db st) group_id hash_bytes\<rparr>, Inr (Object [(''deleted'', Bool True)])))"

section \<open>Group chats\<close>

definition service_create_private_chat ::
    "ext \<Rightarrow> call_env \<Rightarrow> group_state \<Rightarrow> rstr option \<Rightarrow> string list \<Rightarrow> group_state \<times> (service_error + Value)" where
  "service_create_private_chat X c st name members =
     (case get_local_identity c of
        Inl e \<Rightarrow> (st, Inl e)
      | Inr local \<Rightarrow>
          store_result ''create chat'' st
            (create_private_group_chat X (gst_db st) name (pubkey_of X local) members (as_i64 (ce_now c)))
            (\<lambda>chat. Object [(''chat_id'', ascii_value (gc_chat_id chat)), (''name'', opt_value String (gc_name chat)),
                            (''created_at'', secs_value (gc_created_at chat))]))"

definition service_create_group_chat :: "ext \<Rightarrow> call_env \<Rightarrow> group_state \<Rightarrow> string \<Rightarrow> group_state \<times> (service_error + Value)" where
  "service_create_group_chat X c st group_id =
     store_result ''create group chat'' st (create_group_linked_chat X (gst_db st) group_id (as_i64 (ce_now c)))
       (\<lambda>chat. Object [(''chat_id'', ascii_value (gc_chat_id chat)), (''name'', opt_value String (gc_name chat)),
                       (''group_id'', opt_value ascii_value (gc_group_id chat)), (''created_at'', secs_value (gc_created_at chat))])"

definition service_add_chat_member ::
    "ext \<Rightarrow> call_env \<Rightarrow> group_state \<Rightarrow> string \<Rightarrow> string \<Rightarrow> group_state \<times> (service_error + Value)" where
  "service_add_chat_member X c st chat_id member =
     (case get_local_identity c of
        Inl e \<Rightarrow> (st, Inl e)
      | Inr local \<Rightarrow>
          store_result ''add chat member'' st
            (add_chat_member X (gst_db st) chat_id member (Some (pubkey_of X local)) (as_i64 (ce_now c)))
            (\<lambda>_. Object [(''added'', Bool True)]))"

definition service_leave_chat :: "ext \<Rightarrow> call_env \<Rightarrow> group_state \<Rightarrow> string \<Rightarrow> group_state \<times> (service_error + Value)" where
  "service_leave_chat X c st chat_id =
     (case get_local_identity c of
        Inl e \<Rightarrow> (st, Inl e)
      | Inr local \<Rightarrow>
          (st\<lparr>gst_db := leave_chat (gst_db st) chat_id (pubkey_of X local)\<rparr>, Inr (Object [(''left'', Bool True)])))"

definition show_i64 :: "int \<Rightarrow> string" where
  "show_i64 i = (if i < 0 then ''-'' @ show_nat (nat (- i)) else show_nat (nat i))"

definition chat_message_id :: "ext \<Rightarrow> string \<Rightarrow> string \<Rightarrow> int \<Rightarrow> rstr \<Rightarrow> string" where
  "chat_message_id X chat_id sender now body =
     x_hex X (x_blake3 X (as_bytes (of_ascii (chat_id @ '':'' @ sender @ '':'' @ show_i64 now @ '':'') @ body)))"

definition service_send_group_chat_message ::
    "ext \<Rightarrow> call_env \<Rightarrow> group_state \<Rightarrow> string \<Rightarrow> rstr \<Rightarrow> group_state \<times> (service_error + Value)" where
  "service_send_group_chat_message X c st chat_id body =
     (case get_local_identity c of
        Inl e \<Rightarrow> (st, Inl e)
      | Inr local \<Rightarrow>
          (case RateLimiter_check (gst_limiter st) local GroupChatMessage (ce_clock c) of
             (rl, Inl e) \<Rightarrow> (st\<lparr>gst_limiter := rl\<rparr>, Inl (LimitedBy e))
           | (rl, Inr _) \<Rightarrow>
               let sender = pubkey_of X local;
                   now = as_i64 (ce_now c);
                   expires_at = as_i64 (ce_now c + 86400)
               in store_result ''send chat message'' (st\<lparr>gst_limiter := rl\<rparr>)
                    (send_group_chat_message (gst_db st) (chat_message_id X chat_id sender now body) chat_id sender (Some body)
                       now expires_at)
                    (\<lambda>m. Object [(''message_id'', ascii_value (gcm_message_id m)), (''chat_id'', ascii_value (gcm_chat_id m)),
                                 (''created_at'', secs_value (gcm_created_at m))])))"

definition service_get_chat_messages :: "ext \<Rightarrow> call_env \<Rightarrow> group_state \<Rightarrow> string \<Rightarrow> u32 \<Rightarrow> service_error + Value" where
  "service_get_chat_messages X c st chat_id limit =
     (case get_local_identity c of
        Inl e \<Rightarrow> Inl e
      | Inr local \<Rightarrow>
          (case get_chat_messages (gst_db st) chat_id limit None (Some (pubkey_of X local)) of
             Inl e \<Rightarrow> Inl (StoreFailed ''get chat messages'' e)
           | Inr ms \<Rightarrow>
               Inr (Object [(''messages'', Array (map (\<lambda>m.
                 Object [(''message_id'', ascii_value (gcm_message_id m)), (''sender'', ascii_value (gcm_sender_pubkey m)),
                         (''body'', opt_value String (gcm_body m)), (''created_at'', secs_value (gcm_created_at m))]) ms))])))"

definition service_list_my_group_chats :: "ext \<Rightarrow> call_env \<Rightarrow> group_state \<Rightarrow> service_error + Value" where
  "service_list_my_group_chats X c st =
     (case get_local_identity c of
        Inl e \<Rightarrow> Inl e
      | Inr local \<Rightarrow>
          Inr (Object [(''chats'', Array (map (\<lambda>s.
            Object [(''chat_id'', ascii_value (gc_chat_id (gcs_chat s))), (''name'', opt_value String (gc_name (gcs_chat s))),
                    (''is_group_linked'', Bool (gc_is_group_linked (gcs_chat s))),
                    (''group_id'', opt_value ascii_value (gc_group_id (gcs_chat s))),
                    (''member_count'', Number (unat (gcs_member_count s))),
                    (''last_message'', opt_value String (gcs_last_message s)),
                    (''last_message_at'', opt_value secs_value (gcs_last_message_at s))])
            (list_my_group_chats (gst_db st) (pubkey_of X local))))]))"

section \<open>Runs\<close>

datatype group_op =
    CreateGroup rstr "rstr option" string
  | RegisterGroupHandle string rstr
  | JoinGroup string
  | InviteToGroup string string
  | LeaveGroup string
  | SetGroupRole string string string
  | KickMember string string
  | BanMember string string "rstr option"
  | PostToGroup string string
  | DeleteGroup string
  | TransferOwnership string string
  | DeleteGroupPost string string
  | CreatePrivateChat "rstr option" "string list"
  | CreateGroupChat string
  | AddChatMember string string
  | LeaveChat string
  | SendGroupChatMessage string rstr

fun group_step :: "ext \<Rightarrow> call_env \<Rightarrow> group_state \<Rightarrow> group_op \<Rightarrow> group_state \<times> (service_error + Value)" where
  "group_step X c st (CreateGroup name desc vis) = service_create_group X c st name desc vis"
| "group_step X c st (RegisterGroupHandle g h) = service_register_group_handle X c st g h"
| "group_step X c st (JoinGroup g) = service_join_group X c st g"
| "group_step X c st (InviteToGroup g t) = service_invite_to_group X c st g t"
| "group_step X c st (LeaveGroup g) = service_leave_group X c st g"
| "group_step X c st (SetGroupRole g t r) = service_set_group_role X c st g t r"
| "group_step X c st (KickMember g t) = service_kick_member X c st g t"
| "group_step X c st (BanMember g t reason) = service_ban_member X c st g t reason"
| "group_step X c st (PostToGroup g h) = service_post_to_group X c st g h"
| "group_step X c st (DeleteGroup g) = service_delete_group X c st g"
| "group_step X c st (TransferOwnership g t) = service_transfer_ownership X c st g t"
| "group_step X c st (DeleteGroupPost g h) = service_delete_group_post X c st g h"
| "group_step X c st (CreatePrivateChat name ms) = service_create_private_chat X c st name ms"
| "group_step X c st (CreateGroupChat g) = service_create_group_chat X c st g"
| "group_step X c st (AddChatMember ch m) = service_add_chat_member X c st ch m"
| "group_step X c st (LeaveChat ch) = service_leave_chat X c st ch"
| "group_step X c st (SendGroupChatMessage ch b) = service_send_group_chat_message X c st ch b"

definition group_start :: group_state where
  "group_start = \<lparr>gst_db = \<lparr>db_connections = [], db_blocks = [], db_mutes = [], db_groups = [], db_members = [], db_bans = [],
     db_posts = [], db_chats = [], db_chat_members = [], db_chat_messages = []\<rparr>, gst_limiter = RateLimiter_new\<rparr>"

fun group_run :: "ext \<Rightarrow> group_state \<Rightarrow> (call_env \<times> group_op) list \<Rightarrow> group_state" where
  "group_run X st [] = st"
| "group_run X st ((c, op) # ops) = group_run X (fst (group_step X c st op)) ops"

section \<open>The invariant holds in every run\<close>

lemma store_result_db [simp]: "gst_db (fst (store_result what st r f)) = fst r"
  by (cases "(what, st, r, f)" rule: store_result.cases) simp_all

text \<open>A guarded operation either leaves the state alone or runs with the role the caller has.\<close>

lemma with_role_induct:
  assumes "\<And>e. P (st, Inl e)"
    and "\<And>local r. ce_local c = Inr local \<Longrightarrow> get_member_role (gst_db st) g (pubkey_of X local) = Some r \<Longrightarrow>
           P (k (pubkey_of X local) r)"
  shows "P (with_role X c st g k)"
  using assms by (auto simp: with_role_def get_local_identity_def my_role_def split: sum.split option.split)

lemma with_role_inv:
  assumes "group_inv (gst_db st)"
    and "\<And>me r. get_member_role (gst_db st) g me = Some r \<Longrightarrow> group_inv (gst_db (fst (k me r)))"
  shows "group_inv (gst_db (fst (with_role X c st g k)))"
  by (rule with_role_induct [of "\<lambda>r. group_inv (gst_db (fst r))"]) (simp_all add: assms)

lemma role_in_group: "group_inv db \<Longrightarrow> get_member_role db g p = Some r \<Longrightarrow> hm_contains (db_groups db) g"
  using members_ok(1) [of db g p] by (auto simp: get_member_role_def role_string_def)

lemma can_set_role_not_owner: "can_set_role r r' \<Longrightarrow> r' \<noteq> Owner"
  by (auto simp: can_set_role_def)

definition state_inv :: "group_state \<Rightarrow> bool" where
  "state_inv st \<longleftrightarrow> group_inv (gst_db st)"

lemma group_step_inv:
  assumes "state_inv st"
  shows "state_inv (fst (group_step X c st op))"
proof -
  have inv: "group_inv (gst_db st)"
    using assms by (simp add: state_inv_def)
  note wr = with_role_inv [OF inv] and grp = role_in_group [OF inv]
  have "group_inv (gst_db (fst (group_step X c st op)))"
  proof (cases op)
    case (InviteToGroup g t)
    have "group_inv (gst_db (fst (with_role X c (st\<lparr>gst_limiter := rl\<rparr>) g (\<lambda>me role.
            if \<not> can_invite role then (st\<lparr>gst_limiter := rl\<rparr>, Inl e)
            else store_result w (st\<lparr>gst_limiter := rl\<rparr>) (invite_to_group (gst_db st) g t me n) f))))" for rl e w n f
      using inv grp by (intro with_role_inv) (simp_all add: invite_to_group_inv)
    then show ?thesis
      using inv by (simp add: InviteToGroup service_invite_to_group_def get_local_identity_def split: sum.split prod.split)
  next
    case (SetGroupRole g t r)
    show ?thesis
      unfolding SetGroupRole group_step.simps service_set_group_role_def Let_def
      by (rule wr) (simp add: inv set_group_role_inv can_set_role_not_owner del: role_owner_iff)
  qed (auto simp: service_create_group_def service_join_group_def service_leave_group_def
      service_create_private_chat_def service_create_group_chat_def service_add_chat_member_def service_leave_chat_def
      service_send_group_chat_message_def service_register_group_handle_def service_kick_member_def service_delete_group_def
      service_delete_group_post_def service_transfer_ownership_def service_ban_member_def service_post_to_group_def
      can_delete_group_def Let_def inv dest: grp intro!: inv_intro wr split: sum.split prod.split option.split)
  then show ?thesis
    by (simp add: state_inv_def)
qed

lemma group_run_inv: "state_inv st \<Longrightarrow> state_inv (group_run X st ops)"
  by (induction ops arbitrary: st) (auto simp: group_step_inv)

lemma group_start_inv: "state_inv group_start"
  by (simp add: state_inv_def group_start_def group_inv_defs table_reads)

lemmas run_inv = group_run_inv [OF group_start_inv]

lemma group_inv_promises:
  assumes "group_inv db"
  shows "get_member_role db g p = Some Owner \<and> get_member_role db g q = Some Owner \<longrightarrow> p = q"
    and "is_banned db g p \<longrightarrow> \<not> is_member db g p"
    and "get_group db a = Some x \<and> get_group db b = Some y \<and> g_handle x = Some h \<and> g_handle y = Some h \<longrightarrow> a = b"
    and "is_member db g p \<or> is_banned db g p \<longrightarrow> get_group db g \<noteq> None"
    and "chat_member_count db ch \<le> MAX_PRIVATE_CHAT_MEMBERS"
proof -
  show "get_member_role db g p = Some Owner \<and> get_member_role db g q = Some Owner \<longrightarrow> p = q"
    using assms unfolding group_inv_def one_owner_def by blast
  show "is_banned db g p \<longrightarrow> \<not> is_member db g p"
    using assms unfolding group_inv_def banned_out_def by blast
  show "get_group db a = Some x \<and> get_group db b = Some y \<and> g_handle x = Some h \<and> g_handle y = Some h \<longrightarrow> a = b"
    using assms unfolding group_inv_def handles_unique_def get_group_def row_to_group_def by fastforce
  show "is_member db g p \<or> is_banned db g p \<longrightarrow> get_group db g \<noteq> None"
    using assms unfolding group_inv_def in_groups_def get_group_def by simp blast
  show "chat_member_count db ch \<le> MAX_PRIVATE_CHAT_MEMBERS"
    using assms by (rule chat_tables_ok)
qed

text \<open>
  C4: In every state the group service reaches from an empty database, whatever the calls and whoever makes them: a group
  has at most one owner, a banned key is not a member, no two groups carry the same handle, members and bans belong to
  groups that exist, and a chat has at most fifty members.
\<close>
theorem group_run_invariant:
  "let db = gst_db (group_run X group_start ops) in
     (\<forall>g p q. get_member_role db g p = Some Owner \<and> get_member_role db g q = Some Owner \<longrightarrow> p = q) \<and>
     (\<forall>g p. is_banned db g p \<longrightarrow> \<not> is_member db g p) \<and>
     (\<forall>a b x y h. get_group db a = Some x \<and> get_group db b = Some y \<and> g_handle x = Some h \<and> g_handle y = Some h \<longrightarrow> a = b) \<and>
     (\<forall>g p. is_member db g p \<or> is_banned db g p \<longrightarrow> get_group db g \<noteq> None) \<and>
     (\<forall>ch. chat_member_count db ch \<le> MAX_PRIVATE_CHAT_MEMBERS)"
  using run_inv [of X ops] unfolding state_inv_def Let_def
  by (intro conjI allI) (rule group_inv_promises, assumption)+

text \<open>A small world: identity hash, a hex coding that maps every byte to one character, three keys.\<close>

definition demo_ext :: ext where
  "demo_ext = \<lparr>x_blake3 = (\<lambda>bs. bs), x_hex = map (\<lambda>b. char_of (unat b)), x_unhex = (\<lambda>s. Some (map (\<lambda>c. of_char c) s))\<rparr>"

definition demo_call :: "u8 \<Rightarrow> call_env" where
  "demo_call k = \<lparr>ce_local = Inr (IdentityKey [k]), ce_clock = (\<lambda>n. 0), ce_now = 1000\<rparr>"

definition demo_run :: "(call_env \<times> group_op) list \<Rightarrow> group_state" where
  "demo_run ops = group_run demo_ext group_start ops"

definition demo_group :: "(call_env \<times> group_op) list" where
  "demo_group = [(demo_call 65, CreateGroup (of_ascii ''rust'') None ''public''),
     (demo_call 66, JoinGroup ''rust''), (demo_call 67, JoinGroup ''rust''),
     (demo_call 65, SetGroupRole ''rust'' ''B'' ''admin'')]"

lemma demo_roles:
  "get_member_role (gst_db (demo_run demo_group)) ''rust'' ''A'' = Some Owner"
  "get_member_role (gst_db (demo_run demo_group)) ''rust'' ''B'' = Some Admin"
  by code_simp+

theorem group_run_invariant_witness:
  "get_member_role (gst_db (group_run demo_ext group_start demo_group)) ''rust'' ''A'' = Some Owner \<and>
   get_member_role (gst_db (group_run demo_ext group_start demo_group)) ''rust'' ''B'' \<noteq> Some Owner"
proof -
  let ?db = "gst_db (group_run demo_ext group_start demo_group)"
  have "\<forall>g p q. get_member_role ?db g p = Some Owner \<and> get_member_role ?db g q = Some Owner \<longrightarrow> p = q"
    using group_run_invariant [of demo_ext demo_group] unfolding Let_def by (rule conjunct1)
  from this [rule_format, of "''rust''" "''A''" "''B''"] show ?thesis
    using demo_roles(1) unfolding demo_run_def by auto
qed

text \<open>A chat that is linked to a group has no member, so nobody sends to it and nobody is added.\<close>

lemma linked_chat_closed:
  assumes "hm_get (db_chats (gst_db st)) ch = Some chat" "ch_is_group_linked chat" "state_inv st"
  shows "\<not> is_chat_member (gst_db st) ch p"
  using chat_tables_ok(3) [of "gst_db st" ch p] assms by (auto simp: state_inv_def private_chat_def)

lemma linked_chat_refuses:
  assumes "hm_get (db_chats (gst_db st)) ch = Some chat" "ch_is_group_linked chat" "state_inv st"
  shows "\<exists>e. snd (service_send_group_chat_message X c st ch body) = Inl e"
    and "\<exists>e. snd (service_add_chat_member X c st ch target) = Inl e"
  using linked_chat_closed [OF assms]
  by (auto simp: service_send_group_chat_message_def service_add_chat_member_def send_group_chat_message_def
      add_chat_member_def check_adder_def get_local_identity_def Let_def split: sum.split prod.split)

section \<open>Who gives a role\<close>

lemma roles_unchanged [simp]:
  "get_member_role (fst (register_group_handle db g nm)) = get_member_role db"
  "get_member_role (post_to_group db g h a t) = get_member_role db"
  "get_member_role (delete_group_post db g h) = get_member_role db"
  "get_member_role (fst (create_private_group_chat X db n a ms t)) = get_member_role db"
  "get_member_role (fst (create_group_linked_chat X db g t)) = get_member_role db"
  "get_member_role (fst (add_chat_member X db ch m ad t)) = get_member_role db"
  "get_member_role (leave_chat db ch m) = get_member_role db"
  "get_member_role (fst (send_group_chat_message db i ch m b t e)) = get_member_role db"
  by (simp_all add: fun_eq_iff get_member_role_def register_group_handle_def post_to_group_def delete_group_post_def
      create_private_group_chat_def create_group_linked_chat_def add_chat_member_def leave_chat_def
      send_group_chat_message_def Let_def split: sum.split option.split prod.split)

lemma roles_removed:
  "get_member_role (kick_member db g t) a p = (if (a, p) = (g, t) then None else get_member_role db a p)"
  "get_member_role (ban_member db g t b re n) a p = (if (a, p) = (g, t) then None else get_member_role db a p)"
  "get_member_role (fst (leave_group db g t)) a p \<in> {None, get_member_role db a p}"
  by (auto simp: get_member_role_def kick_member_def ban_member_def leave_group_def Let_def)

lemma role_consts [simp]:
  "role_from_str_lossy ''member'' = Member" "role_from_str_lossy ''admin'' = Admin"
  by (simp_all add: role_from_str_lossy_def)

lemma role_set:
  "get_member_role (set_group_role db g t r) a p =
     (if (a, p) = (g, t) \<and> get_member_role db g t \<noteq> None then Some r else get_member_role db a p)"
  by (auto simp: get_member_role_def set_group_role_def)

lemma role_gains:
  "get_member_role (fst (join_group db g t n)) a p = Some r \<Longrightarrow> get_member_role db a p \<noteq> Some r \<Longrightarrow> a = g \<and> p = t \<and> r = Member"
  "get_member_role (fst (invite_to_group db g t b n)) a p = Some r \<Longrightarrow> get_member_role db a p \<noteq> Some r \<Longrightarrow>
     a = g \<and> p = t \<and> r = Member"
  "get_member_role (fst (create_group X db nm d v me n)) a p = Some r \<Longrightarrow> get_member_role db a p \<noteq> Some r \<Longrightarrow>
     get_group db a = None \<and> p = me \<and> r = Owner"
  by (auto simp: get_member_role_def join_group_def invite_to_group_def create_group_def get_group_def Let_def
      split: if_splits option.splits sum.splits)

lemma role_transferred:
  assumes "get_member_role (fst (transfer_ownership db g me t)) a p = Some r" "get_member_role db a p \<noteq> Some r"
  shows "a = g \<and> (p = t \<and> r = Owner \<or> p = me \<and> r = Admin)"
  using assms
  by (cases "hm_get (db_members db) (g, t)"; cases "(a, p) = (g, t)"; cases "(a, p) = (g, me)";
      cases "hm_get (db_members db) (g, me)") (auto simp: get_member_role_def transfer_ownership_def Let_def)

text \<open>Which call by whom may give the key \<open>p\<close> the role \<open>r\<close> in the group \<open>g\<close>.\<close>

fun may_give :: "ext \<Rightarrow> social_db \<Rightarrow> IdentityKey \<Rightarrow> string \<Rightarrow> string \<Rightarrow> GroupRole \<Rightarrow> group_op \<Rightarrow> bool" where
  "may_give X db k g p r (CreateGroup _ _ _) \<longleftrightarrow> p = pubkey_of X k \<and> r = Owner \<and> get_group db g = None"
| "may_give X db k g p r (JoinGroup a) \<longleftrightarrow> a = g \<and> p = pubkey_of X k \<and> r = Member"
| "may_give X db k g p r (InviteToGroup a t) \<longleftrightarrow> a = g \<and> p = t \<and> r = Member
     \<and> (\<exists>m. get_member_role db g (pubkey_of X k) = Some m \<and> can_invite m)"
| "may_give X db k g p r (SetGroupRole a t s) \<longleftrightarrow> a = g \<and> p = t \<and> r = role_from_str_lossy s
     \<and> (\<exists>m. get_member_role db g (pubkey_of X k) = Some m \<and> m < r)"
| "may_give X db k g p r (TransferOwnership a t) \<longleftrightarrow> a = g \<and> get_member_role db g (pubkey_of X k) = Some Owner
     \<and> (p = t \<and> r = Owner \<or> p = pubkey_of X k \<and> r = Admin)"
| "may_give X db k g p r _ \<longleftrightarrow> False"

lemma step_needs_identity:
  assumes "get_member_role (gst_db (fst (group_step X c st op))) g p \<noteq> get_member_role (gst_db st) g p"
  obtains k where "ce_local c = Inr k"
  using assms by (cases op; cases "ce_local c")
      (auto simp: service_create_group_def service_join_group_def service_leave_group_def
      service_create_private_chat_def service_create_group_chat_def service_add_chat_member_def service_leave_chat_def
      service_send_group_chat_message_def service_register_group_handle_def service_kick_member_def service_delete_group_def
      service_delete_group_post_def service_transfer_ownership_def service_ban_member_def service_post_to_group_def
      service_invite_to_group_def service_set_group_role_def get_local_identity_def with_role_def)

text \<open>
  C6: A step of the service that gives a key a role it did not have was authorised: the key's owner created the group,
  joined it as a plain member or was invited by a member who may invite; or the caller's own role is strictly above the one
  it set; or the caller is the owner and transfers the group, becoming an admin.
\<close>
theorem roles_are_granted:
  assumes run: "st = group_run X group_start ops"
    and gained: "get_member_role (gst_db (fst (group_step X c st op))) g p = Some r" "get_member_role (gst_db st) g p \<noteq> Some r"
  shows "\<exists>k. ce_local c = Inr k \<and> may_give X (gst_db st) k g p r op"
proof -
  obtain k where k: "ce_local c = Inr k"
    using gained by (metis step_needs_identity)
  have ok: "tables_ok (gst_db st)"
    using run run_inv [of X ops] by (simp add: state_inv_def group_inv_def)
  have wr: "with_role X c s a f = (case get_member_role (gst_db s) a (pubkey_of X k) of
      None \<Rightarrow> (s, Inl (Refused ''not a member of this group'')) | Some m \<Rightarrow> f (pubkey_of X k) m)" for s a f
    by (simp add: with_role_def get_local_identity_def k my_role_def split: option.split)
  have "may_give X (gst_db st) k g p r op"
    using gained
  proof (cases op)
    case (LeaveGroup a)
    then show ?thesis
      using gained roles_removed(3) [of "gst_db st" a "pubkey_of X k" g p] k
      by (auto simp: service_leave_group_def get_local_identity_def)
  qed (auto simp: k wr get_local_identity_def service_create_group_def service_join_group_def
      service_create_private_chat_def service_create_group_chat_def service_add_chat_member_def service_leave_chat_def
      service_send_group_chat_message_def service_register_group_handle_def service_kick_member_def service_delete_group_def
      service_delete_group_post_def service_transfer_ownership_def service_ban_member_def service_post_to_group_def
      service_invite_to_group_def service_set_group_role_def Let_def delete_group_reads [OF ok] roles_removed role_set
      can_set_role_def less_GroupRole_def can_delete_group_def
      dest: role_gains role_transferred split: option.splits if_splits prod.splits sum.splits)
  then show ?thesis
    using k by blast
qed

theorem roles_are_granted_witness:
  "\<exists>k. ce_local (demo_call 65) = Inr k \<and>
     may_give demo_ext (gst_db (group_run demo_ext group_start (take 3 demo_group))) k ''rust'' ''B'' Admin
       (SetGroupRole ''rust'' ''B'' ''admin'')"
proof (rule roles_are_granted [OF refl])
  show "get_member_role (gst_db (fst (group_step demo_ext (demo_call 65) (group_run demo_ext group_start (take 3 demo_group))
          (SetGroupRole ''rust'' ''B'' ''admin'')))) ''rust'' ''B'' = Some Admin"
    by code_simp
  show "get_member_role (gst_db (group_run demo_ext group_start (take 3 demo_group))) ''rust'' ''B'' \<noteq> Some Admin"
    by code_simp
qed

section \<open>What the guards miss\<close>

text \<open>
  \<^verbatim>\<open>set_group_role\<close> compares the caller's role with the new role only, not with the role the target holds: a moderator
  makes the owner a plain member, and the group has no owner from then on. \<^verbatim>\<open>ban_member\<close> compares no ranks at all: an
  admin bans the owner.
\<close>

lemma moderator_demotes_owner:
  "map gm_role (list_group_members (gst_db (demo_run (demo_group @
     [(demo_call 65, SetGroupRole ''rust'' ''C'' ''moderator''), (demo_call 67, SetGroupRole ''rust'' ''A'' ''member'')]))) ''rust'')
   = [Member, Admin, Moderator]"
  by code_simp

lemma admin_bans_owner:
  "is_banned (gst_db (demo_run (demo_group @ [(demo_call 66, BanMember ''rust'' ''A'' None)]))) ''rust'' ''A''"
  "map gm_role (list_group_members (gst_db (demo_run (demo_group @ [(demo_call 66, BanMember ''rust'' ''A'' None)]))) ''rust'')
   = [Admin, Member]"
  by code_simp+

text \<open>
  A post is linked under the 33 wire bytes of its content id, but the moderation call deletes by the 32 bytes of the hash:
  it answers that the post is deleted, and the post stays.
\<close>

lemma moderated_post_stays:
  assumes "x_unhex X h = Some bs" "length bs = 32"
    and posted: "hm_contains (db_posts (gst_db st)) (g, ContentId_to_wire_bytes (ContentId_from_hash bs))"
  shows "hm_contains (db_posts (gst_db (fst (service_delete_group_post X c st g h))))
           (g, ContentId_to_wire_bytes (ContentId_from_hash bs))"
proof -
  have "bs \<noteq> ContentId_to_wire_bytes (ContentId_from_hash bs)"
    using assms(2) by (auto simp: ContentId_to_wire_bytes_def ContentId_from_hash_def)
  then show ?thesis
    using assms(1) posted
    by (auto simp: service_delete_group_post_def with_role_def get_local_identity_def my_role_def delete_group_post_def
        split: sum.split option.split)
qed

section \<open>Feeds\<close>

lemma take_if: "(if length xs > n then take n xs else xs) = take n xs"
  by simp

text \<open>
  C33: The feed of a group that is not public is answered only to a member; the answer holds at most \<open>min limit 201\<close> items,
  and all of them are posts of that group.
\<close>
theorem group_feed_guarded:
  assumes "service_get_group_feed X c st g limit = Inr v"
  shows "\<exists>k grp. ce_local c = Inr k \<and> get_group (gst_db st) g = Some grp \<and>
           (g_visibility grp = Public \<or> is_member (gst_db st) g (pubkey_of X k)) \<and>
           (\<exists>items more. v = Object [(''items'', Array items), (''has_more'', Bool more)] \<and>
              length items \<le> min (unat limit) 201 \<and>
              set items \<subseteq> {feed_item_value X (group_feed_item X ((g, h), p)) | h p. ((g, h), p) \<in> set (db_posts (gst_db st))})"
proof -
  define rows where "rows = filter (\<lambda>((gid, _), p). gid = g) (db_posts (gst_db st))"
  define shown where "shown = take (min (unat limit) 200 + 1) (sort_key (\<lambda>(_, p). - gp_created_at p) rows)"
  have sub: "set shown \<subseteq> set rows"
    unfolding shown_def by (metis set_take_subset set_sort)
  have items: "fp_items (get_group_feed X (gst_db st) g None limit) = map (group_feed_item X) (take (unat limit) shown)"
    by (simp only: get_group_feed_def Let_def shown_def rows_def FeedPage.select_convs option.case simp_thms take_if take_map)
  have "length (take (unat limit) shown) \<le> min (unat limit) 201"
    by (simp add: shown_def) linarith
  moreover have "a = g \<and> ((a, h), p) \<in> set (db_posts (gst_db st))" if "((a, h), p) \<in> set (take (unat limit) shown)" for a h p
    using sub in_set_takeD [OF that] unfolding rows_def by auto
  ultimately show ?thesis
    using assms items
    by (auto simp: service_get_group_feed_def get_local_identity_def Let_def split: sum.splits option.splits if_splits) blast+
qed

theorem group_feed_guarded_witness:
  "\<exists>k grp. ce_local (demo_call 66) = Inr k \<and> get_group (gst_db (demo_run demo_group)) ''rust'' = Some grp \<and>
     (g_visibility grp = Public \<or> is_member (gst_db (demo_run demo_group)) ''rust'' (pubkey_of demo_ext k))"
proof -
  have "service_get_group_feed demo_ext (demo_call 66) (demo_run demo_group) ''rust'' 10
      = Inr (Object [(''items'', Array []), (''has_more'', Bool False)])"
    by code_simp
  then show ?thesis
    using group_feed_guarded by blast
qed

text \<open>With a limit above 200 a page never says that there is more, however many posts the group has.\<close>

lemma feed_page_truncated:
  assumes "200 < unat limit"
  shows "\<not> fp_has_more (get_group_feed X db g cursor limit)"
  using assms by (simp add: get_group_feed_def Let_def)

end
