(* ===== verification/Direct_Messages.thy ===== *)
theory Direct_Messages
  imports Social_Graph Message_Crypto Dht_Storage
begin

text \<open>
  Crate \<^verbatim>\<open>ephemera-message\<close>, files \<^verbatim>\<open>sealed.rs\<close>, \<^verbatim>\<open>message.rs\<close>, \<^verbatim>\<open>conversation.rs\<close>, \<^verbatim>\<open>request.rs\<close>, \<^verbatim>\<open>service.rs\<close>,
  \<^verbatim>\<open>service_extra.rs\<close> and \<^verbatim>\<open>dead_drop.rs\<close>: sealed envelopes that hide the sender, the message service with its requests
  from strangers, and the dead drops for recipients that are offline. The JSON coding of envelopes and the hash are
  parameters (\<open>wire\<close>); every reading of the clock in a call is an argument, \<open>clk 0\<close>, \<open>clk 1\<close> and so on in their order.
\<close>

section \<open>Sealed envelopes\<close>

definition MAX_SEALED_WIRE_SIZE :: nat where "MAX_SEALED_WIRE_SIZE = 32768"

record SealedPayload =
  sp_sender :: IdentityKey
  sp_body :: bytes

record SealedEnvelope =
  se_recipient :: IdentityKey
  se_ciphertext :: bytes
  se_timestamp :: Timestamp
  se_ttl :: Ttl

record wire =
  w_payload :: "SealedPayload \<Rightarrow> bytes"
  w_payload_of :: "bytes \<Rightarrow> SealedPayload option"
  w_envelope :: "SealedEnvelope \<Rightarrow> bytes"
  w_blake3 :: "bytes \<Rightarrow> bytes"
  w_hex :: "bytes \<Rightarrow> string"

text \<open>What the code relies on of the coding: a payload decodes to itself.\<close>

definition wire_ok :: "wire \<Rightarrow> bool" where
  "wire_ok W \<longleftrightarrow> (\<forall>p. w_payload_of W (w_payload W p) = Some p)"

text \<open>The ephemeral key pair and the nonce of the encryption.\<close>

record randomness =
  rn_ephemeral :: X25519KeyPair
  rn_nonce :: bytes

definition SealedEnvelope_seal ::
    "prims \<Rightarrow> wire \<Rightarrow> randomness \<Rightarrow> u64 \<Rightarrow> IdentityKey \<Rightarrow> IdentityKey \<Rightarrow> X25519PublicKey \<Rightarrow> bytes \<Rightarrow> Ttl
       \<Rightarrow> MessageError + SealedEnvelope" where
  "SealedEnvelope_seal P W R now sender recipient recipient_x25519 body ttl =
     (let payload_bytes = w_payload W \<lparr>sp_sender = sender, sp_body = body\<rparr> in
      if length payload_bytes > MAX_SEALED_WIRE_SIZE then Inl (BodyTooLarge (length payload_bytes) MAX_SEALED_WIRE_SIZE)
      else case MessageEncryption_encrypt P (rn_ephemeral R) (rn_nonce R) payload_bytes recipient_x25519 of
             Inl e \<Rightarrow> Inl e
           | Inr ciphertext \<Rightarrow>
               Inr \<lparr>se_recipient = recipient, se_ciphertext = ciphertext, se_timestamp = Timestamp_from_secs now, se_ttl = ttl\<rparr>)"

definition SealedEnvelope_open :: "prims \<Rightarrow> wire \<Rightarrow> SealedEnvelope \<Rightarrow> X25519SecretKey \<Rightarrow> MessageError + SealedPayload" where
  "SealedEnvelope_open P W env our_secret =
     (case MessageEncryption_decrypt P (se_ciphertext env) our_secret of
        Inl e \<Rightarrow> Inl e
      | Inr plaintext \<Rightarrow>
          (case w_payload_of W plaintext of None \<Rightarrow> Inl (Deserialization '''') | Some payload \<Rightarrow> Inr payload))"

definition sender_is_visible :: "SealedEnvelope \<Rightarrow> IdentityKey \<Rightarrow> bool" where
  "sender_is_visible env sender = (if se_recipient env = sender then False else False)"

definition SealedEnvelope_validate :: "SealedEnvelope \<Rightarrow> MessageError + unit" where
  "SealedEnvelope_validate env =
     (if length (se_ciphertext env) > MAX_SEALED_WIRE_SIZE
      then Inl (BodyTooLarge (length (se_ciphertext env)) MAX_SEALED_WIRE_SIZE) else Inr ())"

definition envelope_is_expired :: "SealedEnvelope \<Rightarrow> u64 \<Rightarrow> bool" where
  "envelope_is_expired env now \<longleftrightarrow> now > Timestamp_as_secs (se_timestamp env) + Ttl_as_secs (se_ttl env)"

section \<open>Messages\<close>

definition MAX_MESSAGE_WIRE_SIZE :: nat where "MAX_MESSAGE_WIRE_SIZE = 32768"

datatype MessageId = MessageId (as_content_hash: ContentId)

datatype MessageStatus = MessagePending | Delivered | Read

record DirectMessage =
  dm_id :: MessageId
  dm_sender :: IdentityKey
  dm_recipient :: IdentityKey
  dm_encrypted_content :: bytes
  dm_timestamp :: Timestamp
  dm_ttl :: Ttl
  dm_signature :: Signature
  dm_status :: MessageStatus

definition DirectMessage_validate :: "DirectMessage \<Rightarrow> MessageError + unit" where
  "DirectMessage_validate m =
     (if length (dm_encrypted_content m) > MAX_MESSAGE_WIRE_SIZE
      then Inl (BodyTooLarge (length (dm_encrypted_content m)) MAX_MESSAGE_WIRE_SIZE) else Inr ())"

section \<open>The conversation list\<close>

record Conversation =
  c_peer_id :: IdentityKey
  c_last_message_at :: Timestamp
  c_unread_count :: u32

definition Conversation_new :: "IdentityKey \<Rightarrow> Timestamp \<Rightarrow> Conversation" where
  "Conversation_new peer t = \<lparr>c_peer_id = peer, c_last_message_at = t, c_unread_count = 0\<rparr>"

definition record_incoming :: "Timestamp \<Rightarrow> Conversation \<Rightarrow> Conversation" where
  "record_incoming t c = c\<lparr>c_last_message_at := t, c_unread_count := saturating_add (c_unread_count c) 1\<rparr>"

definition record_outgoing :: "Timestamp \<Rightarrow> Conversation \<Rightarrow> Conversation" where
  "record_outgoing t c = c\<lparr>c_last_message_at := t\<rparr>"

definition mark_read :: "Conversation \<Rightarrow> Conversation" where
  "mark_read c = c\<lparr>c_unread_count := 0\<rparr>"

type_synonym ConversationList = "Conversation list"

definition conversation_get :: "ConversationList \<Rightarrow> IdentityKey \<Rightarrow> Conversation option" where
  "conversation_get cs peer = find (\<lambda>c. c_peer_id c = peer) cs"

text \<open>An update through \<^verbatim>\<open>get_mut\<close> changes the first conversation with the peer.\<close>

fun update_first :: "IdentityKey \<Rightarrow> (Conversation \<Rightarrow> Conversation) \<Rightarrow> ConversationList \<Rightarrow> ConversationList" where
  "update_first peer f [] = []"
| "update_first peer f (c # cs) = (if c_peer_id c = peer then f c # cs else c # update_first peer f cs)"

definition conversation_sort :: "ConversationList \<Rightarrow> ConversationList" where
  "conversation_sort cs = sort_key (\<lambda>c. - int (unat (Timestamp_as_secs (c_last_message_at c)))) cs"

definition upsert_incoming :: "ConversationList \<Rightarrow> IdentityKey \<Rightarrow> Timestamp \<Rightarrow> ConversationList" where
  "upsert_incoming cs peer t =
     conversation_sort
       (if conversation_get cs peer \<noteq> None then update_first peer (record_incoming t) cs
        else cs @ [(Conversation_new peer t)\<lparr>c_unread_count := 1\<rparr>])"

definition upsert_outgoing :: "ConversationList \<Rightarrow> IdentityKey \<Rightarrow> Timestamp \<Rightarrow> ConversationList" where
  "upsert_outgoing cs peer t =
     conversation_sort
       (if conversation_get cs peer \<noteq> None then update_first peer (record_outgoing t) cs
        else cs @ [Conversation_new peer t])"

definition conversation_remove :: "ConversationList \<Rightarrow> IdentityKey \<Rightarrow> ConversationList" where
  "conversation_remove cs peer = filter (\<lambda>c. c_peer_id c \<noteq> peer) cs"

section \<open>Requests from strangers\<close>

definition MAX_INTRO_LENGTH :: nat where "MAX_INTRO_LENGTH = 280"

datatype MessageRequestStatus = Pending | Accepted | Rejected

fun status_debug :: "MessageRequestStatus \<Rightarrow> string" where
  "status_debug Pending = ''Pending''"
| "status_debug Accepted = ''Accepted''"
| "status_debug Rejected = ''Rejected''"

record MessageRequest =
  mq_sender :: IdentityKey
  mq_recipient :: IdentityKey
  mq_intro_message :: "rstr option"
  mq_created_at :: Timestamp
  mq_status :: MessageRequestStatus

definition MessageRequest_new :: "u64 \<Rightarrow> IdentityKey \<Rightarrow> IdentityKey \<Rightarrow> rstr option \<Rightarrow> MessageError + MessageRequest" where
  "MessageRequest_new now sender recipient intro =
     (case intro of
        Some msg \<Rightarrow>
          (if char_count msg > MAX_INTRO_LENGTH then Inl (BodyTooLarge (char_count msg) MAX_INTRO_LENGTH)
           else Inr \<lparr>mq_sender = sender, mq_recipient = recipient, mq_intro_message = intro,
                     mq_created_at = Timestamp_from_secs now, mq_status = Pending\<rparr>)
      | None \<Rightarrow> Inr \<lparr>mq_sender = sender, mq_recipient = recipient, mq_intro_message = intro,
                     mq_created_at = Timestamp_from_secs now, mq_status = Pending\<rparr>)"

definition request_accept :: "MessageRequest \<Rightarrow> MessageRequest \<times> (MessageError + unit)" where
  "request_accept r =
     (if mq_status r \<noteq> Pending then (r, Inl (InvalidRequestState ''Pending'' (status_debug (mq_status r))))
      else (r\<lparr>mq_status := Accepted\<rparr>, Inr ()))"

definition request_reject :: "MessageRequest \<Rightarrow> MessageRequest \<times> (MessageError + unit)" where
  "request_reject r =
     (if mq_status r \<noteq> Pending then (r, Inl (InvalidRequestState ''Pending'' (status_debug (mq_status r))))
      else (r\<lparr>mq_status := Rejected\<rparr>, Inr ()))"

section \<open>Tables of the service\<close>

record ConversationRow =
  cv_our_pubkey :: bytes
  cv_their_pubkey :: bytes
  cv_last_message_at :: "int option"
  cv_unread_count :: int
  cv_is_request :: bool
  cv_created_at :: int

record MessageRow =
  ms_conversation_id :: bytes
  ms_sender_pubkey :: bytes
  ms_received_at :: int
  ms_expires_at :: int
  ms_is_read :: bool
  ms_body_preview :: "rstr option"
  ms_encrypted_body :: "bytes option"
  ms_is_encrypted :: bool

record RequestRow =
  rq_status :: string
  rq_created_at :: int

record DropRow =
  dd_mailbox_key :: bytes
  dd_sealed_data :: bytes
  dd_deposited_at :: int
  dd_expires_at :: int

record msg_db = graph_db +
  db_conversations :: "(bytes, ConversationRow) hash_map"
  db_messages :: "(bytes, MessageRow) hash_map"
  db_requests :: "(bytes \<times> bytes, RequestRow) hash_map"
  db_drops :: "(bytes, DropRow) hash_map"

record StoredMessage =
  sm_id :: bytes
  sm_conversation_id :: bytes
  sm_sender_pubkey :: bytes
  sm_received_at :: int
  sm_expires_at :: int
  sm_body_preview :: "rstr option"
  sm_is_read :: bool
  sm_encrypted_body :: "bytes option"
  sm_is_encrypted :: bool

record ConversationSummary =
  cs_conversation_id :: bytes
  cs_our_pubkey :: bytes
  cs_their_pubkey :: bytes
  cs_last_message_at :: "int option"
  cs_unread_count :: int
  cs_is_request :: bool

section \<open>Helpers of the service\<close>

definition MAX_MESSAGE_TTL_SECS :: u64 where "MAX_MESSAGE_TTL_SECS = 30 * 24 * 60 * 60"

definition is_connected :: "msg_db \<Rightarrow> bytes \<Rightarrow> bytes \<Rightarrow> bool" where
  "is_connected db l r \<longleftrightarrow> map_option cr_status (hm_get (db_connections db) (l, r)) = Some ''connected''"

definition request_status :: "msg_db \<Rightarrow> bytes \<Rightarrow> bytes \<Rightarrow> string option" where
  "request_status db recipient sender = map_option rq_status (hm_get (db_requests db) (sender, recipient))"

definition is_request_accepted :: "msg_db \<Rightarrow> bytes \<Rightarrow> bytes \<Rightarrow> bool" where
  "is_request_accepted db recipient sender \<longleftrightarrow> request_status db recipient sender = Some ''accepted''"

definition is_request_rejected :: "msg_db \<Rightarrow> bytes \<Rightarrow> bytes \<Rightarrow> bool" where
  "is_request_rejected db recipient sender \<longleftrightarrow> request_status db recipient sender = Some ''rejected''"

definition compute_conversation_id :: "wire \<Rightarrow> bytes \<Rightarrow> bytes \<Rightarrow> bytes" where
  "compute_conversation_id W a b = w_blake3 W (if map unat a \<le> map unat b then a @ b else b @ a)"

definition get_or_create_conversation ::
    "wire \<Rightarrow> u64 \<Rightarrow> msg_db \<Rightarrow> bytes \<Rightarrow> bytes \<Rightarrow> bool \<Rightarrow> msg_db \<times> bytes" where
  "get_or_create_conversation W now db our_pubkey their_pubkey is_request =
     (let conversation_id = compute_conversation_id W our_pubkey their_pubkey
      in (if hm_contains (db_conversations db) conversation_id then db
          else db\<lparr>db_conversations := hm_insert conversation_id
                 \<lparr>cv_our_pubkey = our_pubkey, cv_their_pubkey = their_pubkey, cv_last_message_at = Some (as_i64 now),
                  cv_unread_count = 0, cv_is_request = is_request, cv_created_at = as_i64 now\<rparr> (db_conversations db)\<rparr>,
          conversation_id))"

definition store_message_request :: "u64 \<Rightarrow> msg_db \<Rightarrow> bytes \<Rightarrow> bytes \<Rightarrow> msg_db" where
  "store_message_request now db sender recipient =
     (if hm_contains (db_requests db) (sender, recipient) then db
      else db\<lparr>db_requests := hm_insert (sender, recipient) \<lparr>rq_status = ''pending'', rq_created_at = as_i64 now\<rparr> (db_requests db)\<rparr>)"

definition preview :: "bytes \<Rightarrow> rstr option" where
  "preview body = map_option (take 100) (from_utf8 body)"

definition touch_conversation :: "bytes \<Rightarrow> (ConversationRow \<Rightarrow> ConversationRow) \<Rightarrow> msg_db \<Rightarrow> msg_db" where
  "touch_conversation cid f db =
     (case hm_get (db_conversations db) cid of
        None \<Rightarrow> db | Some c \<Rightarrow> db\<lparr>db_conversations := hm_insert cid (f c) (db_conversations db)\<rparr>)"

section \<open>Sending and receiving\<close>

definition send_message ::
    "prims \<Rightarrow> wire \<Rightarrow> randomness \<Rightarrow> (nat \<Rightarrow> u64) \<Rightarrow> msg_db \<Rightarrow> IdentityKey \<Rightarrow> IdentityKey \<Rightarrow> X25519PublicKey \<Rightarrow> bytes \<Rightarrow> Ttl
       \<Rightarrow> msg_db \<times> (MessageError + bytes \<times> SealedEnvelope)" where
  "send_message P W R clk db sender recipient recipient_x25519 plaintext ttl =
     (if Ttl_as_secs ttl > MAX_MESSAGE_TTL_SECS
      then (db, Inl (MessageInvalidTtl (InvalidTtl (Ttl_as_secs ttl) MIN_TTL_SECS MAX_MESSAGE_TTL_SECS)))
      else
        let sender_bytes = identity_bytes sender; recipient_bytes = identity_bytes recipient in
        if \<not> is_connected db sender_bytes recipient_bytes \<and> \<not> is_request_accepted db recipient_bytes sender_bytes
        then (db, Inl (NotAllowed ''no connection or accepted message request with recipient''))
        else case SealedEnvelope_seal P W R (clk 0) sender recipient recipient_x25519 plaintext ttl of
               Inl e \<Rightarrow> (db, Inl e)
             | Inr envelope \<Rightarrow>
                 let (db, conversation_id) = get_or_create_conversation W (clk 1) db sender_bytes recipient_bytes False;
                     msg_id = w_blake3 W (se_ciphertext envelope);
                     now = as_i64 (clk 2);
                     expires_at = as_i64 (clk 2 + Ttl_as_secs ttl)
                 in if hm_contains (db_messages db) msg_id then (db, Inl (MessageDatabase ''''))
                    else
                      let db = db\<lparr>db_messages := hm_insert msg_id
                            \<lparr>ms_conversation_id = conversation_id, ms_sender_pubkey = sender_bytes, ms_received_at = now,
                             ms_expires_at = expires_at, ms_is_read = True, ms_body_preview = preview plaintext,
                             ms_encrypted_body = None, ms_is_encrypted = False\<rparr> (db_messages db)\<rparr>;
                          db = touch_conversation conversation_id (\<lambda>c. c\<lparr>cv_last_message_at := Some now\<rparr>) db
                      in (db, Inr (conversation_id, envelope)))"

definition receive_message ::
    "prims \<Rightarrow> wire \<Rightarrow> (nat \<Rightarrow> u64) \<Rightarrow> msg_db \<Rightarrow> SealedEnvelope \<Rightarrow> IdentityKey \<Rightarrow> X25519SecretKey
       \<Rightarrow> msg_db \<times> (MessageError + SealedPayload)" where
  "receive_message P W clk db envelope our_identity our_secret =
     (if envelope_is_expired envelope (clk 0) then (db, Inl MessageExpired)
      else case SealedEnvelope_open P W envelope our_secret of
        Inl e \<Rightarrow> (db, Inl e)
      | Inr payload \<Rightarrow>
          let our_bytes = identity_bytes our_identity;
              sender_bytes = identity_bytes (sp_sender payload);
              is_request = (\<not> is_connected db our_bytes sender_bytes \<and> \<not> is_request_accepted db our_bytes sender_bytes)
          in if is_request \<and> is_request_rejected db our_bytes sender_bytes
             then (db, Inl (NotAllowed ''message request was rejected''))
             else
               let (db, conversation_id) = get_or_create_conversation W (clk 1) db our_bytes sender_bytes is_request;
                   msg_id = w_blake3 W (se_ciphertext envelope);
                   now = as_i64 (clk 2);
                   expires_at = as_i64 (Timestamp_as_secs (se_timestamp envelope) + Ttl_as_secs (se_ttl envelope));
                   db = (if hm_contains (db_messages db) msg_id then db
                         else db\<lparr>db_messages := hm_insert msg_id
                           \<lparr>ms_conversation_id = conversation_id, ms_sender_pubkey = sender_bytes, ms_received_at = now,
                            ms_expires_at = expires_at, ms_is_read = False, ms_body_preview = preview (sp_body payload),
                            ms_encrypted_body = None, ms_is_encrypted = False\<rparr> (db_messages db)\<rparr>);
                   db = touch_conversation conversation_id
                          (\<lambda>c. c\<lparr>cv_last_message_at := Some now, cv_unread_count := cv_unread_count c + 1\<rparr>) db;
                   db = (if is_request then store_message_request (clk 3) db sender_bytes our_bytes else db)
               in (db, Inr payload))"

section \<open>Requests, listings and garbage collection\<close>

definition set_request_status :: "string \<Rightarrow> msg_db \<Rightarrow> bytes \<Rightarrow> bytes \<Rightarrow> msg_db" where
  "set_request_status s db recipient sender =
     (case hm_get (db_requests db) (sender, recipient) of
        None \<Rightarrow> db
      | Some r \<Rightarrow> db\<lparr>db_requests := hm_insert (sender, recipient) (r\<lparr>rq_status := s\<rparr>) (db_requests db)\<rparr>)"

definition accept_request :: "msg_db \<Rightarrow> bytes \<Rightarrow> bytes \<Rightarrow> msg_db \<times> (MessageError + unit)" where
  "accept_request db our_pubkey sender_pubkey =
     (if request_status db our_pubkey sender_pubkey \<noteq> Some ''pending''
      then (db, Inl (InvalidRequestState ''Pending'' ''no matching request found''))
      else
        let db = set_request_status ''accepted'' db our_pubkey sender_pubkey
        in (db\<lparr>db_conversations := map (\<lambda>(cid, c).
                 (cid, if cv_our_pubkey c = our_pubkey \<and> cv_their_pubkey c = sender_pubkey then c\<lparr>cv_is_request := False\<rparr> else c))
                 (db_conversations db)\<rparr>, Inr ()))"

definition reject_request :: "msg_db \<Rightarrow> bytes \<Rightarrow> bytes \<Rightarrow> msg_db \<times> (MessageError + unit)" where
  "reject_request db our_pubkey sender_pubkey =
     (if request_status db our_pubkey sender_pubkey \<noteq> Some ''pending''
      then (db, Inl (InvalidRequestState ''Pending'' ''no matching request found''))
      else (set_request_status ''rejected'' db our_pubkey sender_pubkey, Inr ()))"

text \<open>SQLite sorts \<^verbatim>\<open>NULL\<close> before every number, so last in a descending order.\<close>

definition list_conversations :: "msg_db \<Rightarrow> bytes \<Rightarrow> ConversationSummary list" where
  "list_conversations db our_pubkey =
     map (\<lambda>(cid, c). \<lparr>cs_conversation_id = cid, cs_our_pubkey = cv_our_pubkey c, cs_their_pubkey = cv_their_pubkey c,
            cs_last_message_at = cv_last_message_at c, cs_unread_count = cv_unread_count c, cs_is_request = cv_is_request c\<rparr>)
       (sort_key (\<lambda>(_, c). case cv_last_message_at c of Some t \<Rightarrow> - t | None \<Rightarrow> 2 ^ 64)
          (filter (\<lambda>(_, c). cv_our_pubkey c = our_pubkey) (db_conversations db)))"

definition get_messages :: "msg_db \<Rightarrow> bytes \<Rightarrow> int option \<Rightarrow> u32 \<Rightarrow> StoredMessage list" where
  "get_messages db conversation_id before limit =
     (let before_val = (case before of Some t \<Rightarrow> t | None \<Rightarrow> 2 ^ 63 - 1) in
      map (\<lambda>(i, m). \<lparr>sm_id = i, sm_conversation_id = ms_conversation_id m, sm_sender_pubkey = ms_sender_pubkey m,
             sm_received_at = ms_received_at m, sm_expires_at = ms_expires_at m, sm_body_preview = ms_body_preview m,
             sm_is_read = ms_is_read m, sm_encrypted_body = ms_encrypted_body m, sm_is_encrypted = ms_is_encrypted m\<rparr>)
        (take (unat limit) (sort_key (\<lambda>(_, m). - ms_received_at m)
           (filter (\<lambda>(_, m). ms_conversation_id m = conversation_id \<and> ms_received_at m < before_val) (db_messages db)))))"

definition gc_expired_messages :: "u64 \<Rightarrow> msg_db \<Rightarrow> msg_db \<times> nat" where
  "gc_expired_messages now db =
     (let kept = filter (\<lambda>(_, m). \<not> ms_expires_at m < as_i64 now) (db_messages db);
          deleted = length (db_messages db) - length kept;
          db = db\<lparr>db_messages := kept\<rparr>
      in (db\<lparr>db_conversations := filter (\<lambda>(cid, _). list_ex (\<lambda>(_, m). ms_conversation_id m = cid) kept) (db_conversations db)\<rparr>,
          deleted))"

section \<open>Dead drops\<close>

definition DEAD_DROP_MAX_TTL_SECS :: u64 where "DEAD_DROP_MAX_TTL_SECS = 14 * 24 * 60 * 60"

record DeadDropEnvelope =
  de_mailbox_key :: bytes
  de_message_id :: bytes
  de_sealed_data :: bytes
  de_deposited_at :: u64
  de_expires_at :: u64

record PendingMessage =
  pm_id :: ContentId
  pm_sealed_envelope :: bytes
  pm_deposited_at :: u64
  pm_expires_at :: u64

text \<open>A \<^verbatim>\<open>u64\<close> is bound to an SQL integer only if it fits into 63 bits; otherwise the statement fails.\<close>

definition to_sql :: "u64 \<Rightarrow> int option" where
  "to_sql w = (if unat w < 2 ^ 63 then Some (int (unat w)) else None)"

definition drop_insert :: "msg_db \<Rightarrow> bytes \<Rightarrow> bytes \<Rightarrow> bytes \<Rightarrow> u64 \<Rightarrow> u64 \<Rightarrow> msg_db \<times> (MessageError + unit)" where
  "drop_insert db message_id mailbox_key sealed_data deposited_at expires_at =
     (case (to_sql deposited_at, to_sql expires_at) of
        (Some d, Some e) \<Rightarrow>
          (if hm_contains (db_drops db) message_id then db
           else db\<lparr>db_drops := hm_insert message_id
                  \<lparr>dd_mailbox_key = mailbox_key, dd_sealed_data = sealed_data, dd_deposited_at = d, dd_expires_at = e\<rparr>
                  (db_drops db)\<rparr>, Inr ())
      | _ \<Rightarrow> (db, Inl (MessageDatabase '''')))"

definition mailbox_key :: "wire \<Rightarrow> IdentityKey \<Rightarrow> ContentId" where
  "mailbox_key W pubkey =
     ContentId_from_hash (w_blake3 W (ascii_bytes ''ephemera-dead-drop-mailbox-v1'' @ [0] @ identity_bytes pubkey))"

definition dead_drop_deposit ::
    "wire \<Rightarrow> u64 \<Rightarrow> msg_db \<Rightarrow> IdentityKey \<Rightarrow> SealedEnvelope \<Rightarrow> msg_db \<times> (MessageError + ContentId)" where
  "dead_drop_deposit W now db recipient_pubkey sealed =
     (let mailbox_bytes = cid_hash (mailbox_key W recipient_pubkey);
          sealed_data = w_envelope W sealed;
          msg_id = ContentId_from_hash (w_blake3 W sealed_data)
      in case drop_insert db (cid_hash msg_id) mailbox_bytes sealed_data now (now + DEAD_DROP_MAX_TTL_SECS) of
           (db, Inl e) \<Rightarrow> (db, Inl e) | (db, Inr _) \<Rightarrow> (db, Inr msg_id))"

definition check_mailbox :: "wire \<Rightarrow> u64 \<Rightarrow> msg_db \<Rightarrow> IdentityKey \<Rightarrow> PendingMessage list" where
  "check_mailbox W now db our_pubkey =
     map (\<lambda>(i, d). \<lparr>pm_id = ContentId_from_hash (if length i = 32 then i else replicate 32 0), pm_sealed_envelope = dd_sealed_data d,
            pm_deposited_at = as_u64 (dd_deposited_at d), pm_expires_at = as_u64 (dd_expires_at d)\<rparr>)
       (sort_key (\<lambda>(_, d). dd_deposited_at d)
          (filter (\<lambda>(_, d). dd_mailbox_key d = cid_hash (mailbox_key W our_pubkey) \<and> dd_expires_at d > as_i64 now) (db_drops db)))"

definition dead_drop_acknowledge :: "wire \<Rightarrow> msg_db \<Rightarrow> ContentId \<Rightarrow> msg_db \<times> (MessageError + unit)" where
  "dead_drop_acknowledge W db message_id =
     (if \<not> hm_contains (db_drops db) (cid_hash message_id) then (db, Inl (ConversationNotFound (''dead drop message '' @ w_hex W (cid_hash message_id))))
      else (db\<lparr>db_drops := hm_remove (cid_hash message_id) (db_drops db)\<rparr>, Inr ()))"

text \<open>The deletion, at a time that is already an SQL integer.\<close>

definition drop_sweep :: "msg_db \<Rightarrow> int \<Rightarrow> msg_db" where
  "drop_sweep db now = db\<lparr>db_drops := filter (\<lambda>(_, d). \<not> dd_expires_at d \<le> now) (db_drops db)\<rparr>"

definition dead_drop_gc :: "u64 \<Rightarrow> msg_db \<Rightarrow> msg_db \<times> nat" where
  "dead_drop_gc now db =
     (let db' = drop_sweep db (as_i64 now) in (db', length (db_drops db) - length (db_drops db')))"

definition deposit_raw ::
    "u64 \<Rightarrow> msg_db \<Rightarrow> ContentId \<Rightarrow> ContentId \<Rightarrow> bytes \<Rightarrow> u64 \<Rightarrow> u64 \<Rightarrow> msg_db \<times> (MessageError + unit)" where
  "deposit_raw now db mailbox message_id sealed_data deposited_at expires_at =
     (if expires_at \<le> now then (db, Inl MessageExpired)
      else drop_insert db (cid_hash message_id) (cid_hash mailbox) sealed_data deposited_at
             (min expires_at (now + DEAD_DROP_MAX_TTL_SECS)))"

definition mailbox_count :: "wire \<Rightarrow> u64 \<Rightarrow> msg_db \<Rightarrow> IdentityKey \<Rightarrow> nat" where
  "mailbox_count W now db pubkey =
     length (filter (\<lambda>(_, d). dd_mailbox_key d = cid_hash (mailbox_key W pubkey) \<and> dd_expires_at d > as_i64 now) (db_drops db))"

section \<open>Delivery\<close>

lemma conversation_id_symmetric: "compute_conversation_id W a b = compute_conversation_id W b a"
proof (cases "map unat a = map unat b")
  case True
  then have "a = b"
    by (metis list.inj_map_strong word_unat_eq_iff)
  then show ?thesis
    by simp
next
  case False
  then show ?thesis
    unfolding compute_conversation_id_def by (auto dest: order.antisym)
qed

lemma seal_open_envelope:
  assumes "prims_ok P" "wire_ok W" "length (rn_nonce R) = 24" "rn_ephemeral R = KeyPair_generate P e"
    and small: "length (w_payload W \<lparr>sp_sender = sender, sp_body = body\<rparr>) \<le> MAX_SEALED_WIRE_SIZE"
  obtains env where
    "SealedEnvelope_seal P W R now sender recipient (kp_public (KeyPair_generate P s)) body ttl = Inr env"
    "SealedEnvelope_open P W env (kp_secret (KeyPair_generate P s)) = Inr \<lparr>sp_sender = sender, sp_body = body\<rparr>"
    "se_recipient env = recipient" "se_timestamp env = Timestamp_from_secs now" "se_ttl env = ttl"
proof -
  let ?p = "\<lparr>sp_sender = sender, sp_body = body\<rparr>"
  obtain c where c: "MessageEncryption_encrypt P (KeyPair_generate P e) (rn_nonce R) (w_payload W ?p) (kp_public (KeyPair_generate P s)) = Inr c"
      "MessageEncryption_decrypt P c (kp_secret (KeyPair_generate P s)) = Inr (w_payload W ?p)"
    using encrypt_decrypt [OF assms(1,3)] by blast
  let ?env = "\<lparr>se_recipient = recipient, se_ciphertext = c, se_timestamp = Timestamp_from_secs now, se_ttl = ttl\<rparr>"
  show thesis
  proof (rule that [of ?env])
    show "SealedEnvelope_seal P W R now sender recipient (kp_public (KeyPair_generate P s)) body ttl = Inr ?env"
      using small by (simp add: SealedEnvelope_seal_def assms(4) c(1))
    show "SealedEnvelope_open P W ?env (kp_secret (KeyPair_generate P s)) = Inr ?p"
      using assms(2) by (simp add: SealedEnvelope_open_def c(2) wire_ok_def)
  qed simp_all
qed

declare map_of_eq_Some_iff [simp del]

lemma touch_conversation_simps [simp]:
  "db_messages (touch_conversation cid f db) = db_messages db"
  "db_requests (touch_conversation cid f db) = db_requests db"
  "db_connections (touch_conversation cid f db) = db_connections db"
  "db_drops (touch_conversation cid f db) = db_drops db"
  "hm_get (db_conversations (touch_conversation cid f db)) = (hm_get (db_conversations db))(cid := map_option f (hm_get (db_conversations db) cid))"
  by (auto simp: touch_conversation_def fun_eq_iff split: option.split)

definition opened :: "wire \<Rightarrow> u64 \<Rightarrow> msg_db \<Rightarrow> bytes \<Rightarrow> bytes \<Rightarrow> bool \<Rightarrow> msg_db" where
  "opened W now db a b r = fst (get_or_create_conversation W now db a b r)"

lemma opened_simps [simp]:
  "get_or_create_conversation W now db a b r = (opened W now db a b r, compute_conversation_id W a b)"
  "db_messages (opened W now db a b r) = db_messages db"
  "db_requests (opened W now db a b r) = db_requests db"
  "db_connections (opened W now db a b r) = db_connections db"
  "db_drops (opened W now db a b r) = db_drops db"
  "\<exists>c. hm_get (db_conversations (opened W now db a b r)) (compute_conversation_id W a b) = Some c"
  by (auto simp: opened_def get_or_create_conversation_def Let_def)

lemma opened_existing: "hm_contains (db_conversations db) (compute_conversation_id W a b) \<Longrightarrow> opened W now db a b r = db"
  by (simp add: opened_def get_or_create_conversation_def Let_def del: opened_simps)

lemma store_message_request_simps [simp]:
  "db_messages (store_message_request now db s r) = db_messages db"
  "db_conversations (store_message_request now db s r) = db_conversations db"
  "db_connections (store_message_request now db s r) = db_connections db"
  "db_drops (store_message_request now db s r) = db_drops db"
  "\<exists>y. hm_get (db_requests (store_message_request now db s r)) (s, r) = Some y"
  "hm_get (db_requests db) k = Some y \<Longrightarrow> hm_get (db_requests (store_message_request now db s r)) k = Some y"
  by (auto simp: store_message_request_def)

lemma send_message_env:
  assumes "send_message P W R clk db a b pk body ttl = (db', Inr (cid, env))"
  shows "SealedEnvelope_seal P W R (clk 0) a b pk body ttl = Inr env"
    and "cid = compute_conversation_id W (identity_bytes a) (identity_bytes b)"
  using assms by (auto simp: send_message_def Let_def split: if_splits sum.splits)

lemma seal_small:
  "SealedEnvelope_seal P W R now a b pk body ttl = Inr env \<Longrightarrow> length (w_payload W \<lparr>sp_sender = a, sp_body = body\<rparr>) \<le> MAX_SEALED_WIRE_SIZE"
  by (auto simp: SealedEnvelope_seal_def Let_def split: if_splits)


section \<open>Requests\<close>

datatype msg_op =
    Send randomness "nat \<Rightarrow> u64" IdentityKey IdentityKey X25519PublicKey bytes Ttl
  | Receive "nat \<Rightarrow> u64" SealedEnvelope IdentityKey X25519SecretKey
  | AcceptRequest bytes bytes
  | RejectRequest bytes bytes
  | GcMessages u64

fun msg_step :: "prims \<Rightarrow> wire \<Rightarrow> msg_db \<Rightarrow> msg_op \<Rightarrow> msg_db" where
  "msg_step P W db (Send R clk a b pk body ttl) = fst (send_message P W R clk db a b pk body ttl)"
| "msg_step P W db (Receive clk env me sk) = fst (receive_message P W clk db env me sk)"
| "msg_step P W db (AcceptRequest me s) = fst (accept_request db me s)"
| "msg_step P W db (RejectRequest me s) = fst (reject_request db me s)"
| "msg_step P W db (GcMessages now) = fst (gc_expired_messages now db)"

lemma set_request_status_requests:
  "hm_get (db_requests (set_request_status v db me s)) k =
     (if k = (s, me) then map_option (\<lambda>r. r\<lparr>rq_status := v\<rparr>) (hm_get (db_requests db) k) else hm_get (db_requests db) k)"
  "db_connections (set_request_status v db me s) = db_connections db"
  by (auto simp: set_request_status_def split: option.split)

lemma send_requests: "db_requests (fst (send_message P W R clk db a b pk body ttl)) = db_requests db"
  by (simp add: send_message_def Let_def split: sum.split)

lemma receive_requests:
  "hm_get (db_requests db) k = Some r \<Longrightarrow> hm_get (db_requests (fst (receive_message P W clk db env me sk))) k = Some r"
  by (simp add: receive_message_def Let_def split: sum.split)

lemma msg_step_connections: "db_connections (msg_step P W db op) = db_connections db"
  by (cases op) (simp_all add: send_message_def receive_message_def accept_request_def reject_request_def
      gc_expired_messages_def set_request_status_requests Let_def split: sum.split)

text \<open>A decided request stays decided.\<close>

lemma decided_step:
  assumes "request_status db me s = Some v" "v \<noteq> ''pending''"
  shows "request_status (msg_step P W db op) me s = Some v"
proof -
  obtain r where r: "hm_get (db_requests db) (s, me) = Some r" "rq_status r = v"
    using assms(1) by (auto simp: request_status_def)
  show ?thesis
  proof (cases op)
    case (AcceptRequest me' s')
    then show ?thesis
      using r assms(2) by (auto simp: request_status_def accept_request_def Let_def set_request_status_requests)
  next
    case (RejectRequest me' s')
    then show ?thesis
      using r assms(2) by (auto simp: request_status_def reject_request_def set_request_status_requests)
  qed (use r in \<open>auto simp: request_status_def send_requests gc_expired_messages_def Let_def dest: receive_requests\<close>)
qed

lemma decided_run:
  assumes "request_status db me s = Some v" "v \<noteq> ''pending''"
  shows "request_status (foldl (msg_step P W) db ops) me s = Some v"
  using assms by (induction ops arbitrary: db) (simp_all add: decided_step)

lemma connections_run: "db_connections (foldl (msg_step P W) db ops) = db_connections db"
  by (induction ops arbitrary: db) (simp_all add: msg_step_connections)

text \<open>
  C18: A rejected stranger stays out. Once a recipient has rejected a sender's request and the two are not connected, then
  after any further messages, requests and garbage collections by anyone, a message of that sender is refused and leaves
  the database as it is.
\<close>
theorem rejected_stays_out:
  assumes rejected: "snd (reject_request db (identity_bytes me) (identity_bytes s)) = Inr ()"
    and strangers: "\<not> is_connected db (identity_bytes me) (identity_bytes s)"
    and later: "db' = foldl (msg_step P W) (fst (reject_request db (identity_bytes me) (identity_bytes s))) ops"
    and from_s: "SealedEnvelope_open P W env sk = Inr \<lparr>sp_sender = s, sp_body = body\<rparr>" "\<not> envelope_is_expired env (clk 0)"
  shows "receive_message P W clk db' env me sk = (db', Inl (NotAllowed ''message request was rejected''))"
proof -
  have "request_status (fst (reject_request db (identity_bytes me) (identity_bytes s))) (identity_bytes me) (identity_bytes s)
      = Some ''rejected''"
    using rejected by (auto simp: reject_request_def request_status_def set_request_status_requests split: if_splits)
  then have "request_status db' (identity_bytes me) (identity_bytes s) = Some ''rejected''"
    unfolding later by (rule decided_run) simp
  moreover have "\<not> is_connected db' (identity_bytes me) (identity_bytes s)"
    using strangers unfolding later is_connected_def connections_run
    by (simp add: reject_request_def set_request_status_requests)
  ultimately show ?thesis
    using from_s by (simp add: receive_message_def is_request_rejected_def is_request_accepted_def)
qed

section \<open>Dead drops\<close>

text \<open>The mailbox as a store with expiring entries: the sweep of expired drops is not observable.\<close>

definition drop_lookup :: "msg_db \<Rightarrow> bytes \<Rightarrow> int \<Rightarrow> DropRow option" where
  "drop_lookup db i now =
     (case hm_get (db_drops db) i of Some d \<Rightarrow> if dd_expires_at d > now then Some d else None | None \<Rightarrow> None)"

interpretation drops: expiring_store "\<lambda>db. hm_ok (db_drops db)" drop_lookup drop_sweep
  by unfold_locales
    (auto simp: drop_lookup_def drop_sweep_def hm_get_filter split: option.splits if_splits)

datatype drop_op =
    Deposit u64 IdentityKey SealedEnvelope
  | DepositRaw u64 ContentId ContentId bytes u64 u64
  | Acknowledge ContentId
  | DropGc u64

fun drop_step :: "wire \<Rightarrow> msg_db \<Rightarrow> drop_op \<Rightarrow> msg_db" where
  "drop_step W db (Deposit now b env) = fst (dead_drop_deposit W now db b env)"
| "drop_step W db (DepositRaw now mb i sd d e) = fst (deposit_raw now db mb i sd d e)"
| "drop_step W db (Acknowledge i) = fst (dead_drop_acknowledge W db i)"
| "drop_step W db (DropGc now) = fst (dead_drop_gc now db)"

text \<open>What may happen to a drop before \<open>t\<close> without losing it: anything but its acknowledgement.\<close>

fun spares :: "bytes \<Rightarrow> int \<Rightarrow> drop_op \<Rightarrow> bool" where
  "spares i t (Acknowledge j) \<longleftrightarrow> cid_hash j \<noteq> i"
| "spares i t (DropGc now) \<longleftrightarrow> as_i64 now \<le> t"
| "spares i t _ \<longleftrightarrow> True"

lemma drop_insert_reads:
  "hm_get (db_drops db) j = Some d \<Longrightarrow> hm_get (db_drops (fst (drop_insert db i mb sd a e))) j = Some d"
  "hm_ok (db_drops db) \<Longrightarrow> hm_ok (db_drops (fst (drop_insert db i mb sd a e)))"
  by (auto simp: drop_insert_def split: option.split)

lemma deposit_db:
  "fst (dead_drop_deposit W now db b env) =
     fst (drop_insert db (w_blake3 W (w_envelope W env)) (cid_hash (mailbox_key W b)) (w_envelope W env) now (now + DEAD_DROP_MAX_TTL_SECS))"
  by (simp add: dead_drop_deposit_def Let_def ContentId_from_hash_def split: prod.split sum.split)

lemma drop_step_ok: "hm_ok (db_drops db) \<Longrightarrow> hm_ok (db_drops (drop_step W db op))"
  by (cases op)
    (simp_all add: deposit_db deposit_raw_def dead_drop_acknowledge_def dead_drop_gc_def drop_sweep_def Let_def drop_insert_reads)

lemma drop_step_keeps:
  assumes "hm_ok (db_drops db)" "hm_get (db_drops db) i = Some d" "dd_expires_at d > t" "spares i t op"
  shows "hm_get (db_drops (drop_step W db op)) i = Some d"
  using assms
  by (cases op)
    (auto simp: deposit_db deposit_raw_def dead_drop_acknowledge_def dead_drop_gc_def drop_sweep_def Let_def drop_insert_reads
      hm_get_filter)

lemma drop_run_keeps:
  assumes "hm_ok (db_drops db)" "hm_get (db_drops db) i = Some d" "dd_expires_at d > t" "list_all (spares i t) ops"
  shows "hm_get (db_drops (foldl (drop_step W) db ops)) i = Some d"
  using assms by (induction ops arbitrary: db) (simp_all add: drop_step_ok drop_step_keeps)

lemma small_time:
  assumes "unat now + unat DEAD_DROP_MAX_TTL_SECS < 2 ^ 63"
  shows "to_sql now = Some (int (unat now))"
    and "to_sql (now + DEAD_DROP_MAX_TTL_SECS) = Some (int (unat now) + 1209600)"
proof -
  have "unat (now + DEAD_DROP_MAX_TTL_SECS) = unat now + unat DEAD_DROP_MAX_TTL_SECS"
    using assms by (intro unat_add_exact) simp
  then show "to_sql (now + DEAD_DROP_MAX_TTL_SECS) = Some (int (unat now) + 1209600)"
    using assms by (simp add: to_sql_def DEAD_DROP_MAX_TTL_SECS_def)
  show "to_sql now = Some (int (unat now))"
    using assms by (simp add: to_sql_def)
qed


section \<open>The conversation list\<close>

definition list_ok :: "ConversationList \<Rightarrow> bool" where
  "list_ok cs \<longleftrightarrow> distinct (map c_peer_id cs) \<and>
     sorted_wrt (\<lambda>a b. Timestamp_as_secs (c_last_message_at a) \<ge> Timestamp_as_secs (c_last_message_at b)) cs"

lemma conversation_sort_ok: "distinct (map c_peer_id cs) \<Longrightarrow> list_ok (conversation_sort cs)"
proof -
  assume d: "distinct (map c_peer_id cs)"
  have "sorted (map (\<lambda>c. - int (unat (Timestamp_as_secs (c_last_message_at c)))) (conversation_sort cs))"
    by (simp add: conversation_sort_def)
  then have "sorted_wrt (\<lambda>a b. Timestamp_as_secs (c_last_message_at a) \<ge> Timestamp_as_secs (c_last_message_at b))
      (conversation_sort cs)"
    by (simp add: sorted_map word_le_def)
  moreover have "distinct (map c_peer_id (conversation_sort cs))"
    using d by (simp add: conversation_sort_def distinct_map)
  ultimately show ?thesis
    by (simp add: list_ok_def)
qed

lemma update_first_peers:
  assumes "\<And>c. c_peer_id (f c) = c_peer_id c"
  shows "map c_peer_id (update_first peer f cs) = map c_peer_id cs"
  using assms by (induction cs) auto

lemma conversation_get_none: "conversation_get cs peer = None \<longleftrightarrow> peer \<notin> c_peer_id ` set cs"
  by (auto simp: conversation_get_def find_None_iff)

text \<open>The list stays sorted by the last message, with one entry per peer.\<close>

lemma conversation_list_kept:
  assumes "list_ok cs"
  shows "list_ok (upsert_incoming cs peer t)" and "list_ok (upsert_outgoing cs peer t)" and "list_ok (conversation_remove cs peer)"
proof -
  have d: "distinct (map c_peer_id cs)"
    using assms by (simp add: list_ok_def)
  show "list_ok (upsert_incoming cs peer t)"
    using d unfolding upsert_incoming_def
    by (intro conversation_sort_ok) (auto simp: update_first_peers record_incoming_def Conversation_new_def conversation_get_none)
  show "list_ok (upsert_outgoing cs peer t)"
    using d unfolding upsert_outgoing_def
    by (intro conversation_sort_ok) (auto simp: update_first_peers record_outgoing_def Conversation_new_def conversation_get_none)
  show "list_ok (conversation_remove cs peer)"
    using assms by (auto simp: list_ok_def conversation_remove_def sorted_wrt_filter distinct_map inj_on_def)
qed

section \<open>What the checks miss\<close>

text \<open>
  \<^verbatim>\<open>seal\<close> bounds the payload, \<^verbatim>\<open>validate\<close> the ciphertext, which is 72 bytes longer, by the same constant: an envelope can
  be sealed and then be refused as too large.
\<close>

lemma sealed_but_invalid:
  assumes "prims_ok P" "length (rn_nonce R) = 24" "rn_ephemeral R = KeyPair_generate P e"
    and "length (w_payload W \<lparr>sp_sender = a, sp_body = body\<rparr>) = MAX_SEALED_WIRE_SIZE"
  shows "\<exists>env. SealedEnvelope_seal P W R now a b (kp_public (KeyPair_generate P s)) body ttl = Inr env \<and>
           SealedEnvelope_validate env \<noteq> Inr ()"
proof -
  obtain c where "seal P (rn_nonce R) (derive_key P (p_x25519_dh P e (p_x25519_public P s)))
      (w_payload W \<lparr>sp_sender = a, sp_body = body\<rparr>) = Inr c" "length c > MAX_SEALED_WIRE_SIZE"
    using seal_open [OF assms(1,2)] assms(4) by (metis add.assoc add.commute less_add_same_cancel2 zero_less_numeral add_pos_pos)
  then show ?thesis
    using assms(3,4)
    by (simp add: SealedEnvelope_seal_def SealedEnvelope_validate_def MessageEncryption_encrypt_def KeyPair_generate_def
        x25519_diffie_hellman_def Let_def)
qed

text \<open>
  The id of a relayed drop is not compared with the hash of its data. A forged record under the id of a genuine message
  keeps the genuine one out: its deposit answers with the id and stores nothing.
\<close>

lemma forged_drop_blocks:
  assumes "hm_get (db_drops db) (w_blake3 W (w_envelope W env)) = Some forged"
  shows "fst (dead_drop_deposit W now db b env) = db"
  using assms by (auto simp: deposit_db drop_insert_def split: option.split)

lemma forged_drop_accepted:
  assumes "\<not> hm_contains (db_drops db) (cid_hash i)" "now < e" "unat now + unat DEAD_DROP_MAX_TTL_SECS < 2 ^ 63" "unat d < 2 ^ 63"
  shows "\<exists>row. hm_get (db_drops (fst (deposit_raw now db mb i forged d e))) (cid_hash i) = Some row \<and> dd_sealed_data row = forged"
proof -
  have "unat (min e (now + DEAD_DROP_MAX_TTL_SECS)) < 2 ^ 63"
    using assms(3) unat_add_exact [of now DEAD_DROP_MAX_TTL_SECS] by (simp add: unat_min min_def word_le_nat_alt)
  then show ?thesis
    using assms by (simp add: deposit_raw_def drop_insert_def to_sql_def not_le)
qed

text \<open>
  The life time of a received message is what its sender wrote: nothing bounds the time stamp or the time to live, although
  the service says that it validates them.
\<close>

lemma receive_ignores_ttl:
  assumes "SealedEnvelope_open P W env sk = Inr payload" "clk 0 \<le> Timestamp_as_secs (se_timestamp env) + Ttl_as_secs (se_ttl env)"
    and "\<not> is_request_rejected db (identity_bytes me) (identity_bytes (sp_sender payload))"
    and "\<not> hm_contains (db_messages db) (w_blake3 W (se_ciphertext env))"
  shows "\<exists>row. hm_get (db_messages (fst (receive_message P W clk db env me sk))) (w_blake3 W (se_ciphertext env)) = Some row \<and>
           ms_expires_at row = as_i64 (Timestamp_as_secs (se_timestamp env) + Ttl_as_secs (se_ttl env))"
  using assms by (simp add: receive_message_def Let_def envelope_is_expired_def not_less)

text \<open>Receiving an envelope again stores nothing but counts one more unread message.\<close>

lemma replay_counts_unread:
  assumes "SealedEnvelope_open P W env sk = Inr payload" "\<not> envelope_is_expired env (clk 0)"
    and "is_connected db (identity_bytes me) (identity_bytes (sp_sender payload))"
    and "hm_contains (db_messages db) (w_blake3 W (se_ciphertext env))"
    and "hm_get (db_conversations db) (compute_conversation_id W (identity_bytes me) (identity_bytes (sp_sender payload))) = Some c"
  shows "db_messages (fst (receive_message P W clk db env me sk)) = db_messages db"
    and "map_option cv_unread_count (hm_get (db_conversations (fst (receive_message P W clk db env me sk)))
           (compute_conversation_id W (identity_bytes me) (identity_bytes (sp_sender payload)))) = Some (cv_unread_count c + 1)"
  using assms by (simp_all add: receive_message_def Let_def opened_existing)

section \<open>Concrete runs\<close>

fun toy_dec :: "bytes \<Rightarrow> bytes \<Rightarrow> SealedPayload option" where
  "toy_dec acc (x # y # r) =
     (if x = 0 then Some \<lparr>sp_sender = IdentityKey acc, sp_body = y # r\<rparr> else toy_dec (acc @ [y]) r)"
| "toy_dec acc [x] = (if x = 0 then Some \<lparr>sp_sender = IdentityKey acc, sp_body = []\<rparr> else None)"
| "toy_dec acc [] = None"

definition toy_wire :: wire where
  "toy_wire = \<lparr>w_payload = (\<lambda>p. concat (map (\<lambda>b. [1, b]) (identity_bytes (sp_sender p))) @ 0 # sp_body p),
     w_payload_of = toy_dec [], w_envelope = se_ciphertext, w_blake3 = (\<lambda>b. b), w_hex = (\<lambda>b. [])\<rparr>"

lemma toy_dec_enc:
  "toy_dec acc (concat (map (\<lambda>b. [1, b]) s) @ 0 # body) = Some \<lparr>sp_sender = IdentityKey (acc @ s), sp_body = body\<rparr>"
  by (induction s arbitrary: acc) (cases body; simp)+

lemma toy_wire_ok: "wire_ok toy_wire"
  by (simp add: wire_ok_def toy_wire_def toy_dec_enc)

definition toy_random :: randomness where
  "toy_random = \<lparr>rn_ephemeral = KeyPair_generate toy_prims [5], rn_nonce = replicate 24 0\<rparr>"

definition toy_msg_db :: msg_db where
  "toy_msg_db = \<lparr>db_connections = [(([1], [2]), \<lparr>cr_status = ''connected'', cr_created_at = 0, cr_updated_at = 0, cr_message = None,
     cr_initiator_pubkey = None\<rparr>)], db_blocks = [], db_mutes = [], db_conversations = [], db_messages = [], db_requests = [],
     db_drops = []\<rparr>"

definition toy_sent :: "msg_db \<times> (MessageError + bytes \<times> SealedEnvelope)" where
  "toy_sent = send_message toy_prims toy_wire toy_random (\<lambda>n. 100) toy_msg_db (IdentityKey [1]) (IdentityKey [2])
     (kp_public (KeyPair_generate toy_prims [9])) [104, 105] Ttl_one_hour"

definition toy_env :: SealedEnvelope where
  "toy_env = snd (projr (snd toy_sent))"

lemma toy_sent_facts:
  "\<exists>db'. toy_sent = (db', Inr ([1, 2], toy_env))"
  "SealedEnvelope_open toy_prims toy_wire toy_env (kp_secret (KeyPair_generate toy_prims [9]))
     = Inr \<lparr>sp_sender = IdentityKey [1], sp_body = [104, 105]\<rparr>"
  "\<not> envelope_is_expired toy_env 200"
proof -
  have small: "length (w_payload toy_wire \<lparr>sp_sender = IdentityKey [1], sp_body = [104, 105]\<rparr>) \<le> MAX_SEALED_WIRE_SIZE"
    by (simp add: toy_wire_def MAX_SEALED_WIRE_SIZE_def)
  have rnd: "length (rn_nonce toy_random) = 24" "rn_ephemeral toy_random = KeyPair_generate toy_prims [5]"
    by (simp_all add: toy_random_def)
  obtain env where env:
    "SealedEnvelope_seal toy_prims toy_wire toy_random 100 (IdentityKey [1]) (IdentityKey [2])
       (kp_public (KeyPair_generate toy_prims [9])) [104, 105] Ttl_one_hour = Inr env"
    "SealedEnvelope_open toy_prims toy_wire env (kp_secret (KeyPair_generate toy_prims [9]))
       = Inr \<lparr>sp_sender = IdentityKey [1], sp_body = [104, 105]\<rparr>"
    "se_recipient env = IdentityKey [2]" "se_timestamp env = Timestamp_from_secs 100" "se_ttl env = Ttl_one_hour"
    by (rule seal_open_envelope [OF toy_prims_ok toy_wire_ok rnd small])
  have cid: "compute_conversation_id toy_wire [1] [2] = [1, 2]"
    by (simp add: compute_conversation_id_def toy_wire_def)
  have "\<not> MAX_MESSAGE_TTL_SECS < Ttl_as_secs Ttl_one_hour"
    by (simp add: Ttl_one_hour_def Ttl_as_secs_def MIN_TTL_SECS_def MAX_MESSAGE_TTL_SECS_def)
  then have sent: "\<exists>db'. toy_sent = (db', Inr ([1, 2], env))"
    by (simp add: toy_sent_def send_message_def is_connected_def toy_msg_db_def env(1) Let_def cid)
  then have "toy_env = env"
    unfolding toy_env_def by (metis snd_conv sum.sel(2))
  then show "\<exists>db'. toy_sent = (db', Inr ([1, 2], toy_env))" "\<not> envelope_is_expired toy_env 200"
    "SealedEnvelope_open toy_prims toy_wire toy_env (kp_secret (KeyPair_generate toy_prims [9]))
       = Inr \<lparr>sp_sender = IdentityKey [1], sp_body = [104, 105]\<rparr>"
    using sent env by (simp_all add: envelope_is_expired_def Timestamp_from_secs_def Timestamp_as_secs_def Ttl_as_secs_def
        Ttl_one_hour_def MIN_TTL_SECS_def)
qed


definition toy_pending_db :: msg_db where
  "toy_pending_db = toy_msg_db\<lparr>db_requests := [(([1], [2]), \<lparr>rq_status = ''pending'', rq_created_at = 0\<rparr>)]\<rparr>"

theorem rejected_stays_out_witness:
  "receive_message toy_prims toy_wire (\<lambda>n. 200)
     (foldl (msg_step toy_prims toy_wire) (fst (reject_request toy_pending_db [2] [1])) [AcceptRequest [2] [1], GcMessages 150])
     toy_env (IdentityKey [2]) (kp_secret (KeyPair_generate toy_prims [9]))
   = (foldl (msg_step toy_prims toy_wire) (fst (reject_request toy_pending_db [2] [1])) [AcceptRequest [2] [1], GcMessages 150],
      Inl (NotAllowed ''message request was rejected''))"
proof (rule rejected_stays_out [where me = "IdentityKey [2]" and s = "IdentityKey [1]" and db = toy_pending_db
      and ops = "[AcceptRequest [2] [1], GcMessages 150]"])
  show "SealedEnvelope_open toy_prims toy_wire toy_env (kp_secret (KeyPair_generate toy_prims [9]))
      = Inr \<lparr>sp_sender = IdentityKey [1], sp_body = [104, 105]\<rparr>"
    by (rule toy_sent_facts)
  show "\<not> envelope_is_expired toy_env 200"
    by (rule toy_sent_facts)
  show "snd (reject_request toy_pending_db (identity_bytes (IdentityKey [2])) (identity_bytes (IdentityKey [1]))) = Inr ()"
    "\<not> is_connected toy_pending_db (identity_bytes (IdentityKey [2])) (identity_bytes (IdentityKey [1]))"
    by (simp_all add: toy_pending_db_def toy_msg_db_def reject_request_def request_status_def is_connected_def)
qed simp


end
