(* ===== verification/Spec2Isabelle.thy ===== *)
theory Spec2Isabelle
  imports Crdt_Clock Crdt_OrSet Pow Reputation Dht_Query Gossip_Service Message_Ratchet Epoch_Keys
    Group_Service Direct_Messages
begin

text \<open>
  A verification library for the core of \<^verbatim>\<open>ephemera-social\<close>, a peer-to-peer social network in Rust
  (\<^verbatim>\<open>src/crates\<close>), in which content carries a time to live, nodes find each other through a Kademlia table and
  spread content by gossip, replicas converge through CRDTs and abuse is limited by rate limits, proof of work and
  reputation.

  \<^bold>\<open>Theories and the code they model\<close>
  \<^item> \<open>Prelude\<close>: Rust's fixed-width integers as words (plain arithmetic wraps, as in the release profile), the
    checked and saturating operations, \<^verbatim>\<open>BTreeMap\<close> and \<^verbatim>\<open>HashMap\<close>. \<open>Rust_Strings\<close>: UTF-8, whitespace and lines.
  \<^item> \<open>Time_Types\<close>, \<open>Identity\<close> (\<^verbatim>\<open>ephemera-types\<close>): timestamps, TTLs, expiry, hybrid logical timestamps, errors;
    keys, signatures, node and content identifiers, the XOR metric.
  \<^item> \<open>Crdt_Join\<close> (locale \<open>crdt_join\<close>: what a merge must satisfy for replicas to converge), \<open>Crdt_GCounter\<close>,
    \<open>Crdt_Clock\<close>, \<open>Crdt_OrSet\<close> (\<^verbatim>\<open>ephemera-crdt\<close>): each type interprets the locale on its own merge.
  \<^item> \<open>Rate_Limit\<close>, \<open>Fingerprint\<close>, \<open>Pow\<close>, \<open>Reputation\<close> (\<^verbatim>\<open>ephemera-abuse\<close> and \<^verbatim>\<open>ephemera-crypto/src/pow.rs\<close>).
    The locale \<open>nonce_loop\<close> holds what the two proof-of-work searches share.
  \<^item> \<open>Dht_Routing\<close>, \<open>Dht_Storage\<close>, \<open>Dht_Query\<close> (\<^verbatim>\<open>ephemera-dht\<close>): k-buckets and routing table; record storage
    (locale \<open>expiring_store\<close>: sweeps are invisible to readers); the iterative lookup, as a state and as a transition
    system whose steps are responses in any order.
  \<^item> \<open>Gossip\<close>, \<open>Gossip_Service\<close> (\<^verbatim>\<open>ephemera-gossip\<close>): topics, fanout, deduplication and the PlumTree engine; the
    service of a node with its handlers, and networks of nodes exchanging packets.
  \<^item> \<open>Message_Crypto\<close>, \<open>Message_Ratchet\<close> (\<^verbatim>\<open>ephemera-crypto\<close> and \<^verbatim>\<open>ephemera-message\<close>): key pairs, sealing, key
    derivation and single-exchange encryption; prekey bundles, X3DH, the double ratchet and its persisted sessions, and
    conversations of two ratchets as a transition system of sends, losses and deliveries. \<open>Epoch_Keys\<close>: the epoch keys
    that content is encrypted under, and their destruction.
  \<^item> \<open>Handles\<close>, \<open>Social_Graph\<close>, \<open>Social_Groups\<close> (\<^verbatim>\<open>ephemera-social\<close>): the registry of handles; connections, blocks and
    mutes; groups with roles, bans, posts and chats. SQL tables are maps from their primary key to the row.
    \<open>Json\<close>, \<open>Group_Service\<close> (\<^verbatim>\<open>ephemera-node/src/services/social.rs\<close>): what a caller may do with groups, and runs of
    calls by any callers.
  \<^item> \<open>Direct_Messages\<close> (\<^verbatim>\<open>ephemera-message\<close>): sealed envelopes, conversations, message requests, the message service
    over its tables, and dead drops (another interpretation of \<open>expiring_store\<close>).

  \<^bold>\<open>State and operations\<close> A struct is a record with the fields of the code, an enum a datatype, a method a function
  from the state to the new state and the result (\<open>Inl\<close> an error). Clock readings, randomness and the answers of the
  transport are arguments; packets sent and messages delivered are results. BLAKE3, Argon2id, JSON and the
  primitives under direct messages (the record \<open>prims\<close>) are parameters, constrained only where a statement says so. Floating-point numbers are exact rationals or reals.

  \<^bold>\<open>What is shown\<close> CRDT replicas converge whatever the order of merges; clocks are strictly increasing within their
  range; content that is accepted expires; a rate limiter never allows more than its capacity plus refill, and the
  waiting time it names is enough; proof-of-work searches return exactly when a solution exists and what they return
  verifies; the routing table keeps its bucket discipline and answers closest-node queries exactly; a lookup ends and
  finds the closest nodes of everything it can reach; stored records obey their bounds and life times; gossip serves
  every peer, delivers each hash once and, when it has come to rest, has reached every connected node; both ends
  of X3DH derive one secret, and two ratchets started from it decrypt every message that is not lost, however sends
  and deliveries interleave; a session stores exactly what the ratchet did and nothing of a failed attempt; content under an epoch key is readable until
  the key is destroyed and never afterwards; nodes agree on who owns a handle, and what a registration returns every
  node accepts; a block holds until it is lifted; a group has one owner at most, banned keys stay out, and every role
  was given by someone who may give it; a message that is sent arrives and opens, a rejected sender stays out, and a dead
  drop waits for its recipient until it expires. Where the code
  does not do what its documentation says, the difference is a theorem too (\<open>orset_merge_is_union\<close>,
  \<open>lww_merge_commutes_iff\<close>, \<open>tick_wraps_backwards\<close>, \<open>forged_hash_suppresses_message\<close>, \<open>eviction_can_duplicate\<close>,
  \<open>engine_never_pushes\<close>, \<open>receiver_first_send_public_key\<close>, \<open>expired_key_rederived\<close>, \<open>renewed_handle_rejected\<close>,
  \<open>network_breaks_one_handle\<close>, \<open>requester_accepts_own_request\<close>, \<open>moderator_demotes_owner\<close>, \<open>admin_bans_owner\<close>,
  \<open>moderated_post_stays\<close>, \<open>linked_chat_refuses\<close>).

  \<^bold>\<open>Loops\<close> Loops over data are structural recursion or library folds. The nonce searches may not end: they are
  partial functions into \<open>option\<close>, and their theorems say exactly when they return. No definition uses fuel.

  \<^bold>\<open>Not modelled\<close> Key storage, SQL itself, media codecs, asynchronous I/O and the user interface. Planned next:
  moderation, content store and garbage collection, feeds, protocol codec, posts,
  and the node services that compose them.
\<close>

end
